(* ===== verification/TF_Facts.thy ===== *)
theory TF_Facts
  imports TF_Prelude
begin

unbundle bit_operations_syntax

text \<open>
  The Type Facts data model of \<^verbatim>\<open>rust/crates/typefacts/src/lib.rs\<close>: locations,
  declarations, the closed classification enums, the three bit-packed value domains, and the
  entity, symbol and file rows. \<^verbatim>\<open>Arc<T>\<close>, \<^verbatim>\<open>Box<T>\<close> and references are the value they point
  to, \<^verbatim>\<open>Arc<[T]>\<close> and \<^verbatim>\<open>Vec<T>\<close> are lists. An \<^verbatim>\<open>f64\<close> is its IEEE 754 bit pattern, because
  the wire carries \<^verbatim>\<open>to_bits\<close>; the derived \<^verbatim>\<open>PartialEq\<close> of the rows that hold one is written
  out (\<open>entity_eq\<close>), since it is not equality of bits.
\<close>

section \<open>Source hashes, locations and declarations\<close>

definition sha256_prefix :: str where
  "sha256_prefix = ''sha256:''"

text \<open>\<^verbatim>\<open>SourceHash\<close> is a string that \<^verbatim>\<open>SourceHash::parse\<close> accepted.\<close>

type_synonym source_hash = str

datatype type_facts_error = SourceHashError str

text \<open>\<^verbatim>\<open>u8::is_ascii_hexdigit\<close> and not \<^verbatim>\<open>u8::is_ascii_uppercase\<close>.\<close>

definition is_lower_hex :: "char \<Rightarrow> bool" where
  "is_lower_hex c \<longleftrightarrow> (CHR ''0'' \<le> c \<and> c \<le> CHR ''9'') \<or> (CHR ''a'' \<le> c \<and> c \<le> CHR ''f'')"

definition strip_prefix :: "str \<Rightarrow> str \<Rightarrow> str option" where
  "strip_prefix p s = (if prefix p s then Some (drop (length p) s) else None)"

definition source_hash_parse :: "str \<Rightarrow> type_facts_error + source_hash" where
  "source_hash_parse value =
     rbind (ok_or (SourceHashError value) (strip_prefix sha256_prefix value)) (\<lambda>digest.
     if length digest \<noteq> 64 \<or> \<not> list_all is_lower_hex digest then Inl (SourceHashError value)
     else Inr value)"

record location =
  loc_path :: str
  loc_end_byte :: u64
  loc_start_byte :: u64

record declaration_row =
  decl_kind :: str
  decl_name :: str
  decl_location :: location

section \<open>Classifications\<close>

datatype callability =
    Callable | UntypedCallable | NonCallable | CallabilityMixed | CallabilityUnknown

datatype constructability =
    Constructable | NonConstructable | ConstructabilityMixed | ConstructabilityUnknown

datatype runtime_binding_kind =
    BindingCallable | BindingNonCallable | BindingMixed | BindingOpen

datatype array_shape = ArrayShapeArray | NotArray | ArrayShapeMixed | ArrayShapeUnknown

datatype reference_space = SpaceValue | SpaceType | SpaceBoth | SpaceNeither

datatype resolved_call_validity = ValidityValid | ValidityRecovery | ValidityUnresolved

datatype call_kind = CallKindUnknown | CallKindCall | CallKindConstruct

datatype argument_mapping_status = StatusResolved | StatusUnresolved

datatype argument_mapping_reason =
    CallUnresolved | RecoverySignature | CompositeSignature | SpreadArgument
  | ParameterUnavailable

datatype construction_witness = WitnessUnknown | EmptyArray | EmptyObject

datatype symbol_claim = ClaimAbsent | ClaimUnresolved | ClaimPartial | ClaimCovering

datatype constant_value_kind = ConstString | ConstNumber

datatype primitive_literal_kind = LiteralString | LiteralNumber | LiteralBoolean

section \<open>Runtime value domain: four flags in a byte\<close>

type_synonym runtime_value_domain = u8

definition rvd_new :: "bool \<Rightarrow> bool \<Rightarrow> bool \<Rightarrow> bool \<Rightarrow> runtime_value_domain" where
  "rvd_new may_be_callable may_be_undefined may_be_other unknown =
     of_bool may_be_callable OR push_bit 1 (of_bool may_be_undefined)
     OR push_bit 2 (of_bool may_be_other) OR push_bit 3 (of_bool unknown)"

definition rvd_may_be_callable :: "runtime_value_domain \<Rightarrow> bool" where
  "rvd_may_be_callable d \<longleftrightarrow> d AND 1 \<noteq> 0"

definition rvd_may_be_undefined :: "runtime_value_domain \<Rightarrow> bool" where
  "rvd_may_be_undefined d \<longleftrightarrow> d AND 2 \<noteq> 0"

definition rvd_may_be_other :: "runtime_value_domain \<Rightarrow> bool" where
  "rvd_may_be_other d \<longleftrightarrow> d AND 4 \<noteq> 0"

definition rvd_unknown :: "runtime_value_domain \<Rightarrow> bool" where
  "rvd_unknown d \<longleftrightarrow> d AND 8 \<noteq> 0"

section \<open>Primitive value domain: flags in sixteen bits, zero is absence\<close>

type_synonym primitive_value_domain = u16

definition pvd_selected :: "bool \<Rightarrow> u16 \<Rightarrow> u16" where
  "pvd_selected value bit_value = (if value then bit_value else 0)"

definition pvd_new ::
    "bool \<Rightarrow> bool \<Rightarrow> bool \<Rightarrow> bool \<Rightarrow> bool \<Rightarrow> bool \<Rightarrow> bool \<Rightarrow> bool \<Rightarrow> bool \<Rightarrow> bool
     \<Rightarrow> primitive_value_domain" where
  "pvd_new may_be_string may_be_number may_be_boolean may_be_big_int may_be_symbol
     may_be_null may_be_undefined may_be_object numbers_are_finite unknown =
     (if unknown then 0xFFFF
      else let bits = pvd_selected may_be_string 1 OR pvd_selected may_be_number 2
             OR pvd_selected may_be_boolean 4 OR pvd_selected may_be_big_int 8
             OR pvd_selected may_be_symbol 16 OR pvd_selected may_be_null 32
             OR pvd_selected may_be_undefined 64 OR pvd_selected may_be_object 128
             OR pvd_selected (may_be_number \<and> numbers_are_finite) 256
           in if bits = 0 then 512 else bits)"

definition pvd_empty :: primitive_value_domain where
  "pvd_empty = 512"

definition pvd_is_present :: "primitive_value_domain \<Rightarrow> bool" where
  "pvd_is_present d \<longleftrightarrow> d \<noteq> 0"

definition pvd_has :: "u16 \<Rightarrow> primitive_value_domain \<Rightarrow> bool" where
  "pvd_has bit_value d \<longleftrightarrow> d AND bit_value \<noteq> 0"

definition pvd_numbers_are_finite :: "primitive_value_domain \<Rightarrow> bool" where
  "pvd_numbers_are_finite d \<longleftrightarrow> pvd_has 2 d \<and> pvd_has 256 d"

definition pvd_unknown :: "primitive_value_domain \<Rightarrow> bool" where
  "pvd_unknown d \<longleftrightarrow> d = 0xFFFF"

text \<open>
  The field of the Rust type is private: a value is the default (absent) or built by
  \<^verbatim>\<open>new\<close> or \<^verbatim>\<open>empty\<close>.
\<close>

definition pvd_wf :: "primitive_value_domain \<Rightarrow> bool" where
  "pvd_wf d \<longleftrightarrow> d = 0 \<or> d = 512 \<or> d = 0xFFFF
     \<or> (d < 512 \<and> (pvd_has 256 d \<longrightarrow> pvd_has 2 d))"

section \<open>Tuple shape: fixed length, rest flag and callability in one word\<close>

record tuple_shape =
  packed_shape_plus_one :: u32
  ts_element_zero_min_parameters :: u32
  ts_exact_length_plus_one :: u32

datatype tuple_shape_error = TupleFixedLengthExceeds | TupleExactLengthOverflows

definition fixed_length_mask :: u32 where
  "fixed_length_mask = push_bit 28 1 - 1"

definition has_rest_bit :: u32 where
  "has_rest_bit = push_bit 28 1"

fun element_zero_code :: "callability option \<Rightarrow> u32" where
  "element_zero_code None = 0"
| "element_zero_code (Some Callable) = 1"
| "element_zero_code (Some NonCallable) = 2"
| "element_zero_code (Some CallabilityMixed) = 3"
| "element_zero_code (Some CallabilityUnknown) = 4"
| "element_zero_code (Some UntypedCallable) = 5"

text \<open>
  \<^verbatim>\<open>NonZeroU32::new(packed_shape + 1).expect(...)\<close> cannot fail: see
  \<open>tuple_try_new_nonzero\<close>.
\<close>

definition tuple_try_new ::
    "u32 \<Rightarrow> bool \<Rightarrow> callability option \<Rightarrow> u32 \<Rightarrow> u32 option \<Rightarrow> tuple_shape_error + tuple_shape" where
  "tuple_try_new fixed_length has_rest element_zero min_parameters exact_length =
     (if fixed_length_mask < fixed_length then Inl TupleFixedLengthExceeds
      else
        rbind (case exact_length of
                 None \<Rightarrow> Inr 0
               | Some len \<Rightarrow>
                   if len = 0xFFFFFFFF then Inl TupleExactLengthOverflows
                   else Inr (len + 1)) (\<lambda>exact_length_plus_one.
        let rest = (if has_rest then has_rest_bit else 0);
            packed_shape = fixed_length OR rest OR push_bit 29 (element_zero_code element_zero)
        in Inr \<lparr> packed_shape_plus_one = packed_shape + 1,
                 ts_element_zero_min_parameters = min_parameters,
                 ts_exact_length_plus_one = exact_length_plus_one \<rparr>))"

definition ts_fixed_length :: "tuple_shape \<Rightarrow> u32" where
  "ts_fixed_length t = (packed_shape_plus_one t - 1) AND fixed_length_mask"

definition ts_has_rest :: "tuple_shape \<Rightarrow> bool" where
  "ts_has_rest t \<longleftrightarrow> (packed_shape_plus_one t - 1) AND has_rest_bit \<noteq> 0"

definition ts_element_zero :: "tuple_shape \<Rightarrow> callability option" where
  "ts_element_zero t =
     (let tag = drop_bit 29 (packed_shape_plus_one t - 1) in
      if tag = 0 then None
      else if tag = 1 then Some Callable
      else if tag = 2 then Some NonCallable
      else if tag = 3 then Some CallabilityMixed
      else if tag = 4 then Some CallabilityUnknown
      else if tag = 5 then Some UntypedCallable
      else None)"

definition ts_exact_length :: "tuple_shape \<Rightarrow> u32 option" where
  "ts_exact_length t =
     (if ts_exact_length_plus_one t = 0 then None else Some (ts_exact_length_plus_one t - 1))"

definition ts_has_slot :: "tuple_shape \<Rightarrow> u32 \<Rightarrow> bool" where
  "ts_has_slot t index \<longleftrightarrow>
     index < ts_fixed_length t \<or> (ts_has_rest t \<and> index \<le> ts_fixed_length t)"

definition ts_element_zero_accepts :: "tuple_shape \<Rightarrow> u32 \<Rightarrow> bool" where
  "ts_element_zero_accepts t arguments \<longleftrightarrow>
     ts_element_zero t = Some Callable \<and> ts_element_zero_min_parameters t \<le> arguments"

text \<open>
  A tuple shape a producer emits: built by \<^verbatim>\<open>TupleShape::for_producer\<close>, which always states
  element zero's callability.
\<close>

definition tuple_for_producer ::
    "u32 \<Rightarrow> bool \<Rightarrow> callability \<Rightarrow> u32 \<Rightarrow> u32 option \<Rightarrow> tuple_shape_error + tuple_shape" where
  "tuple_for_producer fixed_length has_rest element_zero min_parameters exact_length =
     tuple_try_new fixed_length has_rest (Some element_zero) min_parameters exact_length"

section \<open>Floating point values\<close>

type_synonym f64 = u64

definition f64_exponent :: "f64 \<Rightarrow> u64" where
  "f64_exponent x = drop_bit 52 x AND 0x7FF"

definition f64_mantissa :: "f64 \<Rightarrow> u64" where
  "f64_mantissa x = x AND 0xFFFFFFFFFFFFF"

definition f64_is_nan :: "f64 \<Rightarrow> bool" where
  "f64_is_nan x \<longleftrightarrow> f64_exponent x = 0x7FF \<and> f64_mantissa x \<noteq> 0"

definition f64_is_finite :: "f64 \<Rightarrow> bool" where
  "f64_is_finite x \<longleftrightarrow> f64_exponent x \<noteq> 0x7FF"

text \<open>IEEE equality: a NaN equals nothing, the two zeros are equal.\<close>

definition f64_eq :: "f64 \<Rightarrow> f64 \<Rightarrow> bool" where
  "f64_eq x y \<longleftrightarrow> \<not> f64_is_nan x \<and> \<not> f64_is_nan y
     \<and> (x = y \<or> (x AND 0x7FFFFFFFFFFFFFFF = 0 \<and> y AND 0x7FFFFFFFFFFFFFFF = 0))"

record constant_value =
  cv_kind :: constant_value_kind
  cv_string :: str
  cv_number :: f64

record primitive_literal_candidate =
  plc_kind :: primitive_literal_kind
  plc_string :: str
  plc_number :: f64
  plc_boolean :: bool

section \<open>Calls\<close>

record declaration_owner =
  own_symbol :: str
  own_name :: str
  own_kind :: str
  own_location :: location

record resolved_declaration =
  rd_symbol :: str
  rd_name :: str
  rd_kind :: str
  rd_location :: location
  rd_owners :: "declaration_owner list"
  rd_qualified_name :: str
  rd_origin_module :: str
  rd_source_file :: str
  rd_standard_library :: bool

record type_descriptor =
  td_text :: str
  td_origin_module :: str
  td_alias_declarations :: "declaration_row list"

record object_construction_property =
  ocp_name :: str
  ocp_witness :: construction_witness

record object_construction_shape =
  ocs_required_properties :: "object_construction_property list"

record parameter_fact =
  pf_index :: u64
  pf_symbol :: str
  pf_declaration :: "declaration_row option"
  pf_rest :: bool
  pf_optional :: bool
  pf_callability :: callability
  pf_type_descriptor :: "type_descriptor option"
  pf_object_shape :: "object_construction_shape option"

record argument_mapping =
  am_argument_index :: u64
  am_status :: argument_mapping_status
  am_unresolved :: "argument_mapping_reason option"
  am_parameter :: "parameter_fact option"

record call_target_set =
  cts_exhaustive :: bool
  cts_candidates :: "resolved_declaration list"

record resolved_call =
  rc_target :: str
  rc_return_type_text :: str
  rc_assertion_signature :: bool
  rc_never_returns :: bool
  rc_validity :: resolved_call_validity
  rc_kind :: call_kind
  rc_declaration :: "resolved_declaration option"
  rc_default_library_binding :: "resolved_declaration option"
  rc_targets :: "call_target_set option"
  rc_arguments :: "argument_mapping list"

section \<open>Entity, symbol and file rows\<close>

record entity_fact =
  ef_location :: location
  ef_symbol :: str
  ef_symbol_claim :: symbol_claim
  ef_type_descriptor :: "type_descriptor option"
  ef_resolved_call :: "resolved_call option"
  ef_callability :: "callability option"
  ef_constructability :: "constructability option"
  ef_runtime_binding_kind :: "runtime_binding_kind option"
  ef_runtime_value_domain :: "runtime_value_domain option"
  ef_primitive_value_domain :: primitive_value_domain
  ef_primitive_literal_candidates :: "primitive_literal_candidate list option"
  ef_call_result_domain :: "runtime_value_domain option"
  ef_constant_value :: "constant_value option"
  ef_array_shape :: "array_shape option"
  ef_tuple_shape :: "tuple_shape option"
  ef_library_types :: "str list option"
  ef_declared_keys :: "str list option"
  ef_writable_optional_property :: bool
  ef_reference_space :: "reference_space option"
  ef_runtime_identity :: str

record symbol_fact =
  sf_id :: str
  sf_references :: "location list"
  sf_alias_target :: str
  sf_declarations :: "declaration_row list"

record source_call =
  sc_location :: location
  sc_callee :: location
  sc_arguments :: "location list"
  sc_target :: str

record source_binding =
  sb_array :: bool
  sb_names :: "location list"
  sb_initializer :: source_call

record source_function =
  fn_name :: location
  fn_body :: location
  fn_parameters :: "location list"
  fn_exported :: bool
  fn_async :: bool
  fn_arrow :: bool

record async_function_fact =
  aff_expression :: location
  aff_symbol :: str
  aff_target :: str
  aff_can_return_async :: bool
  aff_calls_after_await :: "location list"

record file_fact =
  ff_path :: str
  ff_calls :: "source_call list"
  ff_bindings :: "source_binding list"
  ff_functions :: "source_function list"
  ff_async_functions :: "async_function_fact list"

record source_digest =
  sd_path :: str
  sd_sha256 :: source_hash

section \<open>Derived equality of rows that hold a float\<close>

definition constant_eq :: "constant_value \<Rightarrow> constant_value \<Rightarrow> bool" where
  "constant_eq a b \<longleftrightarrow> cv_kind a = cv_kind b \<and> cv_string a = cv_string b
     \<and> f64_eq (cv_number a) (cv_number b)"

definition candidate_eq ::
    "primitive_literal_candidate \<Rightarrow> primitive_literal_candidate \<Rightarrow> bool" where
  "candidate_eq a b \<longleftrightarrow> plc_kind a = plc_kind b \<and> plc_string a = plc_string b
     \<and> f64_eq (plc_number a) (plc_number b) \<and> plc_boolean a = plc_boolean b"

definition entity_eq :: "entity_fact \<Rightarrow> entity_fact \<Rightarrow> bool" where
  "entity_eq a b \<longleftrightarrow>
     a\<lparr>ef_constant_value := None, ef_primitive_literal_candidates := None\<rparr>
       = b\<lparr>ef_constant_value := None, ef_primitive_literal_candidates := None\<rparr>
     \<and> rel_option constant_eq (ef_constant_value a) (ef_constant_value b)
     \<and> rel_option (list_all2 candidate_eq)
         (ef_primitive_literal_candidates a) (ef_primitive_literal_candidates b)"

definition entities_eq :: "entity_fact list \<Rightarrow> entity_fact list \<Rightarrow> bool" where
  "entities_eq = list_all2 entity_eq"

section \<open>The packed domains lose nothing\<close>

lemma and_exp_cases: "w AND 2 ^ n = (if bit w n then 2 ^ n else 0)" for w :: "'a::len word"
  by (rule bit_word_eqI) (auto simp: bit_simps)

lemma pvd_selected_has: "pvd_selected (pvd_has (2 ^ n) d) (2 ^ n) = d AND 2 ^ n"
  by (simp add: pvd_selected_def pvd_has_def and_exp_cases)

lemmas pvd_selected_bits = pvd_selected_has [of 0] pvd_selected_has [of 1] pvd_selected_has [of 2]
  pvd_selected_has [of 3] pvd_selected_has [of 4] pvd_selected_has [of 5]
  pvd_selected_has [of 6] pvd_selected_has [of 7] pvd_selected_has [of 8]

lemma rvd_new_accessors [simp]:
  "rvd_may_be_callable (rvd_new a b c d) = a"
  "rvd_may_be_undefined (rvd_new a b c d) = b"
  "rvd_may_be_other (rvd_new a b c d) = c"
  "rvd_unknown (rvd_new a b c d) = d"
  by (cases a; cases b; cases c; cases d;
      simp add: rvd_new_def rvd_may_be_callable_def rvd_may_be_undefined_def
        rvd_may_be_other_def rvd_unknown_def)+

lemma rvd_new_of_accessors:
  assumes "d < 16"
  shows "rvd_new (rvd_may_be_callable d) (rvd_may_be_undefined d) (rvd_may_be_other d)
    (rvd_unknown d) = d"
proof -
  have "d AND mask 4 = d" using assms by (intro less_mask_eq) simp
  then have "d = d AND (1 OR 2 OR 4 OR 8)" by (simp add: mask_numeral)
  also have "\<dots> = d AND 2 ^ 0 OR d AND 2 ^ 1 OR d AND 2 ^ 2 OR d AND 2 ^ 3"
    by (simp flip: bit.conj_disj_distrib)
  also have "\<dots> = rvd_new (d AND 2 ^ 0 \<noteq> 0) (d AND 2 ^ 1 \<noteq> 0) (d AND 2 ^ 2 \<noteq> 0) (d AND 2 ^ 3 \<noteq> 0)"
    unfolding and_exp_cases rvd_new_def by (simp add: push_bit_eq_mult)
  finally show ?thesis
    by (simp add: rvd_may_be_callable_def rvd_may_be_undefined_def rvd_may_be_other_def
        rvd_unknown_def)
qed

lemma pvd_new_of_accessors:
  assumes "pvd_wf d" "pvd_is_present d"
  shows "pvd_new (pvd_has 1 d) (pvd_has 2 d) (pvd_has 4 d) (pvd_has 8 d) (pvd_has 16 d)
     (pvd_has 32 d) (pvd_has 64 d) (pvd_has 128 d) (pvd_numbers_are_finite d) (pvd_unknown d) = d"
proof -
  consider (empty) "d = 512" | (unknown) "d = 0xFFFF"
    | (bits) "d < 512" "pvd_has 256 d \<longrightarrow> pvd_has 2 d" "d \<noteq> 0"
    using assms by (auto simp: pvd_wf_def pvd_is_present_def)
  then show ?thesis
  proof cases
    case bits
    have "(pvd_has 2 d \<and> pvd_numbers_are_finite d) = pvd_has 256 d"
      using bits(2) by (auto simp: pvd_numbers_are_finite_def)
    then have fin: "pvd_selected (pvd_has 2 d \<and> pvd_numbers_are_finite d) 256 = d AND 256"
      using pvd_selected_bits(9) [of d] by simp
    have "d AND 1 OR d AND 2 OR d AND 4 OR d AND 8 OR d AND 16 OR d AND 32 OR d AND 64
      OR d AND 128 OR d AND 256 = d AND 511"
      by (simp flip: bit.conj_disj_distrib)
    also have "d AND 511 = d"
      using less_mask_eq [of d 9] bits(1) by (simp add: mask_numeral)
    finally have all: "d AND 1 OR d AND 2 OR d AND 4 OR d AND 8 OR d AND 16 OR d AND 32
      OR d AND 64 OR d AND 128 OR d AND 256 = d" .
    have "\<not> pvd_unknown d" using bits(1) by (auto simp: pvd_unknown_def)
    then show ?thesis
      using pvd_selected_bits all bits(3) by (simp add: pvd_new_def fin Let_def)
  qed (simp_all add: pvd_new_def pvd_selected_def pvd_has_def pvd_numbers_are_finite_def
      pvd_unknown_def)
qed

lemma bit_less_exp: "w < 2 ^ n \<Longrightarrow> bit w i \<Longrightarrow> i < n" for w :: "'a::len word"
  by (metis bit_take_bit_iff less_mask_eq take_bit_eq_mask)

lemma element_zero_code_bound: "element_zero_code c < 2 ^ 3"
  by (cases c rule: element_zero_code.cases) simp_all

text \<open>The packed word keeps its three parts apart.\<close>

lemma packed_shape_parts:
  fixes f code :: u32 and rest :: bool
  assumes f: "f \<le> fixed_length_mask" and code: "code < 2 ^ 3"
  defines "p \<equiv> f OR (if rest then has_rest_bit else 0) OR push_bit 29 code"
  shows "p AND fixed_length_mask = f" "(p AND has_rest_bit \<noteq> 0) = rest" "drop_bit 29 p = code"
proof -
  have mask: "fixed_length_mask = mask 28"
    by (simp add: fixed_length_mask_def mask_eq_exp_minus_1)
  have "f < 2 ^ 28" using f by (simp add: fixed_length_mask_def word_le_less_eq order_le_less_trans)
  then have bf: "bit f i \<Longrightarrow> i < 28" for i by (rule bit_less_exp)
  have bc: "bit code i \<Longrightarrow> i < 3" for i using code by (rule bit_less_exp)
  have hr: "has_rest_bit = 2 ^ 28" by (simp add: has_rest_bit_def)
  have bit_rest: "bit has_rest_bit i \<longleftrightarrow> i = 28" for i
    unfolding hr bit_exp_iff by auto
  have bp: "bit p i \<longleftrightarrow> bit f i \<or> (rest \<and> i = 28) \<or> (29 \<le> i \<and> i < 32 \<and> bit code (i - 29))" for i
    by (auto simp: p_def bit_rest bit_simps)
  show "p AND fixed_length_mask = f"
    by (rule bit_word_eqI) (auto simp: mask bit_simps bp dest: bf)
  show "(p AND has_rest_bit \<noteq> 0) = rest"
    unfolding hr and_exp_cases using bf [of 28] by (auto simp: bp)
  show "drop_bit 29 p = code"
    by (rule bit_word_eqI) (auto simp: bit_simps bp dest: bf bc)
qed

lemma tuple_try_new_accessors:
  assumes "tuple_try_new f r c m e = Inr t"
  shows "ts_fixed_length t = f" "ts_has_rest t = r" "ts_element_zero t = c"
    "ts_element_zero_min_parameters t = m" "ts_exact_length t = e"
proof -
  let ?p = "f OR (if r then has_rest_bit else 0) OR push_bit 29 (element_zero_code c)"
  from assms have f: "f \<le> fixed_length_mask" and p: "packed_shape_plus_one t - 1 = ?p"
    and m: "ts_element_zero_min_parameters t = m"
    and e: "ts_exact_length_plus_one t = (case e of None \<Rightarrow> 0 | Some l \<Rightarrow> l + 1)"
      "e \<noteq> Some 0xFFFFFFFF"
    by (auto simp: tuple_try_new_def Let_def not_less split: if_splits option.splits)
  note parts = packed_shape_parts [OF f element_zero_code_bound [of c], of r]
  show "ts_fixed_length t = f" "ts_has_rest t = r"
    using parts by (simp_all add: ts_fixed_length_def ts_has_rest_def p)
  show "ts_element_zero t = c"
    unfolding ts_element_zero_def p parts(3)
    by (cases c rule: element_zero_code.cases) simp_all
  show "ts_element_zero_min_parameters t = m" by (rule m)
  have "(0xFFFFFFFF :: u32) = - 1" by simp
  then have "l + 1 = 0 \<longleftrightarrow> l = 0xFFFFFFFF" for l :: u32
    by (simp only: add_eq_0_iff2)
  then show "ts_exact_length t = e"
    using e by (auto simp: ts_exact_length_def split: option.splits)
qed

lemma tuple_try_new_nonzero:
  assumes "tuple_try_new f r c m e = Inr t"
  shows "packed_shape_plus_one t \<noteq> 0"
proof
  assume "packed_shape_plus_one t = 0"
  then have "ts_element_zero t = None \<and> drop_bit 29 (packed_shape_plus_one t - 1) = 7"
    by (simp add: ts_element_zero_def Let_def mask_numeral)
  moreover have "drop_bit 29 (packed_shape_plus_one t - 1) = element_zero_code c"
    using assms packed_shape_parts(3) [OF _ element_zero_code_bound [of c], of f r]
    by (auto simp: tuple_try_new_def Let_def not_less split: if_splits option.splits)
  ultimately show False by (cases c rule: element_zero_code.cases) simp_all
qed

lemma bits_less_exp:
  fixes w :: "'a::len word"
  assumes "\<And>i. bit w i \<Longrightarrow> i < n" "n < LENGTH('a)"
  shows "w < 2 ^ n"
proof -
  have "take_bit n w = w"
    by (rule bit_word_eqI) (auto simp: bit_take_bit_iff dest: assms(1))
  then show ?thesis
    using and_mask_less' [of n w] assms(2) by (simp add: take_bit_eq_mask)
qed

lemma or_less_exp:
  "v < 2 ^ n \<Longrightarrow> w < 2 ^ n \<Longrightarrow> n < LENGTH('a) \<Longrightarrow> v OR w < 2 ^ n" for v w :: "'a::len word"
  by (rule bits_less_exp) (auto simp: bit_or_iff dest: bit_less_exp)

lemma pvd_has_exp: "pvd_has (2 ^ n) d \<longleftrightarrow> bit d n"
  using bit_imp_le_length [of d n] by (auto simp: pvd_has_def and_exp_cases)

lemmas pvd_has_bits = pvd_has_exp [of 1, simplified] pvd_has_exp [of 8, simplified]

lemma pvd_new_wf: "pvd_wf (pvd_new a b c d e f g h i j)"
proof -
  have sel: "pvd_selected v w < 2 ^ 9" if "w < 2 ^ 9" for v w
    using that by (simp add: pvd_selected_def)
  let ?x = "pvd_selected a 1 OR pvd_selected b 2 OR pvd_selected c 4 OR pvd_selected d 8
    OR pvd_selected e 16 OR pvd_selected f 32 OR pvd_selected g 64 OR pvd_selected h 128
    OR pvd_selected (b \<and> i) 256"
  have "?x < 2 ^ 9" by (intro or_less_exp sel) simp_all
  moreover have "pvd_has 256 ?x \<longrightarrow> pvd_has 2 ?x"
    unfolding pvd_has_bits by (cases b) (simp_all add: pvd_selected_def bit_or_iff)
  ultimately show ?thesis
    by (auto simp: pvd_new_def pvd_wf_def Let_def)
qed

end
