(* ===== verification/TF_Cursor.thy ===== *)
theory TF_Cursor
  imports TF_Facts
begin

unbundle bit_operations_syntax

text \<open>
  The primitives of the packed wire format: \<^verbatim>\<open>push_uvarint\<close> and the scalar readers of
  \<^verbatim>\<open>PackedCursor\<close> in \<^verbatim>\<open>rust/crates/typefacts/src/v3.rs\<close>. A reader takes the cursor (the whole
  input and an offset) and returns an error or a value and the advanced cursor. \<open>reads d bs v\<close>
  says that \<open>d\<close> consumes exactly \<open>bs\<close>, wherever they stand in the input, and returns \<open>v\<close>;
  it composes along \<open>dbind\<close>, which is how every row of the format is proved.
\<close>

section \<open>Errors of the decoder, one constructor per message of the source\<close>

datatype (plugins only: code size) decode_error =
    TableTruncated
  | IntegerOverflow
  | NotShortestForm
  | CountExceedsLimit str nat
  | BooleanHasValue str u64
  | RangeOverflow
  | StringIndexOutOfRange str nat
  | InvalidRepeatedPathMarker
  | LocationPathOutOfRange nat
  | LocationEndOverflow
  | DeltaOverflow str
  | StringPrefixExceedsPrevious
  | StringNotUtf8
  | UnknownStringTag u64
  | DigestNot32Bytes
  | DigestNotCanonical
  | TargetSetEmpty
  | TargetCandidateWithoutSymbol
  | UnknownFlags str u64
  | UnknownTag str u64
  | StatusReasonDisagree
  | EntityEndOverflow
  | ConstantIsNan
  | LiteralNotFinite
  | TupleParameterCountOverflows
  | TupleExactLengthTooLarge
  | TupleFixedLengthTooLarge
  | TupleShapeRejected tuple_shape_error
  | LiteralCandidateCountExceeds u64
  | ResolvedAndUnresolved
  | UnsupportedVersion u64
  | UnsupportedMode u64
  | UnsupportedSchema u64
  | TargetGenerationZero
  | DictionaryWithoutEmptyString
  | DictionaryDuplicate
  | ProjectIdEmpty
  | FullHasBaseIdentity
  | DeltaHasNoBaseIdentity
  | DeltaTargetPrecedesBase
  | PathEmpty
  | PathsNotOrdered
  | SlotInvalid str u64
  | EmptyPathOperation
  | FullContainsRemove
  | EntityReplacementEmpty str
  | EntityReplacementNotCanonical str
  | SymbolTagInvalid
  | SymbolIdEmpty
  | FullNonReplaceSymbol
  | SymbolReferencesNotCanonical str
  | AliasCarriesReferences str
  | SymbolReferencePathEmpty
  | ReferenceReplacementNotCanonical str str
  | SymbolsNotOrdered
  | TrailingBytes

section \<open>The cursor and its sequencing\<close>

record cursor =
  cur_input :: "u8 list"
  cur_offset :: nat

type_synonym 'a decoder = "cursor \<Rightarrow> decode_error + ('a \<times> cursor)"

definition cursor_new :: "u8 list \<Rightarrow> cursor" where
  "cursor_new bs = \<lparr>cur_input = bs, cur_offset = 0\<rparr>"

definition dret :: "'a \<Rightarrow> 'a decoder" where
  "dret v c = Inr (v, c)"

definition dfail :: "decode_error \<Rightarrow> 'a decoder" where
  "dfail e c = Inl e"

definition dbind :: "'a decoder \<Rightarrow> ('a \<Rightarrow> 'b decoder) \<Rightarrow> 'b decoder" where
  "dbind d f c = rbind (d c) (\<lambda>(a, c'). f a c')"

text \<open>A check that fails the decoder, \<^verbatim>\<open>if cond { return Err(...) }\<close>.\<close>

definition dassert :: "bool \<Rightarrow> decode_error \<Rightarrow> unit decoder" where
  "dassert ok e = (if ok then dret () else dfail e)"

definition dlift :: "decode_error + 'a \<Rightarrow> 'a decoder" where
  "dlift r = (case r of Inl e \<Rightarrow> dfail e | Inr a \<Rightarrow> dret a)"

text \<open>\<^verbatim>\<open>for _ in 0..count { out.push(...) }\<close>.\<close>

fun drepeat :: "nat \<Rightarrow> 'a decoder \<Rightarrow> 'a list decoder" where
  "drepeat 0 d = dret []"
| "drepeat (Suc n) d = dbind d (\<lambda>x. dbind (drepeat n d) (\<lambda>xs. dret (x # xs)))"

text \<open>The same loop with a state carried from one round to the next.\<close>

fun drepeat_st :: "nat \<Rightarrow> ('s \<Rightarrow> ('a \<times> 's) decoder) \<Rightarrow> 's \<Rightarrow> 'a list decoder" where
  "drepeat_st 0 d s = dret []"
| "drepeat_st (Suc n) d s =
     dbind (d s) (\<lambda>(x, s'). dbind (drepeat_st n d s') (\<lambda>xs. dret (x # xs)))"

text \<open>\<^verbatim>\<open>if present { Some(read) } else { None }\<close>.\<close>

definition dopt :: "bool \<Rightarrow> 'a decoder \<Rightarrow> 'a option decoder" where
  "dopt present d = (if present then dbind d (\<lambda>x. dret (Some x)) else dret None)"

section \<open>Varints\<close>

function push_uvarint :: "u8 list \<Rightarrow> u64 \<Rightarrow> u8 list" where
  "push_uvarint out value =
     (if 0x80 \<le> value
      then push_uvarint (out @ [ucast value OR 0x80]) (drop_bit 7 value)
      else out @ [ucast value])"
  by pat_completeness auto
termination
proof (relation "measure (\<lambda>(out, v). unat v)", simp)
  fix out :: "u8 list" and v :: u64
  assume "0x80 \<le> v"
  then have "0 < unat v" by (simp add: word_le_nat_alt)
  moreover have "unat (drop_bit 7 v) = unat v div 2 ^ 7"
    by (simp add: drop_bit_eq_div unat_div)
  ultimately show "((out @ [ucast v OR 0x80], drop_bit 7 v), (out, v))
      \<in> measure (\<lambda>(out, v). unat v)"
    by simp
qed

declare push_uvarint.simps [simp del]

definition uvarint :: "u64 \<Rightarrow> u8 list" where
  "uvarint value = push_uvarint [] value"

definition uvarint_shifts :: "nat list" where
  "uvarint_shifts = [0, 7, 14, 21, 28, 35, 42, 49, 56, 63]"

text \<open>\<^verbatim>\<open>for shift in (0..=63).step_by(7)\<close>.\<close>

fun cur_u64_loop :: "nat list \<Rightarrow> u64 \<Rightarrow> u64 decoder" where
  "cur_u64_loop [] value c = Inl IntegerOverflow"
| "cur_u64_loop (shift # shifts) value c =
     rbind (ok_or TableTruncated (get_at (cur_input c) (cur_offset c))) (\<lambda>byte.
     let c' = c\<lparr>cur_offset := cur_offset c + 1\<rparr> in
     if shift = 63 \<and> 1 < byte then Inl IntegerOverflow
     else
       let value' = value OR push_bit shift (ucast (byte AND 0x7F)) in
       if byte AND 0x80 = 0
       then (if shift \<noteq> 0 \<and> byte = 0 then Inl NotShortestForm else Inr (value', c'))
       else cur_u64_loop shifts value' c')"

definition cur_u64 :: "u64 decoder" where
  "cur_u64 = cur_u64_loop uvarint_shifts 0"

text \<open>\<^verbatim>\<open>i64\<close> is a 64-bit word read through \<^const>\<open>sint\<close>. Zigzag: \<^verbatim>\<open>signed\<close> of writer and reader.\<close>

definition zigzag :: "u64 \<Rightarrow> u64" where
  "zigzag value = push_bit 1 value XOR signed_drop_bit 63 value"

definition unzigzag :: "u64 \<Rightarrow> u64" where
  "unzigzag value = drop_bit 1 value XOR - (value AND 1)"

definition cur_signed :: "u64 decoder" where
  "cur_signed = dbind cur_u64 (\<lambda>value. dret (unzigzag value))"

section \<open>Scalar readers\<close>

definition packed_collection_limit :: nat where
  "packed_collection_limit = 1000000"

definition cur_count :: "str \<Rightarrow> nat decoder" where
  "cur_count label =
     dbind cur_u64 (\<lambda>value.
     let count = unat value in
     if packed_collection_limit < count then dfail (CountExceedsLimit label count)
     else dret count)"

definition cur_boolean :: "str \<Rightarrow> bool decoder" where
  "cur_boolean label =
     dbind cur_u64 (\<lambda>value.
     if value = 0 then dret False
     else if value = 1 then dret True
     else dfail (BooleanHasValue label value))"

definition cur_raw :: "nat \<Rightarrow> u8 list decoder" where
  "cur_raw len c =
     (let end = cur_offset c + len in
      if 2 ^ 64 \<le> end then Inl RangeOverflow
      else if length (cur_input c) < end then Inl TableTruncated
      else Inr (take len (drop (cur_offset c) (cur_input c)), c\<lparr>cur_offset := end\<rparr>))"

definition cur_string_index :: "str list \<Rightarrow> str \<Rightarrow> str decoder" where
  "cur_string_index strings label =
     dbind cur_u64 (\<lambda>value.
     let index = unat value in
     dlift (ok_or (StringIndexOutOfRange label index) (get_at strings index)))"

definition add_signed :: "u64 \<Rightarrow> u64 \<Rightarrow> str \<Rightarrow> decode_error + u64" where
  "add_signed base delta label =
     ok_or (DeltaOverflow label)
       (if 0 \<le> sint delta then checked_add base delta else checked_sub base (- delta))"

text \<open>\<^verbatim>\<open>i64::try_from\<close> of an \<^verbatim>\<open>i128\<close>, the difference of two \<^verbatim>\<open>u64\<close>.\<close>

definition i64_try_from :: "int \<Rightarrow> u64 option" where
  "i64_try_from d = (if - (2 ^ 63) \<le> d \<and> d < 2 ^ 63 then Some (word_of_int d) else None)"

text \<open>
  A flag \<^verbatim>\<open>1 << n\<close> of a flag word: the test \<^verbatim>\<open>flags & (1 << n) != 0\<close> of the readers and the
  conditional \<^verbatim>\<open>flags |= 1 << n\<close> of the writers.
\<close>

definition has_flag :: "u64 \<Rightarrow> nat \<Rightarrow> bool" where
  "has_flag flags n \<longleftrightarrow> flags AND push_bit n 1 \<noteq> 0"

definition flag :: "bool \<Rightarrow> nat \<Rightarrow> u64" where
  "flag b n = (if b then push_bit n 1 else 0)"

definition unknown_flags :: "u64 \<Rightarrow> u64 \<Rightarrow> bool" where
  "unknown_flags flags known \<longleftrightarrow> flags AND NOT known \<noteq> 0"

section \<open>What a reader consumes\<close>

text \<open>
  The reader \<open>d\<close> consumes exactly the bytes \<open>bs\<close>, wherever they stand, and returns \<open>v\<close>.
\<close>

definition reads :: "'a decoder \<Rightarrow> u8 list \<Rightarrow> 'a \<Rightarrow> bool" where
  "reads d bs v \<longleftrightarrow> (\<forall>before after. length (before @ bs) < 2 ^ 64 \<longrightarrow>
     d \<lparr>cur_input = before @ bs @ after, cur_offset = length before\<rparr>
       = Inr (v, \<lparr>cur_input = before @ bs @ after, cur_offset = length (before @ bs)\<rparr>))"

lemma readsD:
  "reads d bs v \<Longrightarrow> length (before @ bs) < 2 ^ 64 \<Longrightarrow>
   d \<lparr>cur_input = before @ bs @ after, cur_offset = length before\<rparr>
     = Inr (v, \<lparr>cur_input = before @ bs @ after, cur_offset = length (before @ bs)\<rparr>)"
  by (simp add: reads_def)

lemma reads_dret [reads_intros]: "reads (dret v) [] v"
  by (simp add: reads_def dret_def)

lemma reads_dret_iff [simp]: "reads (dret v) [] v' \<longleftrightarrow> v = v'"
proof
  assume "reads (dret v) [] v'"
  from readsD [OF this, of "[]" "[]"] show "v = v'" by (simp add: dret_def)
qed (simp add: reads_dret)

lemma reads_dbind:
  assumes "reads d bs a" "reads (f a) cs b"
  shows "reads (dbind d f) (bs @ cs) b"
  unfolding reads_def
proof (intro allI impI)
  fix before after :: "u8 list"
  assume len: "length (before @ bs @ cs) < 2 ^ 64"
  have "d \<lparr>cur_input = before @ bs @ cs @ after, cur_offset = length before\<rparr>
    = Inr (a, \<lparr>cur_input = before @ bs @ cs @ after, cur_offset = length (before @ bs)\<rparr>)"
    using readsD [OF assms(1), of before "cs @ after"] len by simp
  moreover have "f a \<lparr>cur_input = before @ bs @ cs @ after, cur_offset = length (before @ bs)\<rparr>
    = Inr (b, \<lparr>cur_input = before @ bs @ cs @ after, cur_offset = length (before @ bs @ cs)\<rparr>)"
    using readsD [OF assms(2), of "before @ bs" after] len by simp
  ultimately show "dbind d f \<lparr>cur_input = before @ (bs @ cs) @ after, cur_offset = length before\<rparr>
    = Inr (b, \<lparr>cur_input = before @ (bs @ cs) @ after, cur_offset = length (before @ bs @ cs)\<rparr>)"
    by (simp add: dbind_def)
qed

lemma reads_dbind_ret: "reads d bs a \<Longrightarrow> reads (f a) [] b \<Longrightarrow> reads (dbind d f) bs b"
  using reads_dbind [of d bs a f "[]" b] by simp

lemma reads_dbind_pure: "reads d [] a \<Longrightarrow> reads (f a) bs b \<Longrightarrow> reads (dbind d f) bs b"
  using reads_dbind [of d "[]" a f bs b] by simp

lemma reads_dassert [reads_intros]: "ok \<Longrightarrow> reads (dassert ok e) [] ()"
  by (simp add: dassert_def reads_dret)

lemma reads_dlift [reads_intros]: "r = Inr a \<Longrightarrow> reads (dlift r) [] a"
  by (simp add: dlift_def reads_dret)

lemma reads_drepeat:
  "list_all2 (\<lambda>bs x. reads d bs x) bss xs \<Longrightarrow> reads (drepeat (length xs) d) (concat bss) xs"
proof (induction bss xs rule: list_all2_induct)
  case Nil
  show ?case by (simp add: reads_dret)
next
  case (Cons bs bss x xs)
  have "reads (dbind (drepeat (length xs) d) (\<lambda>xs. dret (x # xs))) (concat bss) (x # xs)"
    by (rule reads_dbind_ret [OF Cons.IH reads_dret])
  then show ?case by (simp add: reads_dbind [OF Cons.hyps(1)])
qed

lemma reads_dopt_Some: "reads d bs x \<Longrightarrow> reads (dopt True d) bs (Some x)"
  by (simp add: dopt_def reads_dbind_ret reads_dret)

lemma reads_dopt_None: "reads (dopt False d) [] None"
  by (simp add: dopt_def reads_dret)

lemma reads_whole:
  assumes "reads d bs v" "length bs < 2 ^ 64"
  shows "d (cursor_new bs) = Inr (v, \<lparr>cur_input = bs, cur_offset = length bs\<rparr>)"
  using readsD [OF assms(1), of "[]" "[]"] assms(2) by (simp add: cursor_new_def)

section \<open>Varints round-trip\<close>

lemma push_uvarint_append: "push_uvarint (a @ b) v = a @ push_uvarint b v"
proof (induction b v rule: push_uvarint.induct)
  case (1 b v)
  show ?case
    by (subst (1 2) push_uvarint.simps) (simp add: "1.IH")
qed

lemma push_uvarint_eq: "push_uvarint out v = out @ uvarint v"
  using push_uvarint_append [of out "[]" v] by (simp add: uvarint_def)

lemma uvarint_rec:
  "uvarint v = (if 0x80 \<le> v then (ucast v OR 0x80) # uvarint (drop_bit 7 v) else [ucast v])"
proof -
  have "uvarint v = push_uvarint [] v" by (simp add: uvarint_def)
  also have "\<dots> = (if 0x80 \<le> v then (ucast v OR 0x80) # uvarint (drop_bit 7 v) else [ucast v])"
    by (subst push_uvarint.simps) (simp add: push_uvarint_eq)
  finally show ?thesis .
qed

lemma uvarint_not_Nil [simp]: "uvarint v \<noteq> []"
  by (subst uvarint_rec) simp

lemma word_ge_128_iff: "0x80 \<le> v \<longleftrightarrow> 128 \<le> unat v" for v :: u64
  by (simp add: word_le_nat_alt)

lemma ucast_low7: "(ucast ((ucast v OR 0x80 :: u8) AND 0x7F) :: u64) = v AND 0x7F"
proof (rule bit_word_eqI)
  fix n
  have "bit (0x7F :: u8) n \<longleftrightarrow> n < 7" "bit (0x7F :: u64) n \<longleftrightarrow> n < 7"
    using bit_mask_iff [of 7 n, where ?'a = u8] bit_mask_iff [of 7 n, where ?'a = u64]
    by (auto simp: mask_numeral possible_bit_def)
  moreover have "bit (0x80 :: u8) n \<longleftrightarrow> n = 7"
    using bit_exp_iff [of 7 n, where ?'a = u8] by auto
  ultimately show "bit (ucast ((ucast v OR 0x80 :: u8) AND 0x7F) :: u64) n = bit (v AND 0x7F) n"
    by (auto simp: bit_simps)
qed

lemma u8_bits:
  "bit (0x7F :: int) n \<longleftrightarrow> n < 7" "bit (0x80 :: int) n \<longleftrightarrow> n = 7"
  using bit_mask_iff [of 7 n, where ?'a = int] bit_exp_iff [of 7 n, where ?'a = int]
  by (auto simp: mask_numeral possible_bit_def)

lemma high_bit_set: "(ucast (v :: u64) OR 0x80 :: u8) AND 0x80 \<noteq> 0"
proof
  assume "(ucast v OR 0x80 :: u8) AND 0x80 = 0"
  then have "\<not> bit ((ucast v OR 0x80 :: u8) AND 0x80) 7" by simp
  then show False by (simp add: bit_simps u8_bits)
qed

lemma small_byte:
  assumes "\<not> 0x80 \<le> (v :: u64)"
  shows "(ucast v :: u8) AND 0x80 = 0" "(ucast ((ucast v :: u8) AND 0x7F) :: u64) = v"
proof -
  have "v < 2 ^ 7" using assms by simp
  then have b: "bit v n \<Longrightarrow> n < 7" for n by (rule bit_less_exp)
  show "(ucast v :: u8) AND 0x80 = 0"
    by (rule bit_word_eqI) (auto simp: bit_and_iff bit_or_iff bit_unsigned_iff bit_push_bit_iff bit_drop_bit_eq u8_bits dest: b)
  show "(ucast ((ucast v :: u8) AND 0x7F) :: u64) = v"
    by (rule bit_word_eqI) (auto simp: bit_and_iff bit_or_iff bit_unsigned_iff bit_push_bit_iff bit_drop_bit_eq u8_bits dest: b)
qed

lemma accumulate_low7:
  "push_bit s (v AND 0x7F) OR push_bit (s + 7) (drop_bit 7 v) = push_bit s v" for v :: u64
proof (rule bit_word_eqI)
  fix n
  show "bit (push_bit s (v AND 0x7F) OR push_bit (s + 7) (drop_bit 7 v)) n = bit (push_bit s v) n"
    by (cases "n < s + 7") (auto simp: bit_and_iff bit_or_iff bit_unsigned_iff bit_push_bit_iff bit_drop_bit_eq u8_bits)
qed

text \<open>
  The loop at shift \<open>7 * k\<close>: what is left of the value fits above the bits already read.
\<close>

lemma cur_u64_loop_uvarint:
  assumes "k \<le> 9" "unat v * 2 ^ (7 * k) < 2 ^ 64" "k \<noteq> 0 \<Longrightarrow> v \<noteq> 0"
  shows "reads (cur_u64_loop (drop k uvarint_shifts) a) (uvarint v) (a OR push_bit (7 * k) v)"
  using assms
proof (induction v arbitrary: k a rule: measure_induct_rule [where f = unat])
  case (less v)
  have shifts: "drop k uvarint_shifts = (7 * k) # drop (Suc k) uvarint_shifts"
    using less.prems(1) by (auto simp: uvarint_shifts_def le_Suc_eq numeral_eq_Suc)
  show ?case
  proof (cases "0x80 \<le> v")
    case True
    then have big: "128 \<le> unat v" by (simp add: word_ge_128_iff)
    have div: "unat (drop_bit 7 v) = unat v div 2 ^ 7" by (simp add: drop_bit_eq_div unat_div)
    have k8: "k \<noteq> 9" using big less.prems(2) by auto
    have *: "unat (drop_bit 7 v) * 2 ^ (7 * Suc k) < 2 ^ 64"
    proof -
      have "unat v div 2 ^ 7 * 2 ^ 7 \<le> unat v" by simp
      then have "unat v div 2 ^ 7 * 2 ^ 7 * 2 ^ (7 * k) \<le> unat v * 2 ^ (7 * k)" by (rule mult_le_mono1)
      moreover have "unat (drop_bit 7 v) * 2 ^ (7 * Suc k) = unat v div 2 ^ 7 * 2 ^ 7 * 2 ^ (7 * k)"
        by (simp add: div power_add)
      ultimately show ?thesis using less.prems(2) by linarith
    qed
    have "unat (drop_bit 7 v) \<noteq> 0" using big div by (simp add: div_eq_0_iff)
    then have nz: "drop_bit 7 v \<noteq> 0" by auto
    have IH: "reads (cur_u64_loop (drop (Suc k) uvarint_shifts) (a OR push_bit (7 * k) (v AND 0x7F)))
      (uvarint (drop_bit 7 v))
      ((a OR push_bit (7 * k) (v AND 0x7F)) OR push_bit (7 * Suc k) (drop_bit 7 v))"
      using less.IH [of "drop_bit 7 v" "Suc k"] div big k8 less.prems(1) * nz by simp
    have val: "(a OR push_bit (7 * k) (v AND 0x7F)) OR push_bit (7 * Suc k) (drop_bit 7 v)
      = a OR push_bit (7 * k) v"
      using accumulate_low7 [of "7 * k" v] by (simp add: or.assoc add.commute)
    show ?thesis
      unfolding reads_def
    proof (intro allI impI)
      fix before after
      assume len: "length (before @ uvarint v) < 2 ^ 64"
      have uv: "uvarint v = (ucast v OR 0x80) # uvarint (drop_bit 7 v)"
        using True by (subst uvarint_rec) simp
      show "cur_u64_loop (drop k uvarint_shifts) a
          \<lparr>cur_input = before @ uvarint v @ after, cur_offset = length before\<rparr>
        = Inr (a OR push_bit (7 * k) v,
            \<lparr>cur_input = before @ uvarint v @ after, cur_offset = length (before @ uvarint v)\<rparr>)"
        using readsD [OF IH [unfolded val], of "before @ [ucast v OR 0x80]" after] len k8
          less.prems(1)
        by (simp add: shifts uv high_bit_set ucast_low7)
    qed
  next
    case False
    then have uv: "uvarint v = [ucast v]" by (subst uvarint_rec) simp
    have "k = 9 \<Longrightarrow> unat v < 2" using less.prems(2) by auto
    moreover have "unat (ucast v :: u8) = unat v"
      using False by (simp add: word_ge_128_iff unsigned_ucast_eq take_bit_nat_eq_self)
    ultimately have "k = 9 \<Longrightarrow> (ucast v :: u8) \<le> 1" by (simp add: word_le_nat_alt)
    moreover have "k \<noteq> 0 \<Longrightarrow> (ucast v :: u8) \<noteq> 0" using less.prems(3) small_byte(2) [OF False] by auto
    ultimately show ?thesis
      using less.prems(1) by (auto simp: reads_def shifts uv small_byte [OF False] Let_def not_less)
  qed
qed

theorem reads_cur_u64 [reads_intros]: "reads cur_u64 (uvarint v) v"
  using cur_u64_loop_uvarint [of 0 v 0] unsigned_less [of v]
  by (simp add: cur_u64_def)

lemma bit_zigzag: "bit (zigzag w) n \<longleftrightarrow> n < 64 \<and> (0 < n \<and> bit w (n - 1)) \<noteq> bit w 63"
  unfolding zigzag_def bit_xor_iff bit_push_bit_iff bit_signed_drop_bit_iff
  by (cases n) (auto simp: possible_bit_def dest: bit_imp_le_length)

lemma unzigzag_zigzag [simp]: "unzigzag (zigzag w) = w"
proof -
  have neg: "- (zigzag w AND 1) = (if bit w 63 then - 1 else 0)"
    using bit_zigzag [of w 0] by (simp add: and_one_eq bit_0 mod_2_eq_odd)
  show ?thesis
  proof (rule bit_word_eqI)
    fix n assume "n < LENGTH(64)"
    then show "bit (unzigzag (zigzag w)) n = bit w n"
      unfolding unzigzag_def neg bit_xor_iff bit_drop_bit_eq
      by (cases "n = 63") (auto simp: bit_zigzag)
  qed
qed

lemma reads_cur_signed [reads_intros]: "reads cur_signed (uvarint (zigzag w)) w"
  unfolding cur_signed_def
  by (rule reads_dbind_ret [OF reads_cur_u64]) (simp add: reads_dret)

section \<open>The reader accepts the shortest form only\<close>

text \<open>The cursor \<open>c'\<close> stands right after the bytes \<open>bs\<close> that start at \<open>c\<close>.\<close>

definition consumed :: "cursor \<Rightarrow> u8 list \<Rightarrow> cursor \<Rightarrow> bool" where
  "consumed c bs c' \<longleftrightarrow> cur_input c' = cur_input c \<and> cur_offset c' = cur_offset c + length bs
     \<and> cur_offset c' \<le> length (cur_input c)
     \<and> take (length bs) (drop (cur_offset c) (cur_input c)) = bs"

lemma consumed_Cons:
  assumes "get_at (cur_input c) (cur_offset c) = Some b"
    and "consumed (c\<lparr>cur_offset := cur_offset c + 1\<rparr>) bs c'"
  shows "consumed c (b # bs) c'"
proof -
  have "drop (cur_offset c) (cur_input c) = b # drop (Suc (cur_offset c)) (cur_input c)"
    using assms(1) by (auto simp: get_at_Some_iff Cons_nth_drop_Suc)
  with assms(2) show ?thesis by (auto simp: consumed_def)
qed

lemma large_byte:
  assumes "b AND 0x80 \<noteq> (0 :: u8)" and "unat u' * 2 ^ 7 < 2 ^ 64" and "u' \<noteq> (0 :: u64)"
  defines "u \<equiv> ucast (b AND 0x7F) OR push_bit 7 u'"
  shows "0x80 \<le> u" "ucast u OR 0x80 = b" "drop_bit 7 u = u'"
proof -
  have "bit b 7"
    using assms(1) and_exp_cases [of b 7] by (auto split: if_splits)
  then have b7: "bit b 7" .
  have lt: "unat u' < 2 ^ 57" using assms(2) by simp
  then have "u' < 2 ^ 57" by (simp add: word_less_nat_alt)
  then have bu: "bit u' n \<Longrightarrow> n < 57" for n by (rule bit_less_exp)
  have bit_u: "bit u n \<longleftrightarrow> (n < 7 \<and> bit b n) \<or> (7 \<le> n \<and> bit u' (n - 7))" for n
    using bu [of "n - 7"]
    by (auto simp: u_def bit_and_iff bit_or_iff bit_unsigned_iff bit_push_bit_iff u8_bits)
  show drop: "drop_bit 7 u = u'"
    by (rule bit_word_eqI) (auto simp: bit_drop_bit_eq bit_u)
  show "ucast u OR 0x80 = b"
  proof (rule bit_word_eqI)
    fix n assume "n < LENGTH(8)"
    then show "bit (ucast u OR 0x80 :: u8) n = bit b n"
      using b7 by (cases "n = 7") (auto simp: bit_or_iff bit_unsigned_iff bit_u u8_bits)
  qed
  show "0x80 \<le> u"
  proof (rule ccontr)
    assume "\<not> 0x80 \<le> u"
    then have "unat u div 2 ^ 7 = 0" by (simp add: word_ge_128_iff)
    then have "unat (drop_bit 7 u) = 0" by (simp add: drop_bit_eq_div unat_div)
    with drop assms(3) show False by (simp add: unat_eq_zero)
  qed
qed

lemma low7_small: "b AND 0x80 = (0 :: u8) \<Longrightarrow> uvarint (ucast (b AND 0x7F)) = [b]"
proof -
  assume "b AND 0x80 = 0"
  then have "\<not> bit b 7" using and_exp_cases [of b 7] by (auto split: if_splits)
  then have b: "ucast (ucast (b AND 0x7F) :: u64) = b"
    by (intro bit_word_eqI)
      (auto simp: bit_and_iff bit_unsigned_iff u8_bits less_Suc_eq numeral_eq_Suc)
  have "(ucast (b AND 0x7F) :: u64) < 2 ^ 7"
    by (rule bits_less_exp) (auto simp: bit_and_iff bit_unsigned_iff u8_bits)
  then have "\<not> 0x80 \<le> (ucast (b AND 0x7F) :: u64)" by simp
  then show ?thesis using b by (subst uvarint_rec) simp
qed

lemma unat_drop_bit_7: "unat (drop_bit 7 (w :: u64)) = unat w div 2 ^ 7"
  by (simp add: drop_bit_eq_div unat_div)

lemma cur_u64_loop_canonical:
  assumes "cur_u64_loop (drop k uvarint_shifts) a c = Inr (v, c')" "k \<le> 10"
  shows "\<exists>u. v = a OR push_bit (7 * k) u \<and> unat u * 2 ^ (7 * k) < 2 ^ 64
    \<and> (k \<noteq> 0 \<longrightarrow> u \<noteq> 0) \<and> consumed c (uvarint u) c'"
  using assms
proof (induction "10 - k" arbitrary: k a c)
  case 0
  then show ?case by (simp add: uvarint_shifts_def)
next
  case (Suc m)
  have k: "k \<le> 9" using Suc.hyps(2) by simp
  have shifts: "drop k uvarint_shifts = (7 * k) # drop (Suc k) uvarint_shifts"
    using k by (auto simp: uvarint_shifts_def le_Suc_eq numeral_eq_Suc)
  let ?c = "c\<lparr>cur_offset := cur_offset c + 1\<rparr>"
  obtain b where get: "get_at (cur_input c) (cur_offset c) = Some b"
    and ok: "\<not> (k = 9 \<and> 1 < b)"
    using Suc.prems(1) by (cases "get_at (cur_input c) (cur_offset c)")
      (auto simp: shifts Let_def split: if_splits)
  let ?a = "a OR push_bit (7 * k) (ucast (b AND 0x7F))"
  show ?case
  proof (cases "b AND 0x80 = 0")
    case True
    let ?u = "ucast (b AND 0x7F) :: u64"
    have res: "v = ?a" "c' = ?c" "k \<noteq> 0 \<longrightarrow> b \<noteq> 0"
      using Suc.prems(1) get ok True by (auto simp: shifts Let_def split: if_splits)
    have uv: "uvarint ?u = [b]" by (rule low7_small [OF True])
    have "consumed ?c [] ?c" using get by (simp add: consumed_def get_at_Some_iff)
    then have "consumed c (uvarint ?u) c'"
      unfolding uv res(2) by (rule consumed_Cons [OF get])
    moreover have "k \<noteq> 0 \<longrightarrow> ?u \<noteq> 0"
    proof (intro impI notI)
      assume "k \<noteq> 0" "?u = 0"
      then have "[b] = uvarint 0" using uv by simp
      then have "b = 0" by (subst (asm) uvarint_rec) simp
      with res(3) \<open>k \<noteq> 0\<close> show False by simp
    qed
    moreover have "unat ?u * 2 ^ (7 * k) < 2 ^ 64"
    proof (cases "k = 9")
      case True
      then have "b \<le> 1" using ok by (simp add: not_less)
      then have "b AND 0x7F \<le> 1" by (metis word_and_le1 word_and_le2 order.trans and.commute)
      then have "unat (b AND 0x7F) \<le> 1" by (simp add: word_le_nat_alt)
      then have "unat ?u \<le> 1" by (simp add: unsigned_ucast_eq take_bit_nat_eq_self)
      with True show ?thesis by simp
    next
      case False
      have "?u < 2 ^ 7"
        by (rule bits_less_exp) (auto simp: bit_and_iff bit_unsigned_iff u8_bits)
      then have "unat ?u < 2 ^ 7" by (simp add: word_less_nat_alt)
      then have "unat ?u * 2 ^ (7 * k) < 2 ^ 7 * 2 ^ (7 * k)" by simp
      also have "\<dots> = 2 ^ (7 * Suc k)" by (simp add: power_add)
      also have "\<dots> \<le> 2 ^ 64" using False k by (intro power_increasing) auto
      finally show ?thesis .
    qed
    ultimately show ?thesis using res(1) by blast
  next
    case False
    have step: "cur_u64_loop (drop (Suc k) uvarint_shifts) ?a ?c = Inr (v, c')"
      using Suc.prems(1) get ok False by (auto simp: shifts Let_def split: if_splits)
    have m: "m = 10 - Suc k" using Suc.hyps(2) by arith
    have k8: "k \<le> 8"
    proof (rule ccontr)
      assume "\<not> k \<le> 8"
      with ok k have "b \<le> 1" by (auto simp: not_less)
      then have "b = 0 \<or> b = 1" by (metis word_le_0_iff word_le_less_eq word_less_1)
      with False show False by auto
    qed
    obtain u' where v: "v = ?a OR push_bit (7 * Suc k) u'"
      and bound: "unat u' * 2 ^ (7 * Suc k) < 2 ^ 64" and nz: "u' \<noteq> 0"
      and cons: "consumed ?c (uvarint u') c'"
      using Suc.hyps(1) [OF m step] k by auto
    have "unat u' * 2 ^ 7 \<le> unat u' * 2 ^ (7 * Suc k)" by (intro mult_le_mono2 power_increasing) auto
    then have b7: "unat u' * 2 ^ 7 < 2 ^ 64" using bound by linarith
    let ?u = "ucast (b AND 0x7F) OR push_bit 7 u'"
    note lb = large_byte [OF False b7 nz]
    have "uvarint ?u = b # uvarint u'" using lb by (subst uvarint_rec) simp
    then have "consumed c (uvarint ?u) c'" using consumed_Cons [OF get cons] by simp
    moreover have "v = a OR push_bit (7 * k) ?u"
      by (simp add: v or.assoc push_bit_or add.commute)
    moreover have "unat ?u * 2 ^ (7 * k) < 2 ^ 64"
    proof -
      have "unat ?u div 2 ^ 7 = unat u'"
        using unat_drop_bit_7 [of ?u] unfolding lb(3) by (rule sym)
      then have "unat ?u < (unat u' + 1) * 2 ^ 7"
        by (metis Suc_eq_plus1 dividend_less_times_div mult.commute mult_Suc_right
            zero_less_numeral zero_less_power add.commute)
      moreover have e: "(2 :: nat) ^ 64 = 2 ^ (64 - 7 * Suc k) * 2 ^ (7 * Suc k)"
        using k8 by (simp flip: power_add)
      have "unat u' < 2 ^ (64 - 7 * Suc k)"
        using bound unfolding e by (rule mult_less_cancel2 [THEN iffD1, THEN conjunct2])
      then have "(unat u' + 1) * 2 ^ 7 \<le> 2 ^ (64 - 7 * Suc k) * 2 ^ 7"
        by (intro mult_le_mono1) simp
      ultimately have "unat ?u < 2 ^ (64 - 7 * Suc k) * 2 ^ 7" by linarith
      then have "unat ?u * 2 ^ (7 * k) < 2 ^ (64 - 7 * Suc k) * 2 ^ 7 * 2 ^ (7 * k)"
        by (rule mult_less_mono1) simp
      also have "\<dots> = 2 ^ 64" using k8 by (simp flip: power_add)
      finally show ?thesis .
    qed
    moreover have "?u \<noteq> 0" using lb(1) by auto
    ultimately show ?thesis by blast
  qed
qed

lemma cur_u64_canonical: "cur_u64 c = Inr (v, c') \<Longrightarrow> consumed c (uvarint v) c'"
  using cur_u64_loop_canonical [of 0 0 c v c'] by (auto simp: cur_u64_def)

section \<open>The scalar readers on what the writers emit\<close>

lemma unat_of_nat_small: "n < 2 ^ 64 \<Longrightarrow> unat (of_nat n :: u64) = n"
  by (simp add: unat_of_nat)

lemma reads_cur_u64_cond:
  "w = v \<Longrightarrow> reads cur_u64 (uvarint w) v"
  by (simp add: reads_cur_u64)

lemma reads_cur_count [reads_intros]:
  assumes "n \<le> packed_collection_limit"
  shows "reads (cur_count label) (uvarint (of_nat n)) n"
proof -
  have "unat (of_nat n :: u64) = n"
    using assms by (intro unat_of_nat_small) (simp add: packed_collection_limit_def)
  then show ?thesis
    unfolding cur_count_def Let_def
    using assms by (intro reads_dbind_ret [OF reads_cur_u64]) (simp add: reads_dret not_less)
qed

lemma reads_cur_boolean [reads_intros]: "reads (cur_boolean label) (uvarint (of_bool b)) b"
  unfolding cur_boolean_def
  by (rule reads_dbind_ret [OF reads_cur_u64]) (cases b, simp_all add: reads_dret)

lemma reads_cur_raw [reads_intros]: "n = length bs \<Longrightarrow> reads (cur_raw n) bs bs"
  by (auto simp: reads_def cur_raw_def Let_def)

lemma reads_cur_string_index [reads_intros]:
  assumes "get_at strings i = Some s" "i < 2 ^ 64"
  shows "reads (cur_string_index strings label) (uvarint (of_nat i)) s"
  unfolding cur_string_index_def Let_def
  using assms(1)
  by (intro reads_dbind_ret [OF reads_cur_u64])
    (simp only: unat_of_nat_small [OF assms(2)] ok_or_simps dlift_def sum.case reads_dret)

lemma sint_i64_try_from: "i64_try_from d = Some w \<Longrightarrow> sint w = d"
  by (auto simp: i64_try_from_def signed_of_int signed_take_bit_int_eq_self split: if_splits)

text \<open>The reader's checked addition accepts the difference the writer computed exactly.\<close>

lemma add_signed_diff:
  fixes v base :: u64
  assumes "i64_try_from (uint v - uint base) = Some d"
  shows "add_signed base d label = Inr v"
proof -
  note s = sint_i64_try_from [OF assms]
  have d: "d = v - base"
    using assms by (auto simp: i64_try_from_def split: if_splits)
  show ?thesis
  proof (cases "base \<le> v")
    case True
    then show ?thesis using s by (simp add: add_signed_def d word_le_def)
  next
    case False
    then have "\<not> 0 \<le> sint d" and "- d \<le> base"
      using s by (auto simp: d word_le_def uint_sub_if')
    then show ?thesis by (simp add: add_signed_def checked_sub_def d)
  qed
qed

section \<open>Flag words\<close>

lemma has_flag_iff [simp]: "has_flag w n \<longleftrightarrow> bit w n"
  using and_exp_cases [of w n] bit_imp_le_length [of w n] by (auto simp: has_flag_def)

lemma bit_flag [simp]: "bit (flag b n) i \<longleftrightarrow> b \<and> i = n \<and> n < 64"
  by (auto simp: flag_def bit_exp_iff possible_bit_def)

lemma no_unknown_flags:
  assumes "\<And>i. bit w i \<Longrightarrow> i < k" "known = mask k"
  shows "\<not> unknown_flags w known"
proof -
  have "w AND NOT (mask k) = 0"
    by (rule bit_word_eqI) (auto simp: bit_and_iff bit_not_iff bit_mask_iff possible_bit_def dest: assms(1))
  then show ?thesis by (simp add: unknown_flags_def assms(2))
qed

lemma known_flags_bits:
  assumes "\<not> unknown_flags w known" "known = mask k" "bit w i"
  shows "i < k"
proof -
  have "w AND NOT (mask k) = 0" using assms by (simp add: unknown_flags_def)
  then have "\<not> bit (w AND NOT (mask k)) i" by simp
  with assms(3) bit_imp_le_length [OF assms(3)] show ?thesis
    by (auto simp: bit_and_iff bit_not_iff bit_mask_iff possible_bit_def)
qed

end
