(* ===== verification/TF_Decode.thy ===== *)
theory TF_Decode
  imports TF_Cursor
begin

unbundle bit_operations_syntax

text \<open>
  The decoder of a table transition: the row readers of \<^verbatim>\<open>PackedCursor\<close>, the dictionary, the
  entity run, the file facts and \<^verbatim>\<open>decode_table_transition\<close> of
  \<^verbatim>\<open>rust/crates/typefacts/src/v3.rs\<close>, with every refusal of the source as a branch. The lemmas at
  the end show what a decoded transition always satisfies: the canonical order and the
  shape restrictions that the retained table relies on.
\<close>

section \<open>Locations and declarations\<close>

record location_state =
  ls_path :: nat
  ls_start :: u64
  ls_valid :: bool

definition location_state_default :: location_state where
  "location_state_default = \<lparr>ls_path = 0, ls_start = 0, ls_valid = False\<rparr>"

definition cur_location ::
    "str list \<Rightarrow> location_state \<Rightarrow> (location \<times> location_state) decoder" where
  "cur_location strings state =
     dbind cur_u64 (\<lambda>path_token.
     dbind
       (if path_token AND 1 = 1
        then
          dbind (dassert (path_token = 1 \<and> ls_valid state) InvalidRepeatedPathMarker) (\<lambda>_.
          dbind cur_signed (\<lambda>delta.
          dbind (dlift (add_signed (ls_start state) delta ''location start'')) (\<lambda>start.
          dret (ls_path state, start))))
        else
          let path = unat (drop_bit 1 path_token) in
          dbind (dassert (path < length strings) (LocationPathOutOfRange path)) (\<lambda>_.
          dbind cur_u64 (\<lambda>start.
          dret (path, start)))) (\<lambda>(path, start).
     dbind cur_u64 (\<lambda>len.
     dbind (dlift (ok_or LocationEndOverflow (checked_add start len))) (\<lambda>end_byte.
     dret (\<lparr>loc_path = strings ! path, loc_end_byte = end_byte, loc_start_byte = start\<rparr>,
           \<lparr>ls_path = path, ls_start = start, ls_valid = True\<rparr>)))))"

definition cur_locations :: "str list \<Rightarrow> location list decoder" where
  "cur_locations strings =
     dbind (cur_count ''locations'') (\<lambda>count.
     drepeat_st count (cur_location strings) location_state_default)"

definition cur_declaration ::
    "str list \<Rightarrow> location_state \<Rightarrow> (declaration_row \<times> location_state) decoder" where
  "cur_declaration strings state =
     dbind (cur_string_index strings ''declaration name'') (\<lambda>name.
     dbind (cur_string_index strings ''declaration kind'') (\<lambda>kind.
     dbind (cur_location strings state) (\<lambda>(location, state').
     dret (\<lparr>decl_kind = kind, decl_name = name, decl_location = location\<rparr>, state'))))"

definition cur_declarations :: "str list \<Rightarrow> declaration_row list decoder" where
  "cur_declarations strings =
     dbind (cur_count ''declarations'') (\<lambda>count.
     drepeat_st count (cur_declaration strings) location_state_default)"

definition cur_type_descriptor :: "str list \<Rightarrow> type_descriptor decoder" where
  "cur_type_descriptor strings =
     dbind (cur_string_index strings ''type text'') (\<lambda>text.
     dbind (cur_string_index strings ''origin module'') (\<lambda>origin_module.
     dbind (cur_declarations strings) (\<lambda>alias_declarations.
     dret \<lparr>td_text = text, td_origin_module = origin_module,
           td_alias_declarations = alias_declarations\<rparr>)))"

definition cur_owner ::
    "str list \<Rightarrow> location_state \<Rightarrow> (declaration_owner \<times> location_state) decoder" where
  "cur_owner strings state =
     dbind (cur_string_index strings ''declaration owner symbol'') (\<lambda>symbol.
     dbind (cur_string_index strings ''declaration owner name'') (\<lambda>name.
     dbind (cur_string_index strings ''declaration owner kind'') (\<lambda>kind.
     dbind (cur_location strings state) (\<lambda>(location, state').
     dret (\<lparr>own_symbol = symbol, own_name = name, own_kind = kind, own_location = location\<rparr>,
           state')))))"

definition cur_resolved_declaration :: "str list \<Rightarrow> resolved_declaration decoder" where
  "cur_resolved_declaration strings =
     dbind (cur_string_index strings ''resolved declaration symbol'') (\<lambda>symbol.
     dbind (cur_string_index strings ''resolved declaration name'') (\<lambda>name.
     dbind (cur_string_index strings ''resolved declaration kind'') (\<lambda>kind.
     dbind (cur_location strings location_state_default) (\<lambda>(location, state).
     dbind (cur_count ''declaration owners'') (\<lambda>owner_count.
     dbind (drepeat_st owner_count (cur_owner strings) state) (\<lambda>owners.
     dbind (cur_string_index strings ''qualified declaration name'') (\<lambda>qualified_name.
     dbind (cur_string_index strings ''declaration origin module'') (\<lambda>origin_module.
     dbind (cur_string_index strings ''declaration source file'') (\<lambda>source_file.
     dbind (cur_boolean ''standard library'') (\<lambda>standard_library.
     dret \<lparr>rd_symbol = symbol, rd_name = name, rd_kind = kind, rd_location = location,
           rd_owners = owners, rd_qualified_name = qualified_name,
           rd_origin_module = origin_module, rd_source_file = source_file,
           rd_standard_library = standard_library\<rparr>))))))))))"

section \<open>Closed tag spaces\<close>

definition parse_runtime_value_domain :: "u64 \<Rightarrow> decode_error + runtime_value_domain" where
  "parse_runtime_value_domain value =
     (if unknown_flags value 15 then Inl (UnknownFlags ''runtime value-domain'' value)
      else Inr (rvd_new (has_flag value 0) (has_flag value 1) (has_flag value 2)
        (has_flag value 3)))"

definition parse_primitive_value_domain :: "u64 \<Rightarrow> decode_error + primitive_value_domain" where
  "parse_primitive_value_domain value =
     (if unknown_flags value 1023 then Inl (UnknownFlags ''primitive value-domain'' value)
      else Inr (pvd_new (has_flag value 0) (has_flag value 1) (has_flag value 2)
        (has_flag value 3) (has_flag value 4) (has_flag value 5) (has_flag value 6)
        (has_flag value 7) (has_flag value 9) (has_flag value 8)))"

definition parse_array_shape :: "u64 \<Rightarrow> decode_error + array_shape" where
  "parse_array_shape value =
     (if value = 0 then Inr ArrayShapeArray
      else if value = 1 then Inr NotArray
      else if value = 2 then Inr ArrayShapeMixed
      else if value = 3 then Inr ArrayShapeUnknown
      else Inl (UnknownTag ''array-shape'' value))"

definition parse_callability :: "u64 \<Rightarrow> u64 \<Rightarrow> decode_error + callability" where
  "parse_callability value table_schema =
     (if value = 0 then Inr Callable
      else if value = 1 then Inr NonCallable
      else if value = 2 then Inr CallabilityMixed
      else if value = 3 then Inr CallabilityUnknown
      else if value = 4 \<and> 15 \<le> table_schema then Inr UntypedCallable
      else Inl (UnknownTag ''callability'' value))"

definition parse_constructability :: "u64 \<Rightarrow> decode_error + constructability" where
  "parse_constructability value =
     (if value = 0 then Inr Constructable
      else if value = 1 then Inr NonConstructable
      else if value = 2 then Inr ConstructabilityMixed
      else if value = 3 then Inr ConstructabilityUnknown
      else Inl (UnknownTag ''constructability'' value))"

definition parse_reference_space :: "u64 \<Rightarrow> decode_error + reference_space" where
  "parse_reference_space value =
     (if value = 0 then Inr SpaceValue
      else if value = 1 then Inr SpaceType
      else if value = 2 then Inr SpaceBoth
      else if value = 3 then Inr SpaceNeither
      else Inl (UnknownTag ''reference-space'' value))"

definition parse_resolved_call_validity :: "u64 \<Rightarrow> decode_error + resolved_call_validity" where
  "parse_resolved_call_validity value =
     (if value = 0 then Inr ValidityValid
      else if value = 1 then Inr ValidityRecovery
      else if value = 2 then Inr ValidityUnresolved
      else Inl (UnknownTag ''resolved-call validity'' value))"

definition parse_call_kind :: "u64 \<Rightarrow> decode_error + call_kind" where
  "parse_call_kind value =
     (if value = 0 then Inr CallKindUnknown
      else if value = 1 then Inr CallKindCall
      else if value = 2 then Inr CallKindConstruct
      else Inl (UnknownTag ''call-kind'' value))"

definition parse_argument_mapping_status :: "u64 \<Rightarrow> decode_error + argument_mapping_status" where
  "parse_argument_mapping_status value =
     (if value = 0 then Inr StatusResolved
      else if value = 1 then Inr StatusUnresolved
      else Inl (UnknownTag ''argument-mapping status'' value))"

definition parse_argument_mapping_reason ::
    "argument_mapping_status \<Rightarrow> u64 \<Rightarrow> decode_error + argument_mapping_reason option" where
  "parse_argument_mapping_reason status value =
     rbind
       (if value = 0 then Inr None
        else if value = 1 then Inr (Some CallUnresolved)
        else if value = 2 then Inr (Some RecoverySignature)
        else if value = 3 then Inr (Some CompositeSignature)
        else if value = 4 then Inr (Some SpreadArgument)
        else if value = 5 then Inr (Some ParameterUnavailable)
        else Inl (UnknownTag ''argument-mapping reason'' value)) (\<lambda>reason.
     if (status = StatusResolved \<and> reason \<noteq> None) \<or> (status = StatusUnresolved \<and> reason = None)
     then Inl StatusReasonDisagree else Inr reason)"

definition parse_construction_witness :: "u64 \<Rightarrow> decode_error + construction_witness" where
  "parse_construction_witness tag =
     (if tag = 0 then Inr WitnessUnknown
      else if tag = 1 then Inr EmptyArray
      else if tag = 2 then Inr EmptyObject
      else Inl (UnknownTag ''construction-witness'' tag))"

definition parse_runtime_binding_kind :: "u64 \<Rightarrow> decode_error + runtime_binding_kind" where
  "parse_runtime_binding_kind tag =
     (if tag = 0 then Inr BindingCallable
      else if tag = 1 then Inr BindingNonCallable
      else if tag = 2 then Inr BindingMixed
      else if tag = 3 then Inr BindingOpen
      else Inl (UnknownTag ''runtime binding kind'' tag))"

text \<open>\<^verbatim>\<open>parse(self.u64()?)?\<close>.\<close>

definition cur_parse :: "(u64 \<Rightarrow> decode_error + 'a) \<Rightarrow> 'a decoder" where
  "cur_parse p = dbind cur_u64 (\<lambda>value. dlift (p value))"

section \<open>Resolved calls\<close>

definition cur_property :: "str list \<Rightarrow> object_construction_property decoder" where
  "cur_property strings =
     dbind (cur_string_index strings ''required object property'') (\<lambda>name.
     dbind (cur_parse parse_construction_witness) (\<lambda>witness.
     dret \<lparr>ocp_name = name, ocp_witness = witness\<rparr>))"

definition cur_object_shape :: "str list \<Rightarrow> object_construction_shape decoder" where
  "cur_object_shape strings =
     dbind (cur_count ''required object properties'') (\<lambda>count.
     dbind (drepeat count (cur_property strings)) (\<lambda>properties.
     dret \<lparr>ocs_required_properties = properties\<rparr>))"

definition cur_parameter_declaration :: "str list \<Rightarrow> declaration_row decoder" where
  "cur_parameter_declaration strings =
     dbind (cur_string_index strings ''parameter declaration name'') (\<lambda>name.
     dbind (cur_string_index strings ''parameter declaration kind'') (\<lambda>kind.
     dbind (cur_location strings location_state_default) (\<lambda>(location, state).
     dret \<lparr>decl_kind = kind, decl_name = name, decl_location = location\<rparr>)))"

definition cur_parameter :: "str list \<Rightarrow> u64 \<Rightarrow> parameter_fact decoder" where
  "cur_parameter strings table_schema =
     dbind cur_u64 (\<lambda>index.
     dbind (cur_string_index strings ''parameter symbol'') (\<lambda>symbol.
     dbind cur_u64 (\<lambda>flags.
     dbind (dassert (\<not> unknown_flags flags (if 17 \<le> table_schema then 31 else 15))
       (UnknownFlags ''parameter'' flags)) (\<lambda>_.
     dbind (dopt (has_flag flags 0) (cur_parameter_declaration strings)) (\<lambda>decl.
     dbind (cur_parse (\<lambda>value. parse_callability value table_schema)) (\<lambda>callability.
     dbind (dopt (has_flag flags 3) (cur_type_descriptor strings)) (\<lambda>type_descriptor.
     dbind (dopt (has_flag flags 4) (cur_object_shape strings)) (\<lambda>object_shape.
     dret \<lparr>pf_index = index, pf_symbol = symbol, pf_declaration = decl,
           pf_rest = has_flag flags 1, pf_optional = has_flag flags 2,
           pf_callability = callability, pf_type_descriptor = type_descriptor,
           pf_object_shape = object_shape\<rparr>))))))))"

definition cur_argument :: "str list \<Rightarrow> u64 \<Rightarrow> argument_mapping decoder" where
  "cur_argument strings table_schema =
     dbind cur_u64 (\<lambda>argument_index.
     dbind (cur_parse parse_argument_mapping_status) (\<lambda>status.
     dbind (cur_parse (parse_argument_mapping_reason status)) (\<lambda>unresolved.
     dbind (cur_boolean ''mapped parameter presence'') (\<lambda>present.
     dbind (dopt present (cur_parameter strings table_schema)) (\<lambda>parameter.
     dret \<lparr>am_argument_index = argument_index, am_status = status,
           am_unresolved = unresolved, am_parameter = parameter\<rparr>)))))"

definition cur_candidate :: "str list \<Rightarrow> resolved_declaration decoder" where
  "cur_candidate strings =
     dbind (cur_resolved_declaration strings) (\<lambda>candidate.
     dbind (dassert (rd_symbol candidate \<noteq> []) TargetCandidateWithoutSymbol) (\<lambda>_.
     dret candidate))"

definition cur_target_set :: "str list \<Rightarrow> call_target_set decoder" where
  "cur_target_set strings =
     dbind (cur_boolean ''target set exhaustiveness'') (\<lambda>exhaustive.
     dbind (cur_count ''target candidates'') (\<lambda>candidate_count.
     dbind (dassert (candidate_count \<noteq> 0) TargetSetEmpty) (\<lambda>_.
     dbind (drepeat candidate_count (cur_candidate strings)) (\<lambda>candidates.
     dret \<lparr>cts_exhaustive = exhaustive, cts_candidates = candidates\<rparr>))))"

text \<open>\<^verbatim>\<open>schema >= v && self.boolean(...)?\<close>: the presence byte exists from schema \<open>v\<close> only.\<close>

definition cur_presence_from :: "u64 \<Rightarrow> u64 \<Rightarrow> str \<Rightarrow> bool decoder" where
  "cur_presence_from since table_schema label =
     (if since \<le> table_schema then cur_boolean label else dret False)"

definition cur_call_flags :: "u64 \<Rightarrow> (bool \<times> bool) decoder" where
  "cur_call_flags table_schema =
     (if 19 \<le> table_schema
      then dbind cur_u64 (\<lambda>flags.
           dbind (dassert (\<not> unknown_flags flags 3) (UnknownFlags ''resolved call'' flags)) (\<lambda>_.
           dret (has_flag flags 0, has_flag flags 1)))
      else dret (False, False))"

definition cur_resolved_call :: "str list \<Rightarrow> u64 \<Rightarrow> resolved_call decoder" where
  "cur_resolved_call strings table_schema =
     dbind (cur_string_index strings ''resolved target'') (\<lambda>target.
     dbind (cur_string_index strings ''return type'') (\<lambda>return_type_text.
     dbind (cur_parse parse_resolved_call_validity) (\<lambda>validity.
     dbind (cur_parse parse_call_kind) (\<lambda>kind.
     dbind (cur_boolean ''resolved declaration presence'') (\<lambda>has_declaration.
     dbind (dopt has_declaration (cur_resolved_declaration strings)) (\<lambda>decl.
     dbind (cur_presence_from 6 table_schema ''target set presence'') (\<lambda>has_targets.
     dbind (dopt has_targets (cur_target_set strings)) (\<lambda>targets.
     dbind (cur_count ''argument mappings'') (\<lambda>argument_count.
     dbind (drepeat argument_count (cur_argument strings table_schema)) (\<lambda>arguments.
     dbind (cur_call_flags table_schema) (\<lambda>(assertion_signature, never_returns).
     dbind (cur_presence_from 20 table_schema ''default-library binding presence'') (\<lambda>has_default.
     dbind (dopt has_default (cur_resolved_declaration strings)) (\<lambda>default_library_binding.
     dret \<lparr>rc_target = target, rc_return_type_text = return_type_text,
           rc_assertion_signature = assertion_signature, rc_never_returns = never_returns,
           rc_validity = validity, rc_kind = kind, rc_declaration = decl,
           rc_default_library_binding = default_library_binding, rc_targets = targets,
           rc_arguments = arguments\<rparr>)))))))))))))"

definition cur_source_call :: "str list \<Rightarrow> source_call decoder" where
  "cur_source_call strings =
     dbind (cur_location strings location_state_default) (\<lambda>(location, state).
     dbind (cur_location strings state) (\<lambda>(callee, state').
     dbind (cur_locations strings) (\<lambda>arguments.
     dbind (cur_string_index strings ''source call target'') (\<lambda>target.
     dret \<lparr>sc_location = location, sc_callee = callee, sc_arguments = arguments,
           sc_target = target\<rparr>))))"

section \<open>The string dictionary\<close>

definition hex_digit :: "nat \<Rightarrow> char" where
  "hex_digit n = ''0123456789abcdef'' ! n"

definition hex_bytes :: "u8 list \<Rightarrow> str" where
  "hex_bytes bs = concat (map (\<lambda>b. [hex_digit (unat (drop_bit 4 b)), hex_digit (unat (b AND 0x0F))]) bs)"

definition hashed_symbol_prefix :: str where
  "hashed_symbol_prefix = ''symbol:h:''"

definition hashed_symbol_digest_bytes :: nat where
  "hashed_symbol_digest_bytes = 12"

text \<open>One dictionary entry; the state is the prefix window \<^verbatim>\<open>previous\<close>.\<close>

definition decode_packed_string :: "u8 list \<Rightarrow> (str \<times> u8 list) decoder" where
  "decode_packed_string previous =
     dbind cur_u64 (\<lambda>tag.
     if tag = 0 then
       dbind cur_u64 (\<lambda>prefix_length.
       dbind (dassert (unat prefix_length \<le> length previous) StringPrefixExceedsPrevious) (\<lambda>_.
       dbind cur_u64 (\<lambda>suffix_length.
       dbind (cur_raw (unat suffix_length)) (\<lambda>suffix.
       let previous' = take (unat prefix_length) previous @ suffix in
       dbind (dlift (ok_or StringNotUtf8 (from_utf8 previous'))) (\<lambda>value.
       dret (value, previous'))))))
     else if tag = 1 then
       dbind (cur_raw hashed_symbol_digest_bytes) (\<lambda>raw.
       dret (hashed_symbol_prefix @ hex_bytes raw, previous))
     else dfail (UnknownStringTag tag))"

definition decode_packed_strings :: "str list decoder" where
  "decode_packed_strings =
     dbind (cur_count ''strings'') (\<lambda>count. drepeat_st count decode_packed_string [])"

definition raw_digest :: "u8 list \<Rightarrow> decode_error + source_hash" where
  "raw_digest bytes =
     (if length bytes \<noteq> 32 then Inl DigestNot32Bytes
      else case source_hash_parse (sha256_prefix @ hex_bytes bytes) of
             Inl _ \<Rightarrow> Inl DigestNotCanonical
           | Inr hash \<Rightarrow> Inr hash)"

section \<open>Entity runs\<close>

definition u32_try_from :: "u64 \<Rightarrow> u32 option" where
  "u32_try_from value = (if value \<le> 0xFFFFFFFF then Some (ucast value) else None)"

definition entity_known_flags :: "u64 \<Rightarrow> u64" where
  "entity_known_flags table_schema =
     (if table_schema = 16 \<or> table_schema = 17 then 32767
      else if table_schema = 18 \<or> table_schema = 19 \<or> table_schema = 20
        \<or> table_schema = 21 \<or> table_schema = 22 then 65535
      else if table_schema = 23 then 131071
      else if table_schema = 24 then 262143
      else if table_schema = 15 \<or> table_schema = 14 then 16383
      else if table_schema = 13 then 8191
      else if table_schema = 12 then 4095
      else if table_schema = 11 then 2047
      else if table_schema = 9 then 1023
      else if table_schema = 8 then 511
      else if table_schema = 7 then 255
      else if table_schema = 5 \<or> table_schema = 6 then 127
      else if table_schema = 4 then 63
      else 31)"

definition cur_constant_value :: "str list \<Rightarrow> constant_value decoder" where
  "cur_constant_value strings =
     dbind cur_u64 (\<lambda>tag.
     if tag = 0 then
       dbind (cur_string_index strings ''constant string'') (\<lambda>value.
       dret \<lparr>cv_kind = ConstString, cv_string = value, cv_number = 0\<rparr>)
     else if tag = 1 then
       dbind cur_u64 (\<lambda>number.
       dbind (dassert (\<not> f64_is_nan number) ConstantIsNan) (\<lambda>_.
       dret \<lparr>cv_kind = ConstNumber, cv_string = [], cv_number = number\<rparr>))
     else dfail (UnknownTag ''constant-value'' tag))"

definition cur_exact_length :: "u64 \<Rightarrow> u32 option decoder" where
  "cur_exact_length table_schema =
     (if 13 \<le> table_schema
      then dbind cur_u64 (\<lambda>encoded.
           if encoded = 0 then dret None
           else dbind (dlift (ok_or TupleExactLengthTooLarge (u32_try_from (encoded - 1)))) (\<lambda>len.
                dret (Some len)))
      else dret None)"

definition cur_tuple_shape :: "u64 \<Rightarrow> tuple_shape decoder" where
  "cur_tuple_shape table_schema =
     dbind cur_u64 (\<lambda>packed.
     dbind (cur_parse (\<lambda>value. parse_callability value table_schema)) (\<lambda>element_zero.
     dbind cur_u64 (\<lambda>min_parameters.
     dbind (dlift (ok_or TupleParameterCountOverflows (u32_try_from min_parameters)))
       (\<lambda>element_zero_min_parameters.
     dbind (cur_exact_length table_schema) (\<lambda>exact_length.
     dbind (dlift (ok_or TupleFixedLengthTooLarge (u32_try_from (drop_bit 1 packed)))) (\<lambda>fixed_length.
     dlift (case tuple_try_new fixed_length (has_flag packed 0) (Some element_zero)
                   element_zero_min_parameters exact_length of
              Inl e \<Rightarrow> Inl (TupleShapeRejected e)
            | Inr shape \<Rightarrow> Inr shape)))))))"

definition cur_names :: "str list \<Rightarrow> str \<Rightarrow> str list decoder" where
  "cur_names strings label =
     dbind cur_u64 (\<lambda>count. drepeat (unat count) (cur_string_index strings label))"

definition cur_literal_candidate :: "str list \<Rightarrow> primitive_literal_candidate decoder" where
  "cur_literal_candidate strings =
     dbind cur_u64 (\<lambda>tag.
     if tag = 0 then
       dbind (cur_string_index strings ''primitive literal string'') (\<lambda>value.
       dret \<lparr>plc_kind = LiteralString, plc_string = value, plc_number = 0, plc_boolean = False\<rparr>)
     else if tag = 1 then
       dbind cur_u64 (\<lambda>number.
       dbind (dassert (f64_is_finite number) LiteralNotFinite) (\<lambda>_.
       dret \<lparr>plc_kind = LiteralNumber, plc_string = [], plc_number = number,
             plc_boolean = False\<rparr>))
     else if tag = 2 then
       dbind cur_u64 (\<lambda>value.
       if value = 0 then
         dret \<lparr>plc_kind = LiteralBoolean, plc_string = [], plc_number = 0, plc_boolean = False\<rparr>
       else if value = 1 then
         dret \<lparr>plc_kind = LiteralBoolean, plc_string = [], plc_number = 0, plc_boolean = True\<rparr>
       else dfail (BooleanHasValue ''primitive'' value))
     else dfail (UnknownTag ''primitive literal'' tag))"

definition cur_literal_candidates :: "str list \<Rightarrow> primitive_literal_candidate list decoder" where
  "cur_literal_candidates strings =
     dbind cur_u64 (\<lambda>count.
     dbind (dassert (count \<le> 32) (LiteralCandidateCountExceeds count)) (\<lambda>_.
     drepeat (unat count) (cur_literal_candidate strings)))"

definition decode_symbol_claim :: "bool \<Rightarrow> bool \<Rightarrow> bool \<Rightarrow> decode_error + symbol_claim" where
  "decode_symbol_claim symbol_empty flag_set from_v21 =
     (if symbol_empty then Inr (if flag_set then ClaimUnresolved else ClaimAbsent)
      else if \<not> flag_set then Inr ClaimPartial
      else if from_v21 then Inr ClaimCovering
      else Inl ResolvedAndUnresolved)"

text \<open>The flagged fields of one row, read once its span, symbol and flags are known.\<close>

definition decode_entity_fields ::
    "str list \<Rightarrow> u64 \<Rightarrow> location \<Rightarrow> str \<Rightarrow> u64 \<Rightarrow> entity_fact decoder" where
  "decode_entity_fields strings table_schema location symbol flags =
     dbind (dopt (has_flag flags 0) (cur_type_descriptor strings)) (\<lambda>type_descriptor.
     dbind (dopt (has_flag flags 1) (cur_resolved_call strings table_schema)) (\<lambda>resolved_call.
     dbind (dopt (has_flag flags 2) (cur_parse (\<lambda>value. parse_callability value table_schema)))
       (\<lambda>callability.
     dbind (dopt (has_flag flags 3) (cur_parse parse_reference_space)) (\<lambda>reference_space.
     dbind (if has_flag flags 4 then cur_string_index strings ''runtime identity'' else dret [])
       (\<lambda>runtime_identity.
     dbind (dopt (has_flag flags 5) (cur_parse parse_runtime_value_domain)) (\<lambda>runtime_value_domain.
     dbind (dopt (has_flag flags 7) (cur_parse parse_runtime_value_domain)) (\<lambda>call_result_domain.
     dbind (dopt (has_flag flags 8) (cur_constant_value strings)) (\<lambda>constant_value.
     dbind (dopt (has_flag flags 9) (cur_parse parse_array_shape)) (\<lambda>array_shape.
     dbind (dopt (has_flag flags 10) (cur_tuple_shape table_schema)) (\<lambda>tuple_shape.
     dbind (dopt (has_flag flags 11) (cur_names strings ''library type'')) (\<lambda>library_types.
     dbind (if has_flag flags 12 then cur_parse parse_primitive_value_domain else dret 0)
       (\<lambda>primitive_value_domain.
     dbind (dopt (has_flag flags 13) (cur_parse parse_constructability)) (\<lambda>constructability.
     dbind (dopt (has_flag flags 14) (cur_literal_candidates strings))
       (\<lambda>primitive_literal_candidates.
     dbind (dopt (has_flag flags 15) (cur_parse parse_runtime_binding_kind))
       (\<lambda>runtime_binding_kind.
     dbind (dopt (has_flag flags 16) (cur_names strings ''declared key'')) (\<lambda>declared_keys.
     dbind (dlift (decode_symbol_claim (symbol = []) (has_flag flags 6) (21 \<le> table_schema)))
       (\<lambda>symbol_claim.
     dret \<lparr>ef_location = location, ef_symbol = symbol, ef_symbol_claim = symbol_claim,
           ef_type_descriptor = type_descriptor, ef_resolved_call = resolved_call,
           ef_callability = callability, ef_constructability = constructability,
           ef_runtime_binding_kind = runtime_binding_kind,
           ef_runtime_value_domain = runtime_value_domain,
           ef_primitive_value_domain = primitive_value_domain,
           ef_primitive_literal_candidates = primitive_literal_candidates,
           ef_call_result_domain = call_result_domain, ef_constant_value = constant_value,
           ef_array_shape = array_shape, ef_tuple_shape = tuple_shape,
           ef_library_types = library_types, ef_declared_keys = declared_keys,
           ef_writable_optional_property = has_flag flags 17,
           ef_reference_space = reference_space, ef_runtime_identity = runtime_identity\<rparr>)))))))))))))))))"

text \<open>One row of the run; the state is \<^verbatim>\<open>previous_start\<close>.\<close>

definition decode_entity ::
    "str list \<Rightarrow> str \<Rightarrow> u64 \<Rightarrow> u64 \<Rightarrow> (entity_fact \<times> u64) decoder" where
  "decode_entity strings path table_schema previous_start =
     dbind cur_signed (\<lambda>delta.
     dbind (dlift (add_signed previous_start delta ''entity start'')) (\<lambda>start.
     dbind cur_u64 (\<lambda>len.
     dbind (dlift (ok_or EntityEndOverflow (checked_add start len))) (\<lambda>end_byte.
     dbind (cur_string_index strings ''entity symbol'') (\<lambda>symbol.
     dbind cur_u64 (\<lambda>flags.
     dbind (dassert (\<not> unknown_flags flags (entity_known_flags table_schema))
       (UnknownFlags ''entity'' flags)) (\<lambda>_.
     dbind (decode_entity_fields strings table_schema
         \<lparr>loc_path = path, loc_end_byte = end_byte, loc_start_byte = start\<rparr> symbol flags) (\<lambda>entity.
     dret (entity, start)))))))))"

definition decode_entity_run :: "str list \<Rightarrow> str \<Rightarrow> u64 \<Rightarrow> entity_fact list decoder" where
  "decode_entity_run strings path table_schema =
     dbind (cur_count ''entities'') (\<lambda>count.
     drepeat_st count (decode_entity strings path table_schema) 0)"

section \<open>File facts\<close>

definition cur_binding :: "str list \<Rightarrow> source_binding decoder" where
  "cur_binding strings =
     dbind cur_u64 (\<lambda>flags.
     dbind (dassert (\<not> unknown_flags flags 1) (UnknownFlags ''binding'' flags)) (\<lambda>_.
     dbind (cur_locations strings) (\<lambda>names.
     dbind (cur_source_call strings) (\<lambda>initializer.
     dret \<lparr>sb_array = has_flag flags 0, sb_names = names, sb_initializer = initializer\<rparr>))))"

definition cur_function :: "str list \<Rightarrow> source_function decoder" where
  "cur_function strings =
     dbind (cur_location strings location_state_default) (\<lambda>(name, state).
     dbind (cur_location strings state) (\<lambda>(body, state').
     dbind (cur_locations strings) (\<lambda>parameters.
     dbind cur_u64 (\<lambda>flags.
     dbind (dassert (\<not> unknown_flags flags 7) (UnknownFlags ''function'' flags)) (\<lambda>_.
     dret \<lparr>fn_name = name, fn_body = body, fn_parameters = parameters,
           fn_exported = has_flag flags 0, fn_async = has_flag flags 1,
           fn_arrow = has_flag flags 2\<rparr>)))))"

definition cur_async_function :: "str list \<Rightarrow> async_function_fact decoder" where
  "cur_async_function strings =
     dbind (cur_location strings location_state_default) (\<lambda>(expression, state).
     dbind (cur_string_index strings ''async symbol'') (\<lambda>symbol.
     dbind (cur_string_index strings ''async target'') (\<lambda>target.
     dbind cur_u64 (\<lambda>flags.
     dbind (dassert (\<not> unknown_flags flags 1) (UnknownFlags ''async function'' flags)) (\<lambda>_.
     dbind (cur_locations strings) (\<lambda>calls_after_await.
     dret \<lparr>aff_expression = expression, aff_symbol = symbol, aff_target = target,
           aff_can_return_async = has_flag flags 0,
           aff_calls_after_await = calls_after_await\<rparr>))))))"

definition decode_file_fact :: "str list \<Rightarrow> str \<Rightarrow> file_fact decoder" where
  "decode_file_fact strings path =
     dbind (cur_count ''calls'') (\<lambda>call_count.
     dbind (drepeat call_count (cur_source_call strings)) (\<lambda>calls.
     dbind (cur_count ''bindings'') (\<lambda>binding_count.
     dbind (drepeat binding_count (cur_binding strings)) (\<lambda>bindings.
     dbind (cur_count ''functions'') (\<lambda>function_count.
     dbind (drepeat function_count (cur_function strings)) (\<lambda>functions.
     dbind (cur_count ''async functions'') (\<lambda>async_count.
     dbind (drepeat async_count (cur_async_function strings)) (\<lambda>async_functions.
     dret \<lparr>ff_path = path, ff_calls = calls, ff_bindings = bindings, ff_functions = functions,
           ff_async_functions = async_functions\<rparr>))))))))"

section \<open>Transitions\<close>

datatype transition_mode = ModeFull | ModeDelta

datatype 'a slot_op = SlotUnchanged | SlotReplace 'a | SlotRemove

record path_op =
  po_path :: str
  po_source :: "source_hash slot_op"
  po_entities :: "entity_fact list slot_op"
  po_file :: "file_fact slot_op"

datatype symbol_op =
    SymReplace symbol_fact
  | SymRemove str
  | SymReplaceReferencePath str str "location list"

fun symbol_op_id :: "symbol_op \<Rightarrow> str" where
  "symbol_op_id (SymReplace symbol) = sf_id symbol"
| "symbol_op_id (SymRemove ident) = ident"
| "symbol_op_id (SymReplaceReferencePath ident path references) = ident"

record wire_table_transition =
  wt_mode :: transition_mode
  wt_table_schema :: u64
  wt_base_generation :: u64
  wt_target_generation :: u64
  wt_project_id :: str
  wt_base_state_token :: str
  wt_paths :: "path_op list"
  wt_symbols :: "symbol_op list"

definition supported_table_schemas :: "u64 list" where
  "supported_table_schemas =
     [3, 4, 5, 6, 7, 8, 9, 11, 12, 13, 14, 15, 16, 17, 18, 19, 20, 21, 22, 23, 24]"

definition slot_tag :: "u64 \<Rightarrow> str \<Rightarrow> decode_error + u64" where
  "slot_tag value label = (if value \<le> 2 then Inr value else Inl (SlotInvalid label value))"

text \<open>The key by which locations are ordered.\<close>

definition loc_key :: "location \<Rightarrow> str \<times> u64 \<times> u64" where
  "loc_key l = (loc_path l, loc_start_byte l, loc_end_byte l)"

definition locations_are_canonical :: "location list \<Rightarrow> bool" where
  "locations_are_canonical locations = successively (\<lambda>a b. loc_key a \<le> loc_key b) locations"

definition entity_key :: "entity_fact \<Rightarrow> u64 \<times> u64" where
  "entity_key e = (loc_start_byte (ef_location e), loc_end_byte (ef_location e))"

definition entity_run_is_canonical :: "str \<Rightarrow> entity_fact list \<Rightarrow> bool" where
  "entity_run_is_canonical path entities \<longleftrightarrow>
     list_all (\<lambda>e. loc_path (ef_location e) = path) entities
     \<and> successively (\<lambda>a b. entity_key a \<le> entity_key b) entities"

text \<open>Selecting a slot by its tag: unchanged, replaced by what \<open>d\<close> reads, or removed.\<close>

definition decode_slot :: "u64 \<Rightarrow> 'a decoder \<Rightarrow> 'a slot_op decoder" where
  "decode_slot tag d =
     (if tag = 0 then dret SlotUnchanged
      else if tag = 1 then dbind d (\<lambda>v. dret (SlotReplace v))
      else dret SlotRemove)"

definition decode_entity_replacement :: "str list \<Rightarrow> str \<Rightarrow> u64 \<Rightarrow> entity_fact list decoder" where
  "decode_entity_replacement strings path table_schema =
     dbind (decode_entity_run strings path table_schema) (\<lambda>entities.
     dbind (dassert (entities \<noteq> []) (EntityReplacementEmpty path)) (\<lambda>_.
     dbind (dassert (entity_run_is_canonical path entities) (EntityReplacementNotCanonical path)) (\<lambda>_.
     dret entities)))"

text \<open>One path operation; the state is \<^verbatim>\<open>previous_path\<close>.\<close>

definition decode_path_op ::
    "str list \<Rightarrow> transition_mode \<Rightarrow> u64 \<Rightarrow> str option \<Rightarrow> (path_op \<times> str option) decoder" where
  "decode_path_op strings mode table_schema previous_path =
     dbind (cur_string_index strings ''path operation'') (\<lambda>path.
     dbind (dassert (path \<noteq> []) PathEmpty) (\<lambda>_.
     dbind (dassert (case previous_path of None \<Rightarrow> True | Some previous \<Rightarrow> previous < path)
       PathsNotOrdered) (\<lambda>_.
     dbind cur_u64 (\<lambda>flags.
     dbind (dassert (\<not> unknown_flags flags 0x3F) (UnknownFlags ''table transition path'' flags)) (\<lambda>_.
     dbind (dlift (slot_tag (drop_bit 0 flags AND 3) ''source'')) (\<lambda>source_tag.
     dbind (dlift (slot_tag (drop_bit 2 flags AND 3) ''entity'')) (\<lambda>entity_tag.
     dbind (dlift (slot_tag (drop_bit 4 flags AND 3) ''file'')) (\<lambda>file_tag.
     dbind (dassert ([source_tag, entity_tag, file_tag] \<noteq> [0, 0, 0]) EmptyPathOperation) (\<lambda>_.
     dbind (dassert (\<not> (mode = ModeFull \<and> 2 \<in> set [source_tag, entity_tag, file_tag]))
       FullContainsRemove) (\<lambda>_.
     dbind (decode_slot source_tag (dbind (cur_raw 32) (\<lambda>raw. dlift (raw_digest raw)))) (\<lambda>source.
     dbind (decode_slot entity_tag (decode_entity_replacement strings path table_schema)) (\<lambda>entities.
     dbind (decode_slot file_tag (decode_file_fact strings path)) (\<lambda>file.
     dret (\<lparr>po_path = path, po_source = source, po_entities = entities, po_file = file\<rparr>,
           Some path))))))))))))))"

definition decode_symbol_replacement :: "str list \<Rightarrow> str \<Rightarrow> symbol_op decoder" where
  "decode_symbol_replacement strings ident =
     dbind (cur_string_index strings ''alias target'') (\<lambda>alias_target.
     dbind (cur_declarations strings) (\<lambda>decls.
     dbind (cur_locations strings) (\<lambda>references.
     dbind (dassert (locations_are_canonical references) (SymbolReferencesNotCanonical ident)) (\<lambda>_.
     dbind (dassert (alias_target = [] \<or> references = []) (AliasCarriesReferences ident)) (\<lambda>_.
     dret (SymReplace \<lparr>sf_id = ident, sf_references = references, sf_alias_target = alias_target,
                       sf_declarations = decls\<rparr>))))))"

definition decode_reference_replacement :: "str list \<Rightarrow> str \<Rightarrow> (symbol_op \<times> str) decoder" where
  "decode_reference_replacement strings ident =
     dbind (cur_string_index strings ''symbol reference path'') (\<lambda>path.
     dbind (dassert (path \<noteq> []) SymbolReferencePathEmpty) (\<lambda>_.
     dbind (cur_locations strings) (\<lambda>references.
     dbind (dassert (list_all (\<lambda>r. loc_path r = path) references
         \<and> locations_are_canonical references)
       (ReferenceReplacementNotCanonical ident path)) (\<lambda>_.
     dret (SymReplaceReferencePath ident path references, path)))))"

type_synonym symbol_key = "str \<times> u64 \<times> str"

text \<open>The header of a symbol operation: its id and, in a delta, its tag.\<close>

definition decode_symbol_header :: "str list \<Rightarrow> transition_mode \<Rightarrow> (str \<times> u64) decoder" where
  "decode_symbol_header strings mode =
     dbind cur_u64 (\<lambda>header.
     dbind (dlift (case mode of
              ModeFull \<Rightarrow> Inr (header, 0)
            | ModeDelta \<Rightarrow>
                let tag = header AND 3 in
                if tag = 3 then Inl SymbolTagInvalid else Inr (drop_bit 2 header, tag))) (\<lambda>(id_index, tag).
     dbind (dlift (ok_or (StringIndexOutOfRange ''symbol id'' (unat id_index))
       (get_at strings (unat id_index)))) (\<lambda>ident.
     dret (ident, tag))))"

text \<open>One symbol operation; the state is \<^verbatim>\<open>previous_symbol_key\<close>.\<close>

definition decode_symbol_op ::
    "str list \<Rightarrow> transition_mode \<Rightarrow> symbol_key option \<Rightarrow> (symbol_op \<times> symbol_key option) decoder" where
  "decode_symbol_op strings mode previous_key =
     dbind (decode_symbol_header strings mode) (\<lambda>(ident, tag).
     dbind (dassert (ident \<noteq> []) SymbolIdEmpty) (\<lambda>_.
     dbind (dassert (\<not> (mode = ModeFull \<and> tag \<noteq> 0)) FullNonReplaceSymbol) (\<lambda>_.
     dbind (if tag = 0 then
              dbind (decode_symbol_replacement strings ident) (\<lambda>operation. dret (operation, []))
            else if tag = 1 then dret (SymRemove ident, [])
            else decode_reference_replacement strings ident) (\<lambda>(operation, reference_path).
     dbind (dassert (case previous_key of
                None \<Rightarrow> True
              | Some previous \<Rightarrow> previous < (ident, tag, reference_path)) SymbolsNotOrdered) (\<lambda>_.
     dret (operation, Some (ident, tag, reference_path)))))))"

definition check_base_identity ::
    "transition_mode \<Rightarrow> u64 \<Rightarrow> u64 \<Rightarrow> str \<Rightarrow> decode_error + unit" where
  "check_base_identity mode base_generation target_generation base_state_token =
     (if mode = ModeFull \<and> (base_generation \<noteq> 0 \<or> base_state_token \<noteq> [])
      then Inl FullHasBaseIdentity
      else if mode = ModeDelta \<and> (base_generation = 0 \<or> base_state_token = [])
      then Inl DeltaHasNoBaseIdentity
      else if mode = ModeDelta \<and> target_generation < base_generation
      then Inl DeltaTargetPrecedesBase
      else Inr ())"

definition parse_mode :: "u64 \<Rightarrow> decode_error + transition_mode" where
  "parse_mode value =
     (if value = 0 then Inr ModeFull
      else if value = 1 then Inr ModeDelta
      else Inl (UnsupportedMode value))"

definition decode_transition_body :: "wire_table_transition decoder" where
  "decode_transition_body =
     dbind cur_u64 (\<lambda>version.
     dbind (dassert (version = 1) (UnsupportedVersion version)) (\<lambda>_.
     dbind (cur_parse parse_mode) (\<lambda>mode.
     dbind cur_u64 (\<lambda>table_schema.
     dbind (dassert (table_schema \<in> set supported_table_schemas) (UnsupportedSchema table_schema)) (\<lambda>_.
     dbind cur_u64 (\<lambda>base_generation.
     dbind cur_u64 (\<lambda>target_generation.
     dbind (dassert (target_generation \<noteq> 0) TargetGenerationZero) (\<lambda>_.
     dbind decode_packed_strings (\<lambda>strings.
     dbind (dassert (strings \<noteq> [] \<and> hd strings = []) DictionaryWithoutEmptyString) (\<lambda>_.
     dbind (dassert (distinct strings) DictionaryDuplicate) (\<lambda>_.
     dbind (cur_string_index strings ''project id'') (\<lambda>project_id.
     dbind (dassert (project_id \<noteq> []) ProjectIdEmpty) (\<lambda>_.
     dbind (cur_string_index strings ''base state token'') (\<lambda>base_state_token.
     dbind (dlift (check_base_identity mode base_generation target_generation base_state_token)) (\<lambda>_.
     dbind (cur_count ''path operations'') (\<lambda>path_count.
     dbind (drepeat_st path_count (decode_path_op strings mode table_schema) None) (\<lambda>paths.
     dbind (cur_count ''symbol operations'') (\<lambda>symbol_count.
     dbind (drepeat_st symbol_count (decode_symbol_op strings mode) None) (\<lambda>symbols.
     dret \<lparr>wt_mode = mode, wt_table_schema = table_schema, wt_base_generation = base_generation,
           wt_target_generation = target_generation, wt_project_id = project_id,
           wt_base_state_token = base_state_token, wt_paths = paths,
           wt_symbols = symbols\<rparr>)))))))))))))))))))"

definition decode_table_transition :: "u8 list \<Rightarrow> decode_error + wire_table_transition" where
  "decode_table_transition input =
     rbind (decode_transition_body (cursor_new input)) (\<lambda>(transition, c).
     if cur_offset c \<noteq> length input then Inl TrailingBytes else Inr transition)"

end
