(* ===== verification/TF_Writer.thy ===== *)
theory TF_Writer
  imports TF_Decode
begin

unbundle bit_operations_syntax

text \<open>
  The packed row writer of \<^verbatim>\<open>rust/crates/typefacts/src/producer/writer.rs\<close>: the dictionary that
  interns strings in first-occurrence order, \<^verbatim>\<open>RowWriter\<close> with its optional streaming sink,
  and the packed dictionary with its hashed symbols. \<open>writes f d v\<close> relates a writer to the
  reader of the same row: whatever \<open>f\<close> appends without a sink, \<open>d\<close> reads back as \<open>v\<close> under
  every dictionary that extends the one \<open>f\<close> left.
\<close>

section \<open>Errors of the encoder\<close>

text \<open>
  One constructor per message of \<^verbatim>\<open>EncodeError::invalid\<close>; \<open>Within\<close> is the context that
  \<^verbatim>\<open>EncodeError::within\<close> prepends. An \<^verbatim>\<open>io::Error\<close> is its message.
\<close>

datatype (plugins only: code size) encode_error =
    SparseUnavailable
  | EncInvalid encode_reason
  | EncSink str str
and encode_reason =
    Within str nat encode_reason
  | EntityReplacementFor str encode_error
  | EndPrecedesStart u64 u64
  | LocationDeltaOverflows
  | PathOpEmptyPath
  | DigestNotSha256 str
  | DigestNotHex str
  | FileReplacementPath str str
  | EntityPathMismatch nat str str
  | EntityResolvedAndUnresolved nat
  | EntityCoversWithoutSymbol nat
  | EncConstantIsNan
  | EntityStartOverflows nat
  | EncLiteralNotFinite
  | EncTargetSetEmpty
  | EncCandidateWithoutSymbol nat
  | MappingDisagree nat
  | SymbolOpEmptyId
  | FullSymbolTag u64
  | SymbolReplacementId str str
  | ReferenceOpEmptyPath
  | ReferencePathMismatch nat str str
  | FullPathWithoutRows nat str
  | EncUnsupportedSchema u64
  | EncProjectIdEmpty
  | TargetSchema u64
  | TargetGenerationIsZero
  | FullCarriesBaseToken
  | BaseSchema u64
  | DeltaWithoutBaseToken
  | DeltaBaseGenerationZero
  | TargetPrecedesBase u64 u64

fun enc_within :: "str \<Rightarrow> nat \<Rightarrow> encode_error \<Rightarrow> encode_error" where
  "enc_within label index (EncInvalid reason) = EncInvalid (Within label index reason)"
| "enc_within label index SparseUnavailable = SparseUnavailable"
| "enc_within label index (EncSink context e) = EncSink context e"

section \<open>Dictionary\<close>

record dictionary =
  dict_indexes :: "str \<Rightarrow> u64 option"
  dict_values :: "str list"

definition dict_new :: dictionary where
  "dict_new = \<lparr>dict_indexes = [[] \<mapsto> 0], dict_values = [[]]\<rparr>"

definition dict_insert :: "str \<Rightarrow> dictionary \<Rightarrow> u64 \<times> dictionary" where
  "dict_insert value dict =
     (let index = of_nat (length (dict_values dict)) in
      (index, \<lparr>dict_indexes = (dict_indexes dict)(value \<mapsto> index),
               dict_values = dict_values dict @ [value]\<rparr>))"

definition dict_intern :: "str \<Rightarrow> dictionary \<Rightarrow> u64 \<times> dictionary" where
  "dict_intern value dict =
     (case dict_indexes dict value of
        Some index \<Rightarrow> (index, dict)
      | None \<Rightarrow> dict_insert value dict)"

section \<open>Row writer\<close>

type_synonym io_error = str

text \<open>
  \<^verbatim>\<open>&mut dyn TransitionSink\<close>: the state of the sink with the two operations of the trait.
\<close>

record 's dyn_sink =
  ds_state :: 's
  ds_append_rows :: "u8 list \<Rightarrow> 's \<Rightarrow> (io_error + unit) \<times> 's"
  ds_finish :: "u8 list \<Rightarrow> 's \<Rightarrow> (io_error + unit) \<times> 's"

record 's row_writer =
  rw_bytes :: "u8 list"
  rw_dict :: dictionary
  rw_sink :: "'s dyn_sink option"
  rw_flushed :: nat
  rw_error :: "io_error option"

text \<open>
  A fallible operation on the writer. After an error the caller abandons the writer, so its
  state is not returned.
\<close>

type_synonym ('s, 'r) writer = "'s row_writer \<Rightarrow> encode_error + ('r \<times> 's row_writer)"

definition wret :: "'r \<Rightarrow> ('s, 'r) writer" where
  "wret r w = Inr (r, w)"

definition wfail :: "encode_error \<Rightarrow> ('s, 'r) writer" where
  "wfail e w = Inl e"

definition wbind :: "('s, 'a) writer \<Rightarrow> ('a \<Rightarrow> ('s, 'b) writer) \<Rightarrow> ('s, 'b) writer" where
  "wbind f g w = rbind (f w) (\<lambda>(a, w'). g a w')"

definition wassert :: "bool \<Rightarrow> encode_error \<Rightarrow> ('s, unit) writer" where
  "wassert ok e = (if ok then wret () else wfail e)"

definition wlift :: "encode_error + 'a \<Rightarrow> ('s, 'a) writer" where
  "wlift r = (case r of Inl e \<Rightarrow> wfail e | Inr a \<Rightarrow> wret a)"

text \<open>\<^verbatim>\<open>.map_err(f)\<close>.\<close>

definition wmap_err :: "(encode_error \<Rightarrow> encode_error) \<Rightarrow> ('s, 'a) writer \<Rightarrow> ('s, 'a) writer" where
  "wmap_err h f w = (case f w of Inl e \<Rightarrow> Inl (h e) | Inr r \<Rightarrow> Inr r)"

text \<open>\<^verbatim>\<open>if let Some(x) = value { ... }\<close>.\<close>

definition wopt :: "'a option \<Rightarrow> ('a \<Rightarrow> ('s, unit) writer) \<Rightarrow> ('s, unit) writer" where
  "wopt value f = (case value of None \<Rightarrow> wret () | Some x \<Rightarrow> f x)"

definition wwhen :: "bool \<Rightarrow> ('s, unit) writer \<Rightarrow> ('s, unit) writer" where
  "wwhen cond f = (if cond then f else wret ())"

text \<open>\<^verbatim>\<open>for x in xs\<close>, without and with a state carried through the loop.\<close>

fun wfor :: "'a list \<Rightarrow> ('a \<Rightarrow> ('s, unit) writer) \<Rightarrow> ('s, unit) writer" where
  "wfor [] f = wret ()"
| "wfor (x # xs) f = wbind (f x) (\<lambda>_. wfor xs f)"

fun wfor_st :: "'a list \<Rightarrow> ('a \<Rightarrow> 't \<Rightarrow> ('s, 't) writer) \<Rightarrow> 't \<Rightarrow> ('s, unit) writer" where
  "wfor_st [] f t = wret ()"
| "wfor_st (x # xs) f t = wbind (f x t) (\<lambda>t'. wfor_st xs f t')"

definition rw_new :: "'s dyn_sink option \<Rightarrow> 's row_writer" where
  "rw_new sink =
     \<lparr>rw_bytes = [], rw_dict = dict_new, rw_sink = sink, rw_flushed = 0, rw_error = None\<rparr>"

definition streamed_chunk :: nat where
  "streamed_chunk = 64 * 1024"

definition rw_flush :: "'s row_writer \<Rightarrow> 's row_writer" where
  "rw_flush w =
     (case rw_sink w of
        None \<Rightarrow> w
      | Some sink \<Rightarrow>
          let len = length (rw_bytes w);
              (result, state) = ds_append_rows sink (rw_bytes w) (ds_state sink);
              w' = w\<lparr>rw_sink := Some (sink\<lparr>ds_state := state\<rparr>), rw_bytes := []\<rparr>
          in (case result of
                Inr _ \<Rightarrow> w'\<lparr>rw_flushed := rw_flushed w + len\<rparr>
              | Inl e \<Rightarrow> w'\<lparr>rw_error := Some e\<rparr>))"

definition rw_maybe_flush :: "'s row_writer \<Rightarrow> 's row_writer" where
  "rw_maybe_flush w =
     (if Option.is_none (rw_sink w) \<or> rw_error w \<noteq> None \<or> length (rw_bytes w) < streamed_chunk then w
      else rw_flush w)"

definition w_u64 :: "u64 \<Rightarrow> ('s, unit) writer" where
  "w_u64 value w = Inr ((), rw_maybe_flush (w\<lparr>rw_bytes := push_uvarint (rw_bytes w) value\<rparr>))"

definition w_bool :: "bool \<Rightarrow> ('s, unit) writer" where
  "w_bool value = w_u64 (of_bool value)"

definition w_signed :: "u64 \<Rightarrow> ('s, unit) writer" where
  "w_signed value = w_u64 (zigzag value)"

definition w_raw :: "u8 list \<Rightarrow> ('s, unit) writer" where
  "w_raw value w = Inr ((), rw_maybe_flush (w\<lparr>rw_bytes := rw_bytes w @ value\<rparr>))"

definition w_intern :: "str \<Rightarrow> ('s, u64) writer" where
  "w_intern value w =
     (let (index, dict) = dict_intern value (rw_dict w) in Inr (index, w\<lparr>rw_dict := dict\<rparr>))"

definition w_text :: "str \<Rightarrow> ('s, unit) writer" where
  "w_text value = wbind (w_intern value) w_u64"

record writer_location_state =
  wls_path :: u64
  wls_start :: u64
  wls_valid :: bool

definition writer_location_state_default :: writer_location_state where
  "writer_location_state_default = \<lparr>wls_path = 0, wls_start = 0, wls_valid = False\<rparr>"

definition w_location ::
    "location \<Rightarrow> writer_location_state \<Rightarrow> ('s, writer_location_state) writer" where
  "w_location location state =
     wbind (wlift (ok_or (EncInvalid (EndPrecedesStart (loc_end_byte location) (loc_start_byte location)))
       (checked_sub (loc_end_byte location) (loc_start_byte location)))) (\<lambda>len.
     wbind (w_intern (loc_path location)) (\<lambda>path.
     let start = loc_start_byte location in
     wbind
       (if wls_valid state \<and> wls_path state = path
        then
          wbind (wlift (ok_or (EncInvalid LocationDeltaOverflows)
            (i64_try_from (uint start - uint (wls_start state))))) (\<lambda>delta.
          wbind (w_u64 1) (\<lambda>_.
          w_signed delta))
        else wbind (w_u64 (push_bit 1 path)) (\<lambda>_. w_u64 start)) (\<lambda>_.
     wbind (w_u64 len) (\<lambda>_.
     wret \<lparr>wls_path = path, wls_start = start, wls_valid = True\<rparr>))))"

definition w_locations :: "location list \<Rightarrow> ('s, unit) writer" where
  "w_locations locations =
     wbind (w_u64 (of_nat (length locations))) (\<lambda>_.
     wfor_st locations w_location writer_location_state_default)"

text \<open>The rows still buffered, the dictionary, and the sink the caller still borrows.\<close>

definition rw_finish ::
    "'s row_writer \<Rightarrow> encode_error + (u8 list \<times> dictionary \<times> 's dyn_sink option)" where
  "rw_finish w =
     (let w' = (if rw_error w = None \<and> \<not> Option.is_none (rw_sink w) \<and> rw_bytes w \<noteq> [] then rw_flush w else w)
      in (case rw_error w' of
            Some e \<Rightarrow> Inl (EncSink ''stream transition rows'' e)
          | None \<Rightarrow> Inr (rw_bytes w', rw_dict w', rw_sink w')))"

section \<open>Packed dictionary\<close>

definition hex_value :: "u8 \<Rightarrow> u8 option" where
  "hex_value digit =
     (if 0x30 \<le> digit \<and> digit \<le> 0x39 then Some (digit - 0x30)
      else if 0x61 \<le> digit \<and> digit \<le> 0x66 then Some (digit - 0x61 + 10)
      else if 0x41 \<le> digit \<and> digit \<le> 0x46 then Some (digit - 0x41 + 10)
      else None)"

fun hex_pairs :: "u8 list \<Rightarrow> u8 list option" where
  "hex_pairs (a # b # rest) =
     (case hex_value a of
        None \<Rightarrow> None
      | Some high \<Rightarrow>
          (case hex_value b of
             None \<Rightarrow> None
           | Some low \<Rightarrow> map_option ((#) (push_bit 4 high OR low)) (hex_pairs rest)))"
| "hex_pairs _ = Some []"

definition packed_hashed_symbol :: "str \<Rightarrow> u8 list option" where
  "packed_hashed_symbol symbol =
     (case strip_prefix hashed_symbol_prefix symbol of
        None \<Rightarrow> None
      | Some digits \<Rightarrow>
          if length digits \<noteq> hashed_symbol_digest_bytes * 2 then None
          else hex_pairs (str_bytes digits))"

fun common_prefix :: "u8 list \<Rightarrow> u8 list \<Rightarrow> nat" where
  "common_prefix (a # as) (b # bs) = (if a = b then Suc (common_prefix as bs) else 0)"
| "common_prefix _ _ = 0"

text \<open>The loop over the dictionary; \<open>previous\<close> is the preceding non-hashed string.\<close>

fun append_packed_values :: "u8 list \<Rightarrow> u8 list \<Rightarrow> str list \<Rightarrow> u8 list" where
  "append_packed_values frame previous [] = frame"
| "append_packed_values frame previous (value # values) =
     (case packed_hashed_symbol value of
        Some digest \<Rightarrow> append_packed_values (push_uvarint frame 1 @ digest) previous values
      | None \<Rightarrow>
          let bytes = str_bytes value;
              prefix_length = common_prefix previous bytes;
              suffix = drop prefix_length bytes;
              frame' = push_uvarint (push_uvarint (push_uvarint frame 0) (of_nat prefix_length))
                (of_nat (length suffix)) @ suffix
          in append_packed_values frame' bytes values)"

definition append_packed_dictionary :: "u8 list \<Rightarrow> dictionary \<Rightarrow> u8 list" where
  "append_packed_dictionary frame dict =
     append_packed_values (push_uvarint frame (of_nat (length (dict_values dict)))) []
       (dict_values dict)"

section \<open>Writers and readers of the same row\<close>

definition dict_inv :: "dictionary \<Rightarrow> bool" where
  "dict_inv dict \<longleftrightarrow>
     distinct (dict_values dict) \<and> dom (dict_indexes dict) = set (dict_values dict)
     \<and> (\<forall>k < length (dict_values dict). dict_indexes dict (dict_values dict ! k) = Some (of_nat k))"

lemma dict_inv_new: "dict_inv dict_new"
  by (auto simp: dict_inv_def dict_new_def)

lemma dict_intern_spec:
  assumes inv: "dict_inv dict" and intern: "dict_intern value dict = (index, dict')"
  shows "dict_inv dict'" "prefix (dict_values dict) (dict_values dict')"
    "\<exists>k. index = of_nat k \<and> get_at (dict_values dict') k = Some value"
proof -
  let ?vs = "dict_values dict"
  have "dict_inv dict' \<and> prefix ?vs (dict_values dict')
    \<and> (\<exists>k. index = of_nat k \<and> get_at (dict_values dict') k = Some value)"
  proof (cases "dict_indexes dict value")
    case (Some i)
    then have "value \<in> set ?vs" using inv by (auto simp: dict_inv_def)
    then obtain k where k: "k < length ?vs" "?vs ! k = value" by (auto simp: in_set_conv_nth)
    then have "i = of_nat k" using inv Some by (auto simp: dict_inv_def)
    with k intern inv Some show ?thesis
      by (auto simp: dict_intern_def get_at_Some_iff)
  next
    case None
    then have new: "value \<notin> set ?vs" using inv by (auto simp: dict_inv_def)
    have d: "index = of_nat (length ?vs)" "dict_values dict' = ?vs @ [value]"
      "dict_indexes dict' = (dict_indexes dict)(value \<mapsto> of_nat (length ?vs))"
      using intern None by (auto simp: dict_intern_def dict_insert_def Let_def)
    have "?vs ! k \<noteq> value" if "k < length ?vs" for k using new that by auto
    then have "dict_inv dict'"
      using inv new by (auto simp: dict_inv_def d nth_append less_Suc_eq)
    then show ?thesis by (auto simp: d)
  qed
  then show "dict_inv dict'" "prefix ?vs (dict_values dict')"
    "\<exists>k. index = of_nat k \<and> get_at (dict_values dict') k = Some value" by auto
qed

abbreviation rw_values :: "'s row_writer \<Rightarrow> str list" where
  "rw_values w \<equiv> dict_values (rw_dict w)"

text \<open>
  Without a sink, what \<open>f\<close> appends is read back by \<open>d\<close> as \<open>v r\<close>, where \<open>r\<close> is the result of
  \<open>f\<close>, under every dictionary within the reader's limit that extends the one \<open>f\<close> leaves.
\<close>

definition writes ::
    "('s, 'r) writer \<Rightarrow> (str list \<Rightarrow> 'a decoder) \<Rightarrow> ('r \<Rightarrow> 'a) \<Rightarrow> bool" where
  "writes f d v \<longleftrightarrow> (\<forall>w r w'. rw_sink w = None \<and> dict_inv (rw_dict w) \<and> f w = Inr (r, w') \<longrightarrow>
     rw_sink w' = None \<and> rw_error w' = rw_error w \<and> dict_inv (rw_dict w')
     \<and> prefix (rw_values w) (rw_values w')
     \<and> (\<exists>out. rw_bytes w' = rw_bytes w @ out
          \<and> (\<forall>strings. prefix (rw_values w') strings \<and> length strings \<le> packed_collection_limit
               \<longrightarrow> reads (d strings) out (v r))))"

lemma writesI:
  assumes "\<And>w r w'. rw_sink w = None \<Longrightarrow> dict_inv (rw_dict w) \<Longrightarrow> f w = Inr (r, w') \<Longrightarrow>
     rw_sink w' = None \<and> rw_error w' = rw_error w \<and> dict_inv (rw_dict w')
     \<and> prefix (rw_values w) (rw_values w')
     \<and> (\<exists>out. rw_bytes w' = rw_bytes w @ out
          \<and> (\<forall>strings. prefix (rw_values w') strings \<and> length strings \<le> packed_collection_limit
               \<longrightarrow> reads (d strings) out (v r)))"
  shows "writes f d v"
  using assms by (auto simp: writes_def)

lemma writesD:
  assumes "writes f d v" "rw_sink w = None" "dict_inv (rw_dict w)" "f w = Inr (r, w')"
  obtains out where "rw_sink w' = None" "rw_error w' = rw_error w" "dict_inv (rw_dict w')"
    "prefix (rw_values w) (rw_values w')" "rw_bytes w' = rw_bytes w @ out"
    "\<And>strings. prefix (rw_values w') strings \<Longrightarrow> length strings \<le> packed_collection_limit
       \<Longrightarrow> reads (d strings) out (v r)"
  using assms unfolding writes_def by metis

lemma writes_mono:
  assumes f: "writes f d v"
    and step: "\<And>r out strings. reads (d strings) out (v r) \<Longrightarrow> reads (d' strings) out (v' r)"
  shows "writes f d' v'"
proof (rule writesI)
  fix w r w'
  assume w: "rw_sink w = None" "dict_inv (rw_dict w)" and run: "f w = Inr (r, w')"
  show "rw_sink w' = None \<and> rw_error w' = rw_error w \<and> dict_inv (rw_dict w')
     \<and> prefix (rw_values w) (rw_values w')
     \<and> (\<exists>out. rw_bytes w' = rw_bytes w @ out
          \<and> (\<forall>strings. prefix (rw_values w') strings \<and> length strings \<le> packed_collection_limit
               \<longrightarrow> reads (d' strings) out (v' r)))"
    by (rule writesD [OF f w run]) (blast intro: step)
qed

lemma writes_bind:
  assumes f: "writes f d v" and g: "\<And>r. writes (g r) (e (v r)) u"
  shows "writes (wbind f g) (\<lambda>strings. dbind (d strings) (\<lambda>a. e a strings)) u"
proof (rule writesI)
  fix w r w'
  assume w: "rw_sink w = None" "dict_inv (rw_dict w)" and run: "wbind f g w = Inr (r, w')"
  then obtain a w1 where fw: "f w = Inr (a, w1)" and gw: "g a w1 = Inr (r, w')"
    by (auto simp: wbind_def rbind_Inr_iff)
  obtain out1 where 1: "rw_sink w1 = None" "rw_error w1 = rw_error w" "dict_inv (rw_dict w1)"
    "prefix (rw_values w) (rw_values w1)" "rw_bytes w1 = rw_bytes w @ out1"
    "\<And>strings. prefix (rw_values w1) strings \<Longrightarrow> length strings \<le> packed_collection_limit
       \<Longrightarrow> reads (d strings) out1 (v a)"
    using writesD [OF f w fw] by metis
  obtain out2 where 2: "rw_sink w' = None" "rw_error w' = rw_error w1" "dict_inv (rw_dict w')"
    "prefix (rw_values w1) (rw_values w')" "rw_bytes w' = rw_bytes w1 @ out2"
    "\<And>strings. prefix (rw_values w') strings \<Longrightarrow> length strings \<le> packed_collection_limit
       \<Longrightarrow> reads (e (v a) strings) out2 (u r)"
    using writesD [OF g 1(1,3) gw] by metis
  have "reads (dbind (d strings) (\<lambda>a. e a strings)) (out1 @ out2) (u r)"
    if "prefix (rw_values w') strings" "length strings \<le> packed_collection_limit" for strings
    using 1(6) [OF prefix_order.trans [OF 2(4) that(1)] that(2)] 2(6) [OF that]
    by (rule reads_dbind)
  moreover have "rw_bytes w' = rw_bytes w @ (out1 @ out2)" using 1(5) 2(5) by simp
  moreover note 2(1,3) 1(2) [folded 2(2)] prefix_order.trans [OF 1(4) 2(4)]
  ultimately show "rw_sink w' = None \<and> rw_error w' = rw_error w \<and> dict_inv (rw_dict w')
     \<and> prefix (rw_values w) (rw_values w')
     \<and> (\<exists>out. rw_bytes w' = rw_bytes w @ out
          \<and> (\<forall>strings. prefix (rw_values w') strings \<and> length strings \<le> packed_collection_limit
               \<longrightarrow> reads (dbind (d strings) (\<lambda>a. e a strings)) out (u r)))"
    by blast
qed

text \<open>Two writers with the same successful runs.\<close>

lemma writes_same_runs:
  assumes "writes f d v" "\<And>w r w'. f' w = Inr (r, w') \<Longrightarrow> f w = Inr (r, w')"
  shows "writes f' d v"
  using assms unfolding writes_def by blast

lemma writes_ret: "v r = x \<Longrightarrow> writes (wret r) (\<lambda>strings. dret x) v"
  by (rule writesI) (simp add: wret_def reads_dret)

lemma writes_fail: "writes (wfail e) d v"
  by (rule writesI) (simp add: wfail_def)

text \<open>A step of the writer alone, and a check of the reader alone.\<close>

lemma writes_assert:
  assumes "ok \<Longrightarrow> writes (g ()) d v"
  shows "writes (wbind (wassert ok e) g) d v"
proof (cases ok)
  case True
  from assms [OF this] show ?thesis
    by (rule writes_same_runs) (simp add: True wbind_def wassert_def wret_def)
next
  case False
  from writes_fail show ?thesis
    by (rule writes_same_runs) (simp add: False wbind_def wassert_def wfail_def)
qed

lemma writes_lift:
  assumes "\<And>a. x = Inr a \<Longrightarrow> writes (g a) d v"
  shows "writes (wbind (wlift x) g) d v"
proof (cases x)
  case (Inr a)
  from assms [OF this] show ?thesis
    by (rule writes_same_runs) (simp add: Inr wbind_def wlift_def wret_def)
next
  case (Inl e)
  from writes_fail show ?thesis
    by (rule writes_same_runs) (simp add: Inl wbind_def wlift_def wfail_def)
qed

lemma writes_map_err: "writes f d v \<Longrightarrow> writes (wmap_err h f) d v"
  by (erule writes_same_runs) (simp add: wmap_err_def split: sum.splits)

lemma writes_pure:
  assumes "\<And>strings. reads (p strings) [] a" "writes f (e a) v"
  shows "writes f (\<lambda>strings. dbind (p strings) (\<lambda>a. e a strings)) v"
  by (rule writes_mono [OF assms(2)]) (rule reads_dbind_pure [OF assms(1)])

lemma writes_pure_tail:
  assumes "writes f d v" "\<And>r strings. reads (e (v r) strings) [] (u r)"
  shows "writes f (\<lambda>strings. dbind (d strings) (\<lambda>a. e a strings)) u"
  by (rule writes_mono [OF assms(1)]) (erule reads_dbind_ret, rule assms(2))

lemma writes_dassert: "ok \<Longrightarrow> writes f (e ()) v \<Longrightarrow>
    writes f (\<lambda>strings. dbind (dassert ok err) (\<lambda>a. e a strings)) v"
  by (rule writes_pure) (simp_all add: reads_dassert)

lemma writes_dlift: "x = Inr a \<Longrightarrow> writes f (e a) v \<Longrightarrow>
    writes f (\<lambda>strings. dbind (dlift x) (\<lambda>a. e a strings)) v"
  by (rule writes_pure) (simp_all add: reads_dlift)

text \<open>The writer's result is replaced at its end.\<close>

lemma writes_bind_ret:
  assumes f: "writes f d v" and v: "\<And>r. v r = u (h r)"
  shows "writes (wbind f (\<lambda>r. wret (h r))) d u"
proof (rule writesI)
  fix w r w'
  assume w: "rw_sink w = None" "dict_inv (rw_dict w)"
    and "wbind f (\<lambda>r. wret (h r)) w = Inr (r, w')"
  then obtain a where run: "f w = Inr (a, w')" and r: "r = h a"
    by (auto simp: wbind_def wret_def rbind_Inr_iff)
  show "rw_sink w' = None \<and> rw_error w' = rw_error w \<and> dict_inv (rw_dict w')
     \<and> prefix (rw_values w) (rw_values w')
     \<and> (\<exists>out. rw_bytes w' = rw_bytes w @ out
          \<and> (\<forall>strings. prefix (rw_values w') strings \<and> length strings \<le> packed_collection_limit
               \<longrightarrow> reads (d strings) out (u r)))"
    unfolding r v [symmetric] by (rule writesD [OF f w run]) blast
qed

section \<open>The primitive writers\<close>

lemma rw_maybe_flush_no_sink [simp]: "rw_sink w = None \<Longrightarrow> rw_maybe_flush w = w"
  by (simp add: rw_maybe_flush_def)

lemma writes_u64_gen:
  assumes "reads d (uvarint value) x"
  shows "writes (w_u64 value) (\<lambda>strings. d) (\<lambda>_. x)"
  using assms by (intro writesI) (auto simp: w_u64_def push_uvarint_eq)

lemma writes_u64 [writes_intros]: "writes (w_u64 value) (\<lambda>strings. cur_u64) (\<lambda>_. value)"
  by (rule writes_u64_gen [OF reads_cur_u64])

lemma writes_bool [writes_intros]: "writes (w_bool b) (\<lambda>strings. cur_boolean label) (\<lambda>_. b)"
  unfolding w_bool_def by (rule writes_u64_gen [OF reads_cur_boolean])

lemma writes_signed [writes_intros]: "writes (w_signed value) (\<lambda>strings. cur_signed) (\<lambda>_. value)"
  unfolding w_signed_def by (rule writes_u64_gen [OF reads_cur_signed])

lemma writes_count [writes_intros]:
  "n \<le> packed_collection_limit \<Longrightarrow>
   writes (w_u64 (of_nat n)) (\<lambda>strings. cur_count label) (\<lambda>_. n)"
  by (rule writes_u64_gen [OF reads_cur_count])

lemma writes_raw [writes_intros]:
  "n = length bs \<Longrightarrow> writes (w_raw bs) (\<lambda>strings. cur_raw n) (\<lambda>_. bs)"
  by (intro writesI) (auto simp: w_raw_def reads_cur_raw)

text \<open>
  An interned index, transformed and written: the index is that of the string in every
  dictionary the reader may hold, and lies below its limit.
\<close>

lemma writes_intern_u64:
  assumes step: "\<And>k strings. get_at strings k = Some value \<Longrightarrow> k < packed_collection_limit \<Longrightarrow>
    reads (d strings) (uvarint (h (of_nat k))) x"
  shows "writes (wbind (w_intern value) (\<lambda>index. w_u64 (h index))) d (\<lambda>_. x)"
proof (rule writesI)
  fix w :: "'s row_writer" and r w'
  assume w: "rw_sink w = None" "dict_inv (rw_dict w)"
    and run: "wbind (w_intern value) (\<lambda>index. w_u64 (h index)) w = Inr (r, w')"
  obtain index dict where i: "dict_intern value (rw_dict w) = (index, dict)"
    by (cases "dict_intern value (rw_dict w)")
  note spec = dict_intern_spec [OF w(2) i]
  from spec(3) obtain k where k: "index = of_nat k" "get_at (dict_values dict) k = Some value"
    by blast
  have w': "w' = w\<lparr>rw_dict := dict, rw_bytes := rw_bytes w @ uvarint (h (of_nat k))\<rparr>"
    using run w(1) k(1) by (simp add: wbind_def w_intern_def w_u64_def i push_uvarint_eq)
  have "reads (d strings) (uvarint (h (of_nat k))) x"
    if "prefix (dict_values dict) strings" "length strings \<le> packed_collection_limit" for strings
  proof (rule step)
    show "get_at strings k = Some value"
      using k(2) that(1) by (auto simp: get_at_Some_iff prefix_def nth_append)
    show "k < packed_collection_limit"
      using k(2) that prefix_length_le [OF that(1)] by (simp add: get_at_Some_iff)
  qed
  then show "rw_sink w' = None \<and> rw_error w' = rw_error w \<and> dict_inv (rw_dict w')
     \<and> prefix (rw_values w) (rw_values w')
     \<and> (\<exists>out. rw_bytes w' = rw_bytes w @ out
          \<and> (\<forall>strings. prefix (rw_values w') strings \<and> length strings \<le> packed_collection_limit
               \<longrightarrow> reads (d strings) out x))"
    using w(1) spec(1,2) by (simp add: w')
qed

lemma limit_less_word: "k < packed_collection_limit \<Longrightarrow> k < 2 ^ 64"
  by (simp add: packed_collection_limit_def)

lemma writes_text [writes_intros]:
  "writes (w_text s) (\<lambda>strings. cur_string_index strings label) (\<lambda>_. s)"
  unfolding w_text_def
  by (rule writes_intern_u64 [of s _ "\<lambda>i. i", simplified])
    (intro reads_cur_string_index limit_less_word)

section \<open>Loops\<close>

lemma writes_for:
  assumes "\<And>x. x \<in> set xs \<Longrightarrow> writes (f x) d (\<lambda>_. view x)" "n = length xs"
  shows "writes (wfor xs f) (\<lambda>strings. drepeat n (d strings)) (\<lambda>_. map view xs)"
  using assms
proof (induction xs arbitrary: n)
  case Nil
  then show ?case by (simp add: writes_ret)
next
  case (Cons x xs)
  have IH: "writes (wfor xs f) (\<lambda>strings. drepeat (length xs) (d strings)) (\<lambda>_. map view xs)"
    using Cons by simp
  have hd: "writes (f x) d (\<lambda>_. view x)" using Cons.prems(1) by simp
  have "writes (wfor xs f)
      (\<lambda>strings. dbind (drepeat (length xs) (d strings)) (\<lambda>ys. dret (view x # ys)))
      (\<lambda>_. map view (x # xs))"
    by (rule writes_pure_tail [OF IH]) (simp add: reads_dret)
  then show ?case unfolding Cons.prems(2) wfor.simps list.size add_0_right add_Suc_right drepeat.simps
    by (rule writes_bind [OF hd])
qed

text \<open>The reader's loop state is a function of the writer's.\<close>

lemma writes_for_st:
  assumes "\<And>x s. x \<in> set xs \<Longrightarrow> writes (f x s) (\<lambda>strings. d strings (rs s)) (\<lambda>s'. (view x, rs s'))"
    "n = length xs"
  shows "writes (wfor_st xs f s) (\<lambda>strings. drepeat_st n (d strings) (rs s)) (\<lambda>_. map view xs)"
  using assms
proof (induction xs arbitrary: n s)
  case Nil
  then show ?case by (simp add: writes_ret)
next
  case (Cons x xs)
  have IH: "writes (wfor_st xs f s') (\<lambda>strings. drepeat_st (length xs) (d strings) (rs s'))
      (\<lambda>_. map view xs)" for s'
    using Cons by simp
  have hd: "writes (f x s) (\<lambda>strings. d strings (rs s)) (\<lambda>s'. (view x, rs s'))"
    using Cons.prems(1) by simp
  have "writes (wfor_st xs f s')
      (\<lambda>strings. dbind (drepeat_st (length xs) (d strings) (rs s')) (\<lambda>ys. dret (view x # ys)))
      (\<lambda>_. map view (x # xs))" for s'
    by (rule writes_pure_tail [OF IH]) (simp add: reads_dret)
  then show ?case
    unfolding Cons.prems(2) wfor_st.simps list.size add_0_right add_Suc_right drepeat_st.simps
    by (intro writes_bind [OF hd]) simp
qed

section \<open>Locations\<close>

text \<open>The state the reader is in when the writer is in \<open>s\<close>.\<close>

definition reader_state :: "writer_location_state \<Rightarrow> location_state" where
  "reader_state s = \<lparr>ls_path = unat (wls_path s), ls_start = wls_start s, ls_valid = wls_valid s\<rparr>"

lemma reader_state_default [simp]:
  "reader_state writer_location_state_default = location_state_default"
  by (simp add: reader_state_def writer_location_state_default_def location_state_default_def)

lemma unat_limit: "k < packed_collection_limit \<Longrightarrow> unat (of_nat k :: u64) = k"
  by (rule unat_of_nat_small [OF limit_less_word])

lemma path_token:
  assumes "k < packed_collection_limit"
  shows "even (of_nat k * 2 :: u64)" "unat (drop_bit 1 (of_nat k * 2 :: u64)) = k"
proof -
  have "unat (of_nat k * 2 :: u64) = k * 2"
    using assms unat_of_nat_small [of "k * 2"] by (simp add: packed_collection_limit_def)
  then show "unat (drop_bit 1 (of_nat k * 2 :: u64)) = k"
    by (simp add: drop_bit_eq_div unat_div)
qed simp

lemma reads_location_tail:
  assumes "strings ! k = loc_path l" "loc_start_byte l \<le> loc_end_byte l"
  shows "reads (dbind cur_u64 (\<lambda>len.
     dbind (dlift (ok_or LocationEndOverflow (checked_add (loc_start_byte l) len))) (\<lambda>end_byte.
     dret (\<lparr>loc_path = strings ! k, loc_end_byte = end_byte, loc_start_byte = loc_start_byte l\<rparr>,
           \<lparr>ls_path = k, ls_start = loc_start_byte l, ls_valid = True\<rparr>))))
     (uvarint (loc_end_byte l - loc_start_byte l))
     (l, \<lparr>ls_path = k, ls_start = loc_start_byte l, ls_valid = True\<rparr>)"
proof (rule reads_dbind_ret [OF reads_cur_u64], rule reads_dbind_pure [OF reads_dlift])
  show "ok_or LocationEndOverflow (checked_add (loc_start_byte l) (loc_end_byte l - loc_start_byte l))
    = Inr (loc_end_byte l)"
    using assms(2) by simp
qed (cases l, simp add: assms(1))

text \<open>Both ways of coding a location are read back.\<close>

lemma reads_location_new:
  assumes "get_at strings k = Some (loc_path l)" "k < packed_collection_limit"
    "loc_start_byte l \<le> loc_end_byte l"
  shows "reads (cur_location strings state)
    (uvarint (of_nat k * 2) @ uvarint (loc_start_byte l)
      @ uvarint (loc_end_byte l - loc_start_byte l))
    (l, \<lparr>ls_path = k, ls_start = loc_start_byte l, ls_valid = True\<rparr>)"
proof -
  have k: "k < length strings" "strings ! k = loc_path l" using assms(1) by (auto simp: get_at_Some_iff)
  have even: "\<not> of_nat k * 2 AND 1 = (1 :: u64)" using path_token(1) [OF assms(2)] by (simp add: and_one_eq mod_2_eq_odd)
  have head: "reads (dbind (dassert (k < length strings) (LocationPathOutOfRange k)) (\<lambda>_.
      dbind cur_u64 (\<lambda>start. dret (k, start)))) (uvarint (loc_start_byte l)) (k, loc_start_byte l)"
    using k by (intro reads_dbind_pure [OF reads_dassert] reads_dbind_ret [OF reads_cur_u64] reads_dret)
  show ?thesis
    unfolding cur_location_def
    by (rule reads_dbind [OF reads_cur_u64])
      (simp only: even path_token(2) [OF assms(2)] Let_def if_False,
        rule reads_dbind [OF head], use reads_location_tail [OF k(2) assms(3)] in simp)
qed

lemma reads_location_repeat:
  assumes "get_at strings k = Some (loc_path l)" "ls_path state = k" "ls_valid state"
    "i64_try_from (uint (loc_start_byte l) - uint (ls_start state)) = Some delta"
    "loc_start_byte l \<le> loc_end_byte l"
  shows "reads (cur_location strings state)
    (uvarint 1 @ uvarint (zigzag delta) @ uvarint (loc_end_byte l - loc_start_byte l))
    (l, \<lparr>ls_path = k, ls_start = loc_start_byte l, ls_valid = True\<rparr>)"
proof -
  have k: "k < length strings" "strings ! k = loc_path l" using assms(1) by (auto simp: get_at_Some_iff)
  have head: "reads (dbind (dassert ((1 :: u64) = 1 \<and> ls_valid state) InvalidRepeatedPathMarker) (\<lambda>_.
      dbind cur_signed (\<lambda>delta.
      dbind (dlift (add_signed (ls_start state) delta ''location start'')) (\<lambda>start.
      dret (ls_path state, start))))) (uvarint (zigzag delta)) (k, loc_start_byte l)"
    using assms(2,3)
    by (intro reads_dbind_pure [OF reads_dassert] reads_dbind_ret [OF reads_cur_signed]
        reads_dbind_pure [OF reads_dlift [OF add_signed_diff [OF assms(4)]]])
      (simp_all add: reads_dret)
  show ?thesis
    unfolding cur_location_def
    by (rule reads_dbind [OF reads_cur_u64]) (use reads_dbind [OF head, of "\<lambda>(path, start).
       dbind cur_u64 (\<lambda>len.
       dbind (dlift (ok_or LocationEndOverflow (checked_add start len))) (\<lambda>end_byte.
       dret (\<lparr>loc_path = strings ! path, loc_end_byte = end_byte, loc_start_byte = start\<rparr>,
           \<lparr>ls_path = path, ls_start = start, ls_valid = True\<rparr>)))"]
         reads_location_tail [OF k(2) assms(5)] in simp)
qed

lemmas run_simps = w_location_def wbind_def wlift_def wfail_def wret_def w_intern_def w_u64_def
  w_signed_def Let_def

lemma writes_location [writes_intros]:
  "writes (w_location l s) (\<lambda>strings. cur_location strings (reader_state s))
     (\<lambda>s'. (l, reader_state s'))"
proof (rule writesI)
  fix w :: "'s row_writer" and r w'
  assume w: "rw_sink w = None" "dict_inv (rw_dict w)" and run: "w_location l s w = Inr (r, w')"
  obtain index dict where i: "dict_intern (loc_path l) (rw_dict w) = (index, dict)"
    by (cases "dict_intern (loc_path l) (rw_dict w)")
  note spec = dict_intern_spec [OF w(2) i]
  from spec(3) obtain k where k: "index = of_nat k" "get_at (dict_values dict) k = Some (loc_path l)"
    by blast
  have le: "loc_start_byte l \<le> loc_end_byte l"
    using run by (auto simp: w_location_def wbind_def wlift_def wfail_def checked_sub_def split: if_splits)
  let ?len = "uvarint (loc_end_byte l - loc_start_byte l)"
  have at: "get_at strings k = Some (loc_path l) \<and> k < packed_collection_limit"
    if "prefix (dict_values dict) strings" "length strings \<le> packed_collection_limit" for strings
    using k(2) that prefix_length_le [OF that(1)]
    by (auto simp: get_at_Some_iff prefix_def nth_append)
  show "rw_sink w' = None \<and> rw_error w' = rw_error w \<and> dict_inv (rw_dict w')
     \<and> prefix (rw_values w) (rw_values w')
     \<and> (\<exists>out. rw_bytes w' = rw_bytes w @ out
          \<and> (\<forall>strings. prefix (rw_values w') strings \<and> length strings \<le> packed_collection_limit
               \<longrightarrow> reads (cur_location strings (reader_state s)) out (l, reader_state r)))"
  proof (cases "wls_valid s \<and> wls_path s = of_nat k")
    case True
    then obtain delta where delta:
      "i64_try_from (uint (loc_start_byte l) - uint (wls_start s)) = Some delta"
      using run w(1) k(1) le
      by (cases "i64_try_from (uint (loc_start_byte l) - uint (wls_start s))")
        (auto simp: run_simps i checked_sub_def)
    have "w' = w\<lparr>rw_dict := dict,
        rw_bytes := rw_bytes w @ uvarint 1 @ uvarint (zigzag delta) @ ?len\<rparr>
      \<and> r = \<lparr>wls_path = of_nat k, wls_start = loc_start_byte l, wls_valid = True\<rparr>"
      using run w(1) k(1) le True delta by (auto simp: run_simps i checked_sub_def push_uvarint_eq)
    then show ?thesis
      using w(1) spec(1,2) True delta le
      by (auto dest!: at intro!: reads_location_repeat simp: reader_state_def unat_limit)
  next
    case False
    have "w' = w\<lparr>rw_dict := dict, rw_bytes := rw_bytes w @ uvarint (of_nat k * 2)
        @ uvarint (loc_start_byte l) @ ?len\<rparr>
      \<and> r = \<lparr>wls_path = of_nat k, wls_start = loc_start_byte l, wls_valid = True\<rparr>"
      using run w(1) k(1) le False
      by (auto simp: run_simps i checked_sub_def push_uvarint_eq)
    then show ?thesis
      using w(1) spec(1,2) le
      by (auto dest!: at intro!: reads_location_new simp: reader_state_def unat_limit)
  qed
qed

lemma writes_locations [writes_intros]:
  assumes "length ls \<le> packed_collection_limit"
  shows "writes (w_locations ls) cur_locations (\<lambda>_. ls)"
proof -
  have "writes (wfor_st ls w_location writer_location_state_default)
      (\<lambda>strings. drepeat_st (length ls) (cur_location strings)
        (reader_state writer_location_state_default)) (\<lambda>_. map (\<lambda>l. l) ls)"
    by (rule writes_for_st) (simp_all add: writes_location)
  then show ?thesis
    unfolding w_locations_def cur_locations_def
    by (intro writes_bind [OF writes_count [OF assms]]) simp
qed

section \<open>The packed dictionary\<close>

lemma hex_alphabet: "''0123456789abcdef'' = map char_of ([48..<58] @ [97..<103 :: nat])"
  by code_simp

lemma lower_hex_cases: "is_lower_hex c \<Longrightarrow> c \<in> set ''0123456789abcdef''"
proof -
  assume "is_lower_hex c"
  then have "48 \<le> (of_char c :: nat) \<and> of_char c < (58 :: nat)
      \<or> 97 \<le> (of_char c :: nat) \<and> of_char c < (103 :: nat)"
    by (auto simp: is_lower_hex_def less_eq_char_def)
  then have "of_char c \<in> set ([48..<58] @ [97..<103 :: nat])"
    by (simp only: set_append set_upt Un_iff atLeastLessThan_iff)
  then have "char_of (of_char c :: nat) \<in> set (map char_of ([48..<58] @ [97..<103 :: nat]))"
    unfolding set_map by (rule imageI)
  then show ?thesis unfolding hex_alphabet by simp
qed

lemma hex_value_digits:
  "\<forall>c \<in> set ''0123456789abcdef''. \<exists>h < 16. hex_value (byte_of_char c) = Some h \<and> hex_digit (unat h) = c"
  by (simp add: hex_value_def byte_of_char_def hex_digit_def)

lemma hex_value_lower:
  assumes "is_lower_hex c"
  obtains h where "hex_value (byte_of_char c) = Some h" "h < 16" "hex_digit (unat h) = c"
  using hex_value_digits lower_hex_cases [OF assms] by blast

lemma nibbles:
  fixes h l :: u8
  assumes "h < 16" "l < 16"
  shows "drop_bit 4 (push_bit 4 h OR l) = h" "(push_bit 4 h OR l) AND 0x0F = l"
proof -
  have h: "bit h n \<Longrightarrow> n < 4" for n using bit_less_exp [of h 4] assms(1) by simp
  have l: "bit l n \<Longrightarrow> n < 4" for n using bit_less_exp [of l 4] assms(2) by simp
  have m: "(0x0F :: u8) = mask 4" by (simp add: mask_numeral)
  show "drop_bit 4 (push_bit 4 h OR l) = h"
    by (rule bit_word_eqI) (auto simp: bit_drop_bit_eq bit_or_iff bit_push_bit_iff dest: h l)
  show "(push_bit 4 h OR l) AND 0x0F = l"
    unfolding m
    by (rule bit_word_eqI)
      (auto simp: bit_and_iff bit_or_iff bit_push_bit_iff bit_mask_iff possible_bit_def dest: h l)
qed

lemma hex_pairs_lower:
  "even (length digits) \<Longrightarrow> list_all is_lower_hex digits \<Longrightarrow>
   \<exists>raw. hex_pairs (str_bytes digits) = Some raw \<and> hex_bytes raw = digits
     \<and> length raw * 2 = length digits"
proof (induction digits rule: induct_list012)
  case (3 a b rest)
  then obtain raw where raw: "hex_pairs (str_bytes rest) = Some raw" "hex_bytes raw = rest"
    "length raw * 2 = length rest" by auto
  obtain h where h: "hex_value (byte_of_char a) = Some h" "h < 16" "hex_digit (unat h) = a"
    using hex_value_lower [of a] 3 by auto
  obtain l where l: "hex_value (byte_of_char b) = Some l" "l < 16" "hex_digit (unat l) = b"
    using hex_value_lower [of b] 3 by auto
  show ?case
    using raw h l nibbles [OF h(2) l(2)] by (simp add: str_bytes_def hex_bytes_def)
qed (simp_all add: str_bytes_def hex_bytes_def)

lemma packed_hashed_symbol_Some:
  assumes "packed_hashed_symbol s = Some raw" "list_all is_lower_hex (drop 9 s)"
  shows "hashed_symbol_prefix @ hex_bytes raw = s" "length raw = 12"
proof -
  let ?d = "drop 9 s"
  have s: "s = hashed_symbol_prefix @ ?d" and len: "length ?d = 24"
    and raw: "hex_pairs (str_bytes ?d) = Some raw"
    using assms(1)
    by (auto simp: packed_hashed_symbol_def strip_prefix_def hashed_symbol_prefix_def
        hashed_symbol_digest_bytes_def prefix_def split: if_splits)
  obtain raw' where "hex_pairs (str_bytes ?d) = Some raw'" "hex_bytes raw' = ?d"
    "length raw' * 2 = length ?d"
    using hex_pairs_lower [OF _ assms(2)] len by (metis even_numeral)
  then show "hashed_symbol_prefix @ hex_bytes raw = s" "length raw = 12"
    using raw s len by auto
qed

lemma common_prefix_spec:
  "common_prefix a b \<le> length a \<and> common_prefix a b \<le> length b
   \<and> take (common_prefix a b) a = take (common_prefix a b) b"
  by (induction a b rule: common_prefix.induct) auto

text \<open>
  A string the dictionary carries unchanged: valid UTF-8, as every Rust string is, and, where it
  is packed as a hashed symbol, spelled with the lower-case digits the reader produces.
\<close>

definition dict_safe :: "str \<Rightarrow> bool" where
  "dict_safe s \<longleftrightarrow> valid_str s \<and> length s < 2 ^ 64
     \<and> (packed_hashed_symbol s \<noteq> None \<longrightarrow> list_all is_lower_hex (drop 9 s))"

text \<open>The bytes of one entry and the prefix window after it.\<close>

definition packed_entry :: "u8 list \<Rightarrow> str \<Rightarrow> u8 list \<times> u8 list" where
  "packed_entry previous value =
     (case packed_hashed_symbol value of
        Some digest \<Rightarrow> (uvarint 1 @ digest, previous)
      | None \<Rightarrow>
          let bytes = str_bytes value; n = common_prefix previous bytes; suffix = drop n bytes in
          (uvarint 0 @ uvarint (of_nat n) @ uvarint (of_nat (length suffix)) @ suffix, bytes))"

lemma append_packed_values_Cons:
  "append_packed_values frame previous (value # vs) =
     append_packed_values (frame @ fst (packed_entry previous value))
       (snd (packed_entry previous value)) vs"
  by (simp add: packed_entry_def push_uvarint_eq Let_def split: option.split)

lemma reads_packed_entry:
  assumes "dict_safe value"
  shows "reads (decode_packed_string previous) (fst (packed_entry previous value))
    (value, snd (packed_entry previous value))"
proof (cases "packed_hashed_symbol value")
  case (Some digest)
  then have d: "hashed_symbol_prefix @ hex_bytes digest = value" "length digest = 12"
    using packed_hashed_symbol_Some assms by (auto simp: dict_safe_def)
  have "reads (dbind (cur_raw hashed_symbol_digest_bytes) (\<lambda>raw.
       dret (hashed_symbol_prefix @ hex_bytes raw, previous))) digest (value, previous)"
    by (rule reads_dbind_ret [OF reads_cur_raw])
      (simp_all add: d hashed_symbol_digest_bytes_def)
  then have "reads (decode_packed_string previous) (uvarint 1 @ digest) (value, previous)"
    unfolding decode_packed_string_def by (intro reads_dbind [OF reads_cur_u64]) simp
  then show ?thesis by (simp add: packed_entry_def Some)
next
  case None
  let ?b = "str_bytes value"
  let ?n = "common_prefix previous ?b"
  note cp = common_prefix_spec [of previous ?b]
  have small: "length ?b < 2 ^ 64" using assms by (simp add: dict_safe_def)
  then have n: "unat (of_nat ?n :: u64) = ?n"
    and s: "unat (of_nat (length (drop ?n ?b)) :: u64) = length (drop ?n ?b)"
    using cp by (intro unat_of_nat_small; simp)+
  have whole: "take ?n previous @ drop ?n ?b = ?b" using cp by (metis append_take_drop_id)
  have "reads (dbind cur_u64 (\<lambda>prefix_length.
       dbind (dassert (unat prefix_length \<le> length previous) StringPrefixExceedsPrevious) (\<lambda>_.
       dbind cur_u64 (\<lambda>suffix_length.
       dbind (cur_raw (unat suffix_length)) (\<lambda>suffix.
       let previous' = take (unat prefix_length) previous @ suffix in
       dbind (dlift (ok_or StringNotUtf8 (from_utf8 previous'))) (\<lambda>value.
       dret (value, previous')))))))
     (uvarint (of_nat ?n) @ uvarint (of_nat (length (drop ?n ?b))) @ drop ?n ?b) (value, ?b)"
    apply (rule reads_dbind [OF reads_cur_u64])
    apply (rule reads_dbind_pure [OF reads_dassert])
     apply (use cp n in simp)
    apply (rule reads_dbind [OF reads_cur_u64])
    apply (rule reads_dbind_ret [OF reads_cur_raw [OF s]])
    apply (use assms in \<open>simp only: Let_def n whole dict_safe_def from_utf8_str_bytes ok_or_simps\<close>)
    apply (rule reads_dbind_pure [OF reads_dlift [OF refl]])
    apply simp
    done
  then have "reads (decode_packed_string previous)
     (uvarint 0 @ uvarint (of_nat ?n) @ uvarint (of_nat (length (drop ?n ?b))) @ drop ?n ?b) (value, ?b)"
    unfolding decode_packed_string_def by (intro reads_dbind [OF reads_cur_u64]) simp
  then show ?thesis by (simp add: packed_entry_def None Let_def)
qed

lemma reads_packed_values:
  "list_all dict_safe vs \<Longrightarrow>
   \<exists>bs. append_packed_values frame previous vs = frame @ bs
     \<and> reads (drepeat_st (length vs) decode_packed_string previous) bs vs"
proof (induction vs arbitrary: frame previous)
  case Nil
  then show ?case by (simp add: reads_dret)
next
  case (Cons v vs)
  let ?e = "packed_entry previous v"
  obtain bs where bs: "append_packed_values (frame @ fst ?e) (snd ?e) vs = (frame @ fst ?e) @ bs"
    "reads (drepeat_st (length vs) decode_packed_string (snd ?e)) bs vs"
    using Cons.IH [of "frame @ fst ?e" "snd ?e"] Cons.prems by auto
  have "reads (dbind (drepeat_st (length vs) decode_packed_string (snd ?e)) (\<lambda>xs. dret (v # xs))) bs (v # vs)"
    by (rule reads_dbind_ret [OF bs(2)]) simp
  then have "reads (drepeat_st (length (v # vs)) decode_packed_string previous) (fst ?e @ bs) (v # vs)"
    using reads_packed_entry [of v previous] Cons.prems
    by (auto intro!: reads_dbind)
  with bs(1) show ?case unfolding append_packed_values_Cons by auto
qed

lemma append_packed_dictionary_reads:
  assumes "list_all dict_safe (dict_values dict)" "length (dict_values dict) \<le> packed_collection_limit"
  shows "\<exists>bs. append_packed_dictionary frame dict = frame @ bs
    \<and> reads decode_packed_strings bs (dict_values dict)"
proof -
  let ?n = "uvarint (of_nat (length (dict_values dict)))"
  obtain bs where bs: "append_packed_values (frame @ ?n) [] (dict_values dict) = (frame @ ?n) @ bs"
    "reads (drepeat_st (length (dict_values dict)) decode_packed_string []) bs (dict_values dict)"
    using reads_packed_values [OF assms(1)] by blast
  then have "reads decode_packed_strings (?n @ bs) (dict_values dict)"
    unfolding decode_packed_strings_def by (intro reads_dbind [OF reads_cur_count [OF assms(2)]])
  with bs(1) show ?thesis by (auto simp: append_packed_dictionary_def push_uvarint_eq)
qed

section \<open>Loops whose state keeps an invariant\<close>

lemma writes_bind_post:
  assumes f: "writes f d v" and post: "\<And>w r w'. f w = Inr (r, w') \<Longrightarrow> P r"
    and g: "\<And>r. P r \<Longrightarrow> writes (g r) (e (v r)) u"
  shows "writes (wbind f g) (\<lambda>strings. dbind (d strings) (\<lambda>a. e a strings)) u"
proof -
  let ?g = "\<lambda>r. if P r then g r else wfail SparseUnavailable"
  have "writes (wbind f ?g) (\<lambda>strings. dbind (d strings) (\<lambda>a. e a strings)) u"
    by (rule writes_bind [OF f]) (simp add: g writes_fail)
  then show ?thesis
    by (rule writes_same_runs) (auto simp: wbind_def rbind_Inr_iff dest: post)
qed

lemma writes_for_st_inv:
  assumes step: "\<And>x s. x \<in> set xs \<Longrightarrow> P s \<Longrightarrow>
      writes (f x s) (\<lambda>strings. d strings (rs s)) (\<lambda>s'. (view x, rs s'))"
    and post: "\<And>x s w s' w'. f x s w = Inr (s', w') \<Longrightarrow> P s'"
    and init: "P s" and n: "n = length xs"
  shows "writes (wfor_st xs f s) (\<lambda>strings. drepeat_st n (d strings) (rs s)) (\<lambda>_. map view xs)"
  unfolding n using step init
proof (induction xs arbitrary: s)
  case Nil
  then show ?case by (simp add: writes_ret)
next
  case (Cons x xs)
  have IH: "P s' \<Longrightarrow> writes (wfor_st xs f s') (\<lambda>strings. drepeat_st (length xs) (d strings) (rs s'))
      (\<lambda>_. map view xs)" for s'
    using Cons by simp
  have hd: "writes (f x s) (\<lambda>strings. d strings (rs s)) (\<lambda>s'. (view x, rs s'))"
    using Cons.prems by simp
  have "P s' \<Longrightarrow> writes (wfor_st xs f s')
      (\<lambda>strings. dbind (drepeat_st (length xs) (d strings) (rs s')) (\<lambda>ys. dret (view x # ys)))
      (\<lambda>_. map view (x # xs))" for s'
    by (rule writes_pure_tail [OF IH]) (simp_all add: reads_dret)
  then show ?case
    unfolding wfor_st.simps list.size add_0_right add_Suc_right drepeat_st.simps
    by (intro writes_bind_post [OF hd post]) simp_all
qed

text \<open>Optional parts: present exactly when the flag the reader tests says so.\<close>

lemma writes_opt:
  assumes "\<And>x. opt = Some x \<Longrightarrow> writes (f x) d (\<lambda>_. view x)" "present \<longleftrightarrow> opt \<noteq> None"
  shows "writes (wopt opt f) (\<lambda>strings. dopt present (d strings)) (\<lambda>_. map_option view opt)"
proof (cases opt)
  case None
  then show ?thesis using assms(2) by (simp add: wopt_def dopt_def writes_ret)
next
  case (Some x)
  have "writes (f x) (\<lambda>strings. dbind (d strings) (\<lambda>y. dret (Some y))) (\<lambda>_. Some (view x))"
    by (rule writes_pure_tail [OF assms(1) [OF Some]]) simp
  then show ?thesis using assms(2) Some by (simp add: wopt_def dopt_def)
qed

lemma writes_parse:
  "p code = Inr x \<Longrightarrow> writes (w_u64 code) (\<lambda>strings. cur_parse p) (\<lambda>_. x)"
  unfolding cur_parse_def
  by (rule writes_u64_gen, rule reads_dbind_ret [OF reads_cur_u64]) (simp add: dlift_def)


end
