(* ===== verification/TF_Rows.thy ===== *)
theory TF_Rows
  imports TF_Writer
begin

unbundle bit_operations_syntax

text \<open>
  The row writers of \<^verbatim>\<open>rust/crates/typefacts/src/producer/rows.rs\<close>, one per reader of
  \<^verbatim>\<open>v3.rs\<close>, and what each of them leaves for its reader. A row written at an older table schema
  loses what that schema cannot say; \<open>wire_entity\<close> and its companions spell out the row that
  arrives, so that the round trip holds at every schema, and \<open>entity_complete\<close> names the rows that
  the newest schema carries unchanged.
\<close>

section \<open>Codes\<close>

fun validity_code :: "resolved_call_validity \<Rightarrow> u64" where
  "validity_code ValidityValid = 0"
| "validity_code ValidityRecovery = 1"
| "validity_code ValidityUnresolved = 2"

fun call_kind_code :: "call_kind \<Rightarrow> u64" where
  "call_kind_code CallKindUnknown = 0"
| "call_kind_code CallKindCall = 1"
| "call_kind_code CallKindConstruct = 2"

definition callability_code :: "callability \<Rightarrow> u64 \<Rightarrow> u64" where
  "callability_code value schema =
     (case (if value = UntypedCallable \<and> schema < 15 then CallabilityUnknown else value) of
        Callable \<Rightarrow> 0
      | NonCallable \<Rightarrow> 1
      | CallabilityMixed \<Rightarrow> 2
      | CallabilityUnknown \<Rightarrow> 3
      | UntypedCallable \<Rightarrow> 4)"

fun constructability_code :: "constructability \<Rightarrow> u64" where
  "constructability_code Constructable = 0"
| "constructability_code NonConstructable = 1"
| "constructability_code ConstructabilityMixed = 2"
| "constructability_code ConstructabilityUnknown = 3"

fun array_shape_code :: "array_shape \<Rightarrow> u64" where
  "array_shape_code ArrayShapeArray = 0"
| "array_shape_code NotArray = 1"
| "array_shape_code ArrayShapeMixed = 2"
| "array_shape_code ArrayShapeUnknown = 3"

fun reference_space_code :: "reference_space \<Rightarrow> u64" where
  "reference_space_code SpaceValue = 0"
| "reference_space_code SpaceType = 1"
| "reference_space_code SpaceBoth = 2"
| "reference_space_code SpaceNeither = 3"

fun binding_kind_code :: "runtime_binding_kind \<Rightarrow> u64" where
  "binding_kind_code BindingCallable = 0"
| "binding_kind_code BindingNonCallable = 1"
| "binding_kind_code BindingMixed = 2"
| "binding_kind_code BindingOpen = 3"

fun witness_code :: "construction_witness \<Rightarrow> u64" where
  "witness_code WitnessUnknown = 0"
| "witness_code EmptyArray = 1"
| "witness_code EmptyObject = 2"

fun status_code :: "argument_mapping_status \<Rightarrow> u64" where
  "status_code StatusResolved = 0"
| "status_code StatusUnresolved = 1"

fun reason_code :: "argument_mapping_reason option \<Rightarrow> u64" where
  "reason_code None = 0"
| "reason_code (Some CallUnresolved) = 1"
| "reason_code (Some RecoverySignature) = 2"
| "reason_code (Some CompositeSignature) = 3"
| "reason_code (Some SpreadArgument) = 4"
| "reason_code (Some ParameterUnavailable) = 5"

definition runtime_value_domain_bits :: "runtime_value_domain \<Rightarrow> u64" where
  "runtime_value_domain_bits d =
     flag (rvd_may_be_callable d) 0 OR flag (rvd_may_be_undefined d) 1
     OR flag (rvd_may_be_other d) 2 OR flag (rvd_unknown d) 3"

definition primitive_value_domain_bits :: "primitive_value_domain \<Rightarrow> u64" where
  "primitive_value_domain_bits d =
     flag (pvd_has 1 d) 0 OR flag (pvd_has 2 d) 1 OR flag (pvd_has 4 d) 2 OR flag (pvd_has 8 d) 3
     OR flag (pvd_has 16 d) 4 OR flag (pvd_has 32 d) 5 OR flag (pvd_has 64 d) 6
     OR flag (pvd_has 128 d) 7 OR flag (pvd_unknown d) 8 OR flag (pvd_numbers_are_finite d) 9"

section \<open>Declarations and calls\<close>

definition w_declaration ::
    "declaration_row \<Rightarrow> writer_location_state \<Rightarrow> ('s, writer_location_state) writer" where
  "w_declaration d state =
     wbind (w_text (decl_name d)) (\<lambda>_.
     wbind (w_text (decl_kind d)) (\<lambda>_.
     w_location (decl_location d) state))"

definition write_declarations :: "declaration_row list \<Rightarrow> ('s, unit) writer" where
  "write_declarations decls =
     wbind (w_u64 (of_nat (length decls))) (\<lambda>_.
     wfor_st decls w_declaration writer_location_state_default)"

definition write_type_descriptor :: "type_descriptor \<Rightarrow> ('s, unit) writer" where
  "write_type_descriptor descriptor =
     wbind (w_text (td_text descriptor)) (\<lambda>_.
     wbind (w_text (td_origin_module descriptor)) (\<lambda>_.
     write_declarations (td_alias_declarations descriptor)))"

definition w_owner ::
    "declaration_owner \<Rightarrow> writer_location_state \<Rightarrow> ('s, writer_location_state) writer" where
  "w_owner owner state =
     wbind (w_text (own_symbol owner)) (\<lambda>_.
     wbind (w_text (own_name owner)) (\<lambda>_.
     wbind (w_text (own_kind owner)) (\<lambda>_.
     w_location (own_location owner) state)))"

definition write_resolved_declaration :: "resolved_declaration \<Rightarrow> ('s, unit) writer" where
  "write_resolved_declaration d =
     wbind (w_text (rd_symbol d)) (\<lambda>_.
     wbind (w_text (rd_name d)) (\<lambda>_.
     wbind (w_text (rd_kind d)) (\<lambda>_.
     wbind (w_location (rd_location d) writer_location_state_default) (\<lambda>state.
     wbind (w_u64 (of_nat (length (rd_owners d)))) (\<lambda>_.
     wbind (wfor_st (rd_owners d) w_owner state) (\<lambda>_.
     wbind (w_text (rd_qualified_name d)) (\<lambda>_.
     wbind (w_text (rd_origin_module d)) (\<lambda>_.
     wbind (w_text (rd_source_file d)) (\<lambda>_.
     w_bool (rd_standard_library d))))))))))"

definition w_property :: "object_construction_property \<Rightarrow> ('s, unit) writer" where
  "w_property property =
     wbind (w_text (ocp_name property)) (\<lambda>_. w_u64 (witness_code (ocp_witness property)))"

definition w_object_shape :: "object_construction_shape \<Rightarrow> ('s, unit) writer" where
  "w_object_shape shape =
     wbind (w_u64 (of_nat (length (ocs_required_properties shape)))) (\<lambda>_.
     wfor (ocs_required_properties shape) w_property)"

definition w_parameter_declaration :: "declaration_row \<Rightarrow> ('s, unit) writer" where
  "w_parameter_declaration d =
     wbind (w_text (decl_name d)) (\<lambda>_.
     wbind (w_text (decl_kind d)) (\<lambda>_.
     wbind (w_location (decl_location d) writer_location_state_default) (\<lambda>_. wret ())))"

definition write_parameter :: "parameter_fact \<Rightarrow> u64 \<Rightarrow> ('s, unit) writer" where
  "write_parameter parameter schema =
     (let object_shape = (if 17 \<le> schema then pf_object_shape parameter else None);
          flags = flag (pf_declaration parameter \<noteq> None) 0 OR flag (pf_rest parameter) 1
            OR flag (pf_optional parameter) 2 OR flag (pf_type_descriptor parameter \<noteq> None) 3
            OR flag (object_shape \<noteq> None) 4
      in
      wbind (w_u64 (pf_index parameter)) (\<lambda>_.
      wbind (w_text (pf_symbol parameter)) (\<lambda>_.
      wbind (w_u64 flags) (\<lambda>_.
      wbind (wopt (pf_declaration parameter) w_parameter_declaration) (\<lambda>_.
      wbind (w_u64 (callability_code (pf_callability parameter) schema)) (\<lambda>_.
      wbind (wopt (pf_type_descriptor parameter) write_type_descriptor) (\<lambda>_.
      wopt object_shape w_object_shape)))))))"

definition write_argument_mapping :: "nat \<Rightarrow> argument_mapping \<Rightarrow> u64 \<Rightarrow> ('s, unit) writer" where
  "write_argument_mapping index mapping schema =
     (let status = status_code (am_status mapping); reason = reason_code (am_unresolved mapping) in
      wbind (wassert ((status = 0) = (reason = 0)) (EncInvalid (MappingDisagree index))) (\<lambda>_.
      wbind (w_u64 (am_argument_index mapping)) (\<lambda>_.
      wbind (w_u64 status) (\<lambda>_.
      wbind (w_u64 reason) (\<lambda>_.
      wbind (w_bool (am_parameter mapping \<noteq> None)) (\<lambda>_.
      wopt (am_parameter mapping) (\<lambda>parameter. write_parameter parameter schema)))))))"

definition w_candidate :: "nat \<times> resolved_declaration \<Rightarrow> ('s, unit) writer" where
  "w_candidate = (\<lambda>(index, candidate).
     wbind (wassert (rd_symbol candidate \<noteq> []) (EncInvalid (EncCandidateWithoutSymbol index))) (\<lambda>_.
     write_resolved_declaration candidate))"

definition w_target_set :: "call_target_set \<Rightarrow> ('s, unit) writer" where
  "w_target_set targets =
     wbind (wassert (cts_candidates targets \<noteq> []) (EncInvalid EncTargetSetEmpty)) (\<lambda>_.
     wbind (w_bool (cts_exhaustive targets)) (\<lambda>_.
     wbind (w_u64 (of_nat (length (cts_candidates targets)))) (\<lambda>_.
     wfor (enumerate 0 (cts_candidates targets)) w_candidate)))"

definition write_resolved_call :: "resolved_call \<Rightarrow> u64 \<Rightarrow> ('s, unit) writer" where
  "write_resolved_call call schema =
     wbind (w_text (rc_target call)) (\<lambda>_.
     wbind (w_text (rc_return_type_text call)) (\<lambda>_.
     wbind (w_u64 (validity_code (rc_validity call))) (\<lambda>_.
     wbind (w_u64 (call_kind_code (rc_kind call))) (\<lambda>_.
     wbind (w_bool (rc_declaration call \<noteq> None)) (\<lambda>_.
     wbind (wopt (rc_declaration call) write_resolved_declaration) (\<lambda>_.
     wbind (wwhen (6 \<le> schema) (w_bool (rc_targets call \<noteq> None))) (\<lambda>_.
     wbind (wwhen (6 \<le> schema) (wopt (rc_targets call) w_target_set)) (\<lambda>_.
     wbind (w_u64 (of_nat (length (rc_arguments call)))) (\<lambda>_.
     wbind (wfor (enumerate 0 (rc_arguments call))
       (\<lambda>(index, mapping). write_argument_mapping index mapping schema)) (\<lambda>_.
     wbind (wwhen (19 \<le> schema)
       (w_u64 (flag (rc_assertion_signature call) 0 OR flag (rc_never_returns call) 1))) (\<lambda>_.
     wbind (wwhen (20 \<le> schema) (w_bool (rc_default_library_binding call \<noteq> None))) (\<lambda>_.
     wwhen (20 \<le> schema)
       (wopt (rc_default_library_binding call) write_resolved_declaration)))))))))))))"

section \<open>Entity runs\<close>

definition validate_location :: "location \<Rightarrow> encode_error + unit" where
  "validate_location location =
     (if loc_end_byte location < loc_start_byte location
      then Inl (EncInvalid (EndPrecedesStart (loc_end_byte location) (loc_start_byte location)))
      else Inr ())"

text \<open>\<^verbatim>\<open>.filter(|names| !names.is_empty())\<close>.\<close>

definition non_empty :: "'a list option \<Rightarrow> 'a list option" where
  "non_empty m = (case m of Some (x # xs) \<Rightarrow> Some (x # xs) | _ \<Rightarrow> None)"

definition entity_flags :: "u64 \<Rightarrow> entity_fact \<Rightarrow> u64" where
  "entity_flags schema entity =
     flag (ef_type_descriptor entity \<noteq> None) 0
     OR flag (ef_resolved_call entity \<noteq> None) 1
     OR flag (ef_callability entity \<noteq> None) 2
     OR flag (ef_reference_space entity \<noteq> None) 3
     OR flag (ef_runtime_identity entity \<noteq> []) 4
     OR flag (ef_runtime_value_domain entity \<noteq> None) 5
     OR flag (7 \<le> schema \<and> ef_call_result_domain entity \<noteq> None) 7
     OR flag (8 \<le> schema \<and> ef_constant_value entity \<noteq> None) 8
     OR flag (9 \<le> schema \<and> ef_array_shape entity \<noteq> None) 9
     OR flag (11 \<le> schema \<and> ef_tuple_shape entity \<noteq> None) 10
     OR flag (12 \<le> schema \<and> non_empty (ef_library_types entity) \<noteq> None) 11
     OR flag (13 \<le> schema \<and> pvd_is_present (ef_primitive_value_domain entity)) 12
     OR flag (14 \<le> schema \<and> ef_constructability entity \<noteq> None) 13
     OR flag (16 \<le> schema \<and> non_empty (ef_primitive_literal_candidates entity) \<noteq> None) 14
     OR flag (18 \<le> schema \<and> ef_runtime_binding_kind entity \<noteq> None) 15
     OR flag (23 \<le> schema \<and> ef_declared_keys entity \<noteq> None) 16
     OR flag (24 \<le> schema \<and> ef_writable_optional_property entity) 17
     OR flag (5 \<le> schema \<and> ef_symbol_claim entity = ClaimUnresolved) 6
     OR flag (21 \<le> schema \<and> ef_symbol_claim entity = ClaimCovering) 6"

definition w_constant_value :: "constant_value \<Rightarrow> ('s, unit) writer" where
  "w_constant_value constant =
     (case cv_kind constant of
        ConstString \<Rightarrow> wbind (w_u64 0) (\<lambda>_. w_text (cv_string constant))
      | ConstNumber \<Rightarrow> wbind (w_u64 1) (\<lambda>_. w_u64 (cv_number constant)))"

definition w_tuple_shape :: "u64 \<Rightarrow> tuple_shape \<Rightarrow> ('s, unit) writer" where
  "w_tuple_shape schema shape =
     wbind (w_u64 (push_bit 1 (ucast (ts_fixed_length shape)) OR of_bool (ts_has_rest shape))) (\<lambda>_.
     wbind (w_u64 (callability_code
       (case ts_element_zero shape of None \<Rightarrow> CallabilityUnknown | Some c \<Rightarrow> c) schema)) (\<lambda>_.
     wbind (w_u64 (ucast (ts_element_zero_min_parameters shape))) (\<lambda>_.
     wwhen (13 \<le> schema)
       (w_u64 (case ts_exact_length shape of None \<Rightarrow> 0 | Some len \<Rightarrow> ucast len + 1)))))"

definition w_names :: "str list \<Rightarrow> ('s, unit) writer" where
  "w_names names = wbind (w_u64 (of_nat (length names))) (\<lambda>_. wfor names w_text)"

definition w_literal_candidate ::
    "nat \<Rightarrow> primitive_literal_candidate \<Rightarrow> ('s, unit) writer" where
  "w_literal_candidate index candidate =
     (case plc_kind candidate of
        LiteralString \<Rightarrow> wbind (w_u64 0) (\<lambda>_. w_text (plc_string candidate))
      | LiteralNumber \<Rightarrow>
          wbind (wassert (f64_is_finite (plc_number candidate))
            (enc_within ''entity'' index (EncInvalid EncLiteralNotFinite))) (\<lambda>_.
          wbind (w_u64 1) (\<lambda>_. w_u64 (plc_number candidate)))
      | LiteralBoolean \<Rightarrow> wbind (w_u64 2) (\<lambda>_. w_bool (plc_boolean candidate)))"

definition w_literal_candidates ::
    "nat \<Rightarrow> primitive_literal_candidate list \<Rightarrow> ('s, unit) writer" where
  "w_literal_candidates index candidates =
     wbind (w_u64 (of_nat (length candidates))) (\<lambda>_.
     wfor candidates (w_literal_candidate index))"

text \<open>The checks at the head of the loop body.\<close>

definition check_entity :: "str \<Rightarrow> nat \<Rightarrow> entity_fact \<Rightarrow> encode_error + unit" where
  "check_entity path index entity =
     (if loc_path (ef_location entity) \<noteq> path
      then Inl (EncInvalid (EntityPathMismatch index (loc_path (ef_location entity)) path))
      else
        rbind (case validate_location (ef_location entity) of
                 Inl e \<Rightarrow> Inl (enc_within ''entity location'' index e) | Inr u \<Rightarrow> Inr u) (\<lambda>_.
        if ef_symbol_claim entity = ClaimUnresolved \<and> ef_symbol entity \<noteq> []
        then Inl (EncInvalid (EntityResolvedAndUnresolved index))
        else if ef_symbol_claim entity = ClaimCovering \<and> ef_symbol entity = []
        then Inl (EncInvalid (EntityCoversWithoutSymbol index))
        else
          (case ef_constant_value entity of
             Some constant \<Rightarrow>
               if cv_kind constant = ConstNumber \<and> f64_is_nan (cv_number constant)
               then Inl (enc_within ''entity'' index (EncInvalid EncConstantIsNan))
               else Inr ()
           | None \<Rightarrow> Inr ())))"

text \<open>\<^verbatim>\<open>i64::try_from\<close> of a \<^verbatim>\<open>u64\<close>.\<close>

definition i64_of_u64 :: "u64 \<Rightarrow> u64 option" where
  "i64_of_u64 value = (if value < 0x8000000000000000 then Some value else None)"

text \<open>The flagged fields of one row, in the order of their flags in the source.\<close>

definition w_entity_fields :: "u64 \<Rightarrow> nat \<Rightarrow> entity_fact \<Rightarrow> ('s, unit) writer" where
  "w_entity_fields schema index entity =
     wbind (wopt (ef_type_descriptor entity) write_type_descriptor) (\<lambda>_.
     wbind (wopt (ef_resolved_call entity) (\<lambda>call.
       wmap_err (enc_within ''entity resolved call'' index) (write_resolved_call call schema))) (\<lambda>_.
     wbind (wopt (ef_callability entity) (\<lambda>c. w_u64 (callability_code c schema))) (\<lambda>_.
     wbind (wopt (ef_reference_space entity) (\<lambda>r. w_u64 (reference_space_code r))) (\<lambda>_.
     wbind (wwhen (ef_runtime_identity entity \<noteq> []) (w_text (ef_runtime_identity entity))) (\<lambda>_.
     wbind (wopt (ef_runtime_value_domain entity) (\<lambda>d. w_u64 (runtime_value_domain_bits d))) (\<lambda>_.
     wbind (wwhen (7 \<le> schema)
       (wopt (ef_call_result_domain entity) (\<lambda>d. w_u64 (runtime_value_domain_bits d)))) (\<lambda>_.
     wbind (wwhen (8 \<le> schema) (wopt (ef_constant_value entity) w_constant_value)) (\<lambda>_.
     wbind (wwhen (9 \<le> schema)
       (wopt (ef_array_shape entity) (\<lambda>a. w_u64 (array_shape_code a)))) (\<lambda>_.
     wbind (wwhen (11 \<le> schema) (wopt (ef_tuple_shape entity) (w_tuple_shape schema))) (\<lambda>_.
     wbind (wwhen (12 \<le> schema) (wopt (non_empty (ef_library_types entity)) w_names)) (\<lambda>_.
     wbind (wwhen (13 \<le> schema \<and> pvd_is_present (ef_primitive_value_domain entity))
       (w_u64 (primitive_value_domain_bits (ef_primitive_value_domain entity)))) (\<lambda>_.
     wbind (wwhen (14 \<le> schema)
       (wopt (ef_constructability entity) (\<lambda>c. w_u64 (constructability_code c)))) (\<lambda>_.
     wbind (wwhen (16 \<le> schema)
       (wopt (non_empty (ef_primitive_literal_candidates entity)) (w_literal_candidates index))) (\<lambda>_.
     wbind (wwhen (18 \<le> schema)
       (wopt (ef_runtime_binding_kind entity) (\<lambda>k. w_u64 (binding_kind_code k)))) (\<lambda>_.
     wwhen (23 \<le> schema) (wopt (ef_declared_keys entity) w_names))))))))))))))))"

text \<open>One round of the loop; the state is \<^verbatim>\<open>previous_start\<close>.\<close>

definition w_entity ::
    "u64 \<Rightarrow> str \<Rightarrow> nat \<times> entity_fact \<Rightarrow> u64 \<Rightarrow> ('s, u64) writer" where
  "w_entity schema path = (\<lambda>(index, entity) previous_start.
     wbind (wlift (check_entity path index entity)) (\<lambda>_.
     wbind (wlift (ok_or (EncInvalid (EntityStartOverflows index))
       (i64_of_u64 (loc_start_byte (ef_location entity))))) (\<lambda>start.
     wbind (w_signed (start - previous_start)) (\<lambda>_.
     wbind (w_u64 (loc_end_byte (ef_location entity) - loc_start_byte (ef_location entity))) (\<lambda>_.
     wbind (w_text (ef_symbol entity)) (\<lambda>_.
     wbind (w_u64 (entity_flags schema entity)) (\<lambda>_.
     wbind (w_entity_fields schema index entity) (\<lambda>_.
     wret start))))))))"

definition write_entity_run :: "str \<Rightarrow> entity_fact list \<Rightarrow> u64 \<Rightarrow> ('s, unit) writer" where
  "write_entity_run path entities schema =
     wbind (w_u64 (of_nat (length entities))) (\<lambda>_.
     wfor_st (enumerate 0 entities) (w_entity schema path) 0)"

section \<open>File facts\<close>

definition write_source_call :: "source_call \<Rightarrow> ('s, unit) writer" where
  "write_source_call call =
     wbind (w_location (sc_location call) writer_location_state_default) (\<lambda>state.
     wbind (w_location (sc_callee call) state) (\<lambda>_.
     wbind (w_locations (sc_arguments call)) (\<lambda>_.
     w_text (sc_target call))))"

definition w_binding :: "source_binding \<Rightarrow> ('s, unit) writer" where
  "w_binding binding =
     wbind (w_u64 (flag (sb_array binding) 0)) (\<lambda>_.
     wbind (w_locations (sb_names binding)) (\<lambda>_.
     write_source_call (sb_initializer binding)))"

definition w_function :: "source_function \<Rightarrow> ('s, unit) writer" where
  "w_function function =
     wbind (w_location (fn_name function) writer_location_state_default) (\<lambda>state.
     wbind (w_location (fn_body function) state) (\<lambda>_.
     wbind (w_locations (fn_parameters function)) (\<lambda>_.
     w_u64 (flag (fn_exported function) 0 OR flag (fn_async function) 1
       OR flag (fn_arrow function) 2))))"

definition w_async_function :: "async_function_fact \<Rightarrow> ('s, unit) writer" where
  "w_async_function function =
     wbind (w_location (aff_expression function) writer_location_state_default) (\<lambda>_.
     wbind (w_text (aff_symbol function)) (\<lambda>_.
     wbind (w_text (aff_target function)) (\<lambda>_.
     wbind (w_u64 (flag (aff_can_return_async function) 0)) (\<lambda>_.
     w_locations (aff_calls_after_await function)))))"

definition write_file_body :: "file_fact \<Rightarrow> ('s, unit) writer" where
  "write_file_body file =
     wbind (w_u64 (of_nat (length (ff_calls file)))) (\<lambda>_.
     wbind (wfor (ff_calls file) write_source_call) (\<lambda>_.
     wbind (w_u64 (of_nat (length (ff_bindings file)))) (\<lambda>_.
     wbind (wfor (ff_bindings file) w_binding) (\<lambda>_.
     wbind (w_u64 (of_nat (length (ff_functions file)))) (\<lambda>_.
     wbind (wfor (ff_functions file) w_function) (\<lambda>_.
     wbind (w_u64 (of_nat (length (ff_async_functions file)))) (\<lambda>_.
     wfor (ff_async_functions file) w_async_function)))))))"

section \<open>Operations\<close>

text \<open>
  \<^verbatim>\<open>PathOpRef\<close> borrows what \<^verbatim>\<open>PathOp\<close> owns, so it is the same record; \<^verbatim>\<open>SymbolOpRef\<close> carries
  its id beside the body.
\<close>

datatype symbol_body =
    BodyReplace symbol_fact
  | BodyRemove
  | BodyReplaceReferencePath str "location list"

record symbol_op_ref =
  sor_id :: str
  sor_body :: symbol_body

fun slot_tag_of :: "'a slot_op \<Rightarrow> u64" where
  "slot_tag_of SlotUnchanged = 0"
| "slot_tag_of (SlotReplace v) = 1"
| "slot_tag_of SlotRemove = 2"

fun symbol_body_tag :: "symbol_body \<Rightarrow> u64" where
  "symbol_body_tag (BodyReplace row) = 0"
| "symbol_body_tag BodyRemove = 1"
| "symbol_body_tag (BodyReplaceReferencePath path references) = 2"

text \<open>\<^verbatim>\<open>char::to_digit(16)\<close>.\<close>

definition to_digit16 :: "char \<Rightarrow> nat option" where
  "to_digit16 c = map_option unat (hex_value (byte_of_char c))"

fun digest_pairs :: "str \<Rightarrow> u8 list option" where
  "digest_pairs (a # b # rest) =
     (case (to_digit16 a, to_digit16 b) of
        (Some high, Some low) \<Rightarrow> map_option ((#) (of_nat (high * 16 + low))) (digest_pairs rest)
      | _ \<Rightarrow> None)"
| "digest_pairs _ = Some []"

definition digest_bytes :: "source_hash \<Rightarrow> encode_error + u8 list" where
  "digest_bytes hash =
     (case strip_prefix sha256_prefix hash of
        None \<Rightarrow> Inl (EncInvalid (DigestNotSha256 hash))
      | Some digits \<Rightarrow>
          if length digits \<noteq> 64 then Inl (EncInvalid (DigestNotSha256 hash))
          else ok_or (EncInvalid (DigestNotHex hash)) (digest_pairs digits))"

definition w_slot :: "'a slot_op \<Rightarrow> ('a \<Rightarrow> ('s, unit) writer) \<Rightarrow> ('s, unit) writer" where
  "w_slot slot f = (case slot of SlotReplace v \<Rightarrow> f v | _ \<Rightarrow> wret ())"

definition w_file_replacement :: "str \<Rightarrow> file_fact \<Rightarrow> ('s, unit) writer" where
  "w_file_replacement path file =
     wbind (wassert (ff_path file = path) (EncInvalid (FileReplacementPath (ff_path file) path))) (\<lambda>_.
     write_file_body file)"

definition write_path_op :: "path_op \<Rightarrow> u64 \<Rightarrow> ('s, unit) writer" where
  "write_path_op operation schema =
     wbind (wassert (po_path operation \<noteq> []) (EncInvalid PathOpEmptyPath)) (\<lambda>_.
     wbind (w_text (po_path operation)) (\<lambda>_.
     wbind (w_u64 (push_bit 0 (slot_tag_of (po_source operation))
       OR push_bit 2 (slot_tag_of (po_entities operation))
       OR push_bit 4 (slot_tag_of (po_file operation)))) (\<lambda>_.
     wbind (w_slot (po_source operation) (\<lambda>source. wbind (wlift (digest_bytes source)) w_raw)) (\<lambda>_.
     wbind (w_slot (po_entities operation) (\<lambda>entities.
       wmap_err (\<lambda>e. EncInvalid (EntityReplacementFor (po_path operation) e))
         (write_entity_run (po_path operation) entities schema))) (\<lambda>_.
     w_slot (po_file operation) (w_file_replacement (po_path operation)))))))"

definition check_reference :: "str \<Rightarrow> nat \<times> location \<Rightarrow> encode_error + unit" where
  "check_reference path = (\<lambda>(index, reference).
     if loc_path reference \<noteq> path
     then Inl (EncInvalid (ReferencePathMismatch index (loc_path reference) path))
     else (case validate_location reference of
             Inl e \<Rightarrow> Inl (enc_within ''reference location'' index e) | Inr u \<Rightarrow> Inr u))"

definition w_symbol_body :: "str \<Rightarrow> symbol_body \<Rightarrow> ('s, unit) writer" where
  "w_symbol_body ident body =
     (case body of
        BodyReplace row \<Rightarrow>
          wbind (wassert (sf_id row = ident) (EncInvalid (SymbolReplacementId (sf_id row) ident))) (\<lambda>_.
          wbind (w_text (sf_alias_target row)) (\<lambda>_.
          wbind (write_declarations (sf_declarations row)) (\<lambda>_.
          if sf_alias_target row = [] then w_locations (sf_references row) else w_u64 0)))
      | BodyRemove \<Rightarrow> wret ()
      | BodyReplaceReferencePath path references \<Rightarrow>
          wbind (wassert (path \<noteq> []) (EncInvalid ReferenceOpEmptyPath)) (\<lambda>_.
          wbind (w_text path) (\<lambda>_.
          wbind (wfor (enumerate 0 references) (\<lambda>r. wlift (check_reference path r))) (\<lambda>_.
          w_locations references))))"

definition write_symbol_op :: "transition_mode \<Rightarrow> symbol_op_ref \<Rightarrow> ('s, unit) writer" where
  "write_symbol_op mode operation =
     wbind (wassert (sor_id operation \<noteq> []) (EncInvalid SymbolOpEmptyId)) (\<lambda>_.
     wbind
       (wbind (w_intern (sor_id operation)) (\<lambda>ident.
        case mode of
          ModeFull \<Rightarrow>
            wbind (wassert (symbol_body_tag (sor_body operation) = 0)
              (EncInvalid (FullSymbolTag (symbol_body_tag (sor_body operation))))) (\<lambda>_. w_u64 ident)
        | ModeDelta \<Rightarrow> w_u64 (push_bit 2 ident OR symbol_body_tag (sor_body operation)))) (\<lambda>_.
     w_symbol_body (sor_id operation) (sor_body operation)))"

end
