(* ===== verification/TF_Roundtrip.thy ===== *)
theory TF_Roundtrip
  imports TF_Rows
begin

unbundle bit_operations_syntax

text \<open>
  Every row writer of the producer leaves bytes that the decoder's reader of the same row reads
  back. The row that arrives is the one the table schema can carry (\<open>wire_entity\<close> and its
  companions); the only side conditions are the reader's own limits on counts (\<open>ef_fits\<close>,
  \<open>ff_fits\<close>), which the writer does not enforce.
\<close>

section \<open>Tags are read back\<close>

lemma parse_validity_code [simp]: "parse_resolved_call_validity (validity_code x) = Inr x"
  by (cases x) (simp_all add: parse_resolved_call_validity_def)

lemma parse_call_kind_code [simp]: "parse_call_kind (call_kind_code x) = Inr x"
  by (cases x) (simp_all add: parse_call_kind_def)

lemma parse_constructability_code [simp]: "parse_constructability (constructability_code x) = Inr x"
  by (cases x) (simp_all add: parse_constructability_def)

lemma parse_array_shape_code [simp]: "parse_array_shape (array_shape_code x) = Inr x"
  by (cases x) (simp_all add: parse_array_shape_def)

lemma parse_reference_space_code [simp]: "parse_reference_space (reference_space_code x) = Inr x"
  by (cases x) (simp_all add: parse_reference_space_def)

lemma parse_binding_kind_code [simp]: "parse_runtime_binding_kind (binding_kind_code x) = Inr x"
  by (cases x) (simp_all add: parse_runtime_binding_kind_def)

lemma parse_witness_code [simp]: "parse_construction_witness (witness_code x) = Inr x"
  by (cases x) (simp_all add: parse_construction_witness_def)

lemma parse_status_code [simp]: "parse_argument_mapping_status (status_code x) = Inr x"
  by (cases x) (simp_all add: parse_argument_mapping_status_def)

lemma parse_reason_code [simp]:
  assumes "(status_code s = 0) = (reason_code r = 0)"
  shows "parse_argument_mapping_reason s (reason_code r) = Inr r"
  using assms
  by (cases s; cases r rule: reason_code.cases) (auto simp: parse_argument_mapping_reason_def)

section \<open>What a schema carries of a row\<close>

definition wire_callability :: "u64 \<Rightarrow> callability \<Rightarrow> callability" where
  "wire_callability schema c = (if c = UntypedCallable \<and> schema < 15 then CallabilityUnknown else c)"

definition wire_parameter :: "u64 \<Rightarrow> parameter_fact \<Rightarrow> parameter_fact" where
  "wire_parameter schema p = p\<lparr>pf_callability := wire_callability schema (pf_callability p),
     pf_object_shape := (if 17 \<le> schema then pf_object_shape p else None)\<rparr>"

definition wire_argument :: "u64 \<Rightarrow> argument_mapping \<Rightarrow> argument_mapping" where
  "wire_argument schema a = a\<lparr>am_parameter := map_option (wire_parameter schema) (am_parameter a)\<rparr>"

definition wire_call :: "u64 \<Rightarrow> resolved_call \<Rightarrow> resolved_call" where
  "wire_call schema c = c\<lparr>
     rc_assertion_signature := (19 \<le> schema \<and> rc_assertion_signature c),
     rc_never_returns := (19 \<le> schema \<and> rc_never_returns c),
     rc_default_library_binding := (if 20 \<le> schema then rc_default_library_binding c else None),
     rc_targets := (if 6 \<le> schema then rc_targets c else None),
     rc_arguments := map (wire_argument schema) (rc_arguments c)\<rparr>"

definition wire_runtime_domain :: "runtime_value_domain \<Rightarrow> runtime_value_domain" where
  "wire_runtime_domain d =
     rvd_new (rvd_may_be_callable d) (rvd_may_be_undefined d) (rvd_may_be_other d) (rvd_unknown d)"

definition wire_primitive_domain :: "primitive_value_domain \<Rightarrow> primitive_value_domain" where
  "wire_primitive_domain d =
     pvd_new (pvd_has 1 d) (pvd_has 2 d) (pvd_has 4 d) (pvd_has 8 d) (pvd_has 16 d)
       (pvd_has 32 d) (pvd_has 64 d) (pvd_has 128 d) (pvd_numbers_are_finite d) (pvd_unknown d)"

definition wire_constant :: "constant_value \<Rightarrow> constant_value" where
  "wire_constant c =
     (case cv_kind c of
        ConstString \<Rightarrow> c\<lparr>cv_number := 0\<rparr>
      | ConstNumber \<Rightarrow> c\<lparr>cv_string := []\<rparr>)"

definition wire_candidate :: "primitive_literal_candidate \<Rightarrow> primitive_literal_candidate" where
  "wire_candidate c =
     (case plc_kind c of
        LiteralString \<Rightarrow> c\<lparr>plc_number := 0, plc_boolean := False\<rparr>
      | LiteralNumber \<Rightarrow> c\<lparr>plc_string := [], plc_boolean := False\<rparr>
      | LiteralBoolean \<Rightarrow> c\<lparr>plc_string := [], plc_number := 0\<rparr>)"

definition wire_tuple :: "u64 \<Rightarrow> tuple_shape \<Rightarrow> tuple_shape" where
  "wire_tuple schema t =
     (case tuple_try_new (ts_fixed_length t) (ts_has_rest t)
             (Some (wire_callability schema
               (case ts_element_zero t of None \<Rightarrow> CallabilityUnknown | Some c \<Rightarrow> c)))
             (ts_element_zero_min_parameters t)
             (if 13 \<le> schema then ts_exact_length t else None) of
        Inr t' \<Rightarrow> t'
      | Inl _ \<Rightarrow> t)"

definition wire_claim :: "u64 \<Rightarrow> str \<Rightarrow> symbol_claim \<Rightarrow> symbol_claim" where
  "wire_claim schema symbol claim =
     (if symbol = [] then (if 5 \<le> schema \<and> claim = ClaimUnresolved then ClaimUnresolved else ClaimAbsent)
      else (if 21 \<le> schema \<and> claim = ClaimCovering then ClaimCovering else ClaimPartial))"

definition wire_entity :: "u64 \<Rightarrow> entity_fact \<Rightarrow> entity_fact" where
  "wire_entity schema e = e\<lparr>
     ef_symbol_claim := wire_claim schema (ef_symbol e) (ef_symbol_claim e),
     ef_resolved_call := map_option (wire_call schema) (ef_resolved_call e),
     ef_callability := map_option (wire_callability schema) (ef_callability e),
     ef_constructability := (if 14 \<le> schema then ef_constructability e else None),
     ef_runtime_binding_kind := (if 18 \<le> schema then ef_runtime_binding_kind e else None),
     ef_runtime_value_domain := map_option wire_runtime_domain (ef_runtime_value_domain e),
     ef_primitive_value_domain :=
       (if 13 \<le> schema \<and> pvd_is_present (ef_primitive_value_domain e)
        then wire_primitive_domain (ef_primitive_value_domain e) else 0),
     ef_primitive_literal_candidates :=
       (if 16 \<le> schema
        then map_option (map wire_candidate) (non_empty (ef_primitive_literal_candidates e)) else None),
     ef_call_result_domain :=
       (if 7 \<le> schema then map_option wire_runtime_domain (ef_call_result_domain e) else None),
     ef_constant_value := (if 8 \<le> schema then map_option wire_constant (ef_constant_value e) else None),
     ef_array_shape := (if 9 \<le> schema then ef_array_shape e else None),
     ef_tuple_shape := (if 11 \<le> schema then map_option (wire_tuple schema) (ef_tuple_shape e) else None),
     ef_library_types := (if 12 \<le> schema then non_empty (ef_library_types e) else None),
     ef_declared_keys := (if 23 \<le> schema then ef_declared_keys e else None),
     ef_writable_optional_property := (24 \<le> schema \<and> ef_writable_optional_property e)\<rparr>"

section \<open>Rows within the reader's limits\<close>

definition count_ok :: "'a list \<Rightarrow> bool" where
  "count_ok xs \<longleftrightarrow> length xs \<le> packed_collection_limit"

definition td_fits :: "type_descriptor \<Rightarrow> bool" where
  "td_fits t \<longleftrightarrow> count_ok (td_alias_declarations t)"

definition rd_fits :: "resolved_declaration \<Rightarrow> bool" where
  "rd_fits d \<longleftrightarrow> count_ok (rd_owners d)"

definition pf_fits :: "parameter_fact \<Rightarrow> bool" where
  "pf_fits p \<longleftrightarrow> pred_option td_fits (pf_type_descriptor p)
     \<and> pred_option (\<lambda>s. count_ok (ocs_required_properties s)) (pf_object_shape p)"

definition rc_fits :: "resolved_call \<Rightarrow> bool" where
  "rc_fits c \<longleftrightarrow> pred_option rd_fits (rc_declaration c)
     \<and> pred_option rd_fits (rc_default_library_binding c)
     \<and> pred_option (\<lambda>t. count_ok (cts_candidates t) \<and> list_all rd_fits (cts_candidates t)) (rc_targets c)
     \<and> count_ok (rc_arguments c) \<and> list_all (\<lambda>a. pred_option pf_fits (am_parameter a)) (rc_arguments c)"

definition ef_fits :: "entity_fact \<Rightarrow> bool" where
  "ef_fits e \<longleftrightarrow> pred_option td_fits (ef_type_descriptor e) \<and> pred_option rc_fits (ef_resolved_call e)
     \<and> pred_option (\<lambda>names. length names < 2 ^ 64) (ef_library_types e)
     \<and> pred_option (\<lambda>names. length names < 2 ^ 64) (ef_declared_keys e)
     \<and> pred_option (\<lambda>candidates. length candidates \<le> 32) (ef_primitive_literal_candidates e)"

definition sc_fits :: "source_call \<Rightarrow> bool" where
  "sc_fits c \<longleftrightarrow> count_ok (sc_arguments c)"

definition ff_fits :: "file_fact \<Rightarrow> bool" where
  "ff_fits f \<longleftrightarrow> count_ok (ff_calls f) \<and> list_all sc_fits (ff_calls f)
     \<and> count_ok (ff_bindings f)
     \<and> list_all (\<lambda>b. count_ok (sb_names b) \<and> sc_fits (sb_initializer b)) (ff_bindings f)
     \<and> count_ok (ff_functions f) \<and> list_all (\<lambda>x. count_ok (fn_parameters x)) (ff_functions f)
     \<and> count_ok (ff_async_functions f)
     \<and> list_all (\<lambda>x. count_ok (aff_calls_after_await x)) (ff_async_functions f)"

section \<open>Declarations and calls are read back\<close>

lemma writes_declaration:
  "writes (w_declaration d s) (\<lambda>strings. cur_declaration strings (reader_state s))
     (\<lambda>s'. (d, reader_state s'))"
  unfolding w_declaration_def cur_declaration_def
  by (rule writes_bind [OF writes_text])+ (rule writes_pure_tail [OF writes_location], cases d, simp)

lemma writes_declarations [writes_intros]:
  assumes "count_ok ds"
  shows "writes (write_declarations ds) cur_declarations (\<lambda>_. ds)"
proof -
  have "writes (wfor_st ds w_declaration writer_location_state_default)
      (\<lambda>strings. drepeat_st (length ds) (cur_declaration strings)
        (reader_state writer_location_state_default)) (\<lambda>_. map (\<lambda>d. d) ds)"
    by (rule writes_for_st) (simp_all add: writes_declaration)
  then show ?thesis
    unfolding write_declarations_def cur_declarations_def
    by (intro writes_bind [OF writes_count]) (use assms in \<open>simp_all add: count_ok_def\<close>)
qed

lemma writes_type_descriptor [writes_intros]:
  "td_fits t \<Longrightarrow> writes (write_type_descriptor t) cur_type_descriptor (\<lambda>_. t)"
  unfolding write_type_descriptor_def cur_type_descriptor_def td_fits_def
  by (rule writes_bind [OF writes_text])+ (rule writes_pure_tail [OF writes_declarations], assumption, cases t, simp)

lemma writes_for_same:
  assumes "\<And>x. x \<in> set xs \<Longrightarrow> writes (f x) d (\<lambda>_. x)"
  shows "writes (wfor xs f) (\<lambda>strings. drepeat (length xs) (d strings)) (\<lambda>_. xs)"
  using writes_for [where view = "\<lambda>x. x", OF assms refl] by simp

lemma writes_for_st_same:
  assumes "\<And>x s. x \<in> set xs \<Longrightarrow> writes (f x s) (\<lambda>strings. d strings (rs s)) (\<lambda>s'. (x, rs s'))"
  shows "writes (wfor_st xs f s) (\<lambda>strings. drepeat_st (length xs) (d strings) (rs s)) (\<lambda>_. xs)"
  using writes_for_st [where view = "\<lambda>x. x" and f = f and d = d and rs = rs, OF assms refl] by simp

lemma writes_opt_same:
  assumes "\<And>x. opt = Some x \<Longrightarrow> writes (f x) d (\<lambda>_. x)"
  shows "writes (wopt opt f) (\<lambda>strings. dopt (opt \<noteq> None) (d strings)) (\<lambda>_. opt)"
  using writes_opt [where view = "\<lambda>x. x", OF assms refl] by (simp add: option.map_ident)

lemma writes_owner:
  "writes (w_owner x s) (\<lambda>strings. cur_owner strings (reader_state s)) (\<lambda>s'. (x, reader_state s'))"
  unfolding w_owner_def cur_owner_def
  by (rule writes_bind [OF writes_text])+ (rule writes_pure_tail [OF writes_location], cases x, simp)

lemma writes_owners:
  "writes (wfor_st xs w_owner s)
     (\<lambda>strings. drepeat_st (length xs) (cur_owner strings) (reader_state s)) (\<lambda>_. xs)"
  by (rule writes_for_st_same) (rule writes_owner)

lemma writes_resolved_declaration [writes_intros]:
  assumes "rd_fits d"
  shows "writes (write_resolved_declaration d) cur_resolved_declaration (\<lambda>_. d)"
proof -
  have owners: "length (rd_owners d) \<le> packed_collection_limit"
    using assms by (simp add: rd_fits_def count_ok_def)
  have tail: "writes
    (wbind (w_u64 (of_nat (length (rd_owners d)))) (\<lambda>_.
     wbind (wfor_st (rd_owners d) w_owner state) (\<lambda>_.
     wbind (w_text (rd_qualified_name d)) (\<lambda>_.
     wbind (w_text (rd_origin_module d)) (\<lambda>_.
     wbind (w_text (rd_source_file d)) (\<lambda>_.
     w_bool (rd_standard_library d)))))))
    (\<lambda>strings. dbind (cur_count ''declaration owners'') (\<lambda>owner_count.
     dbind (drepeat_st owner_count (cur_owner strings) (reader_state state)) (\<lambda>owners.
     dbind (cur_string_index strings ''qualified declaration name'') (\<lambda>qualified_name.
     dbind (cur_string_index strings ''declaration origin module'') (\<lambda>origin_module.
     dbind (cur_string_index strings ''declaration source file'') (\<lambda>source_file.
     dbind (cur_boolean ''standard library'') (\<lambda>standard_library.
     dret \<lparr>rd_symbol = rd_symbol d, rd_name = rd_name d, rd_kind = rd_kind d,
           rd_location = rd_location d,
           rd_owners = owners, rd_qualified_name = qualified_name,
           rd_origin_module = origin_module, rd_source_file = source_file,
           rd_standard_library = standard_library\<rparr>)))))))
    (\<lambda>_. d)" for state
    by (rule writes_bind [OF writes_count [OF owners]], rule writes_bind [OF writes_owners],
        (rule writes_bind [OF writes_text])+, rule writes_pure_tail [OF writes_bool], cases d, simp)
  show ?thesis
    unfolding write_resolved_declaration_def cur_resolved_declaration_def
      reader_state_default [symmetric]
    by ((rule writes_bind [OF writes_text])+, rule writes_bind [OF writes_location], simp add: tail)
qed

lemma writes_property:
  "writes (w_property p) cur_property (\<lambda>_. p)"
  unfolding w_property_def cur_property_def
  by (rule writes_bind [OF writes_text], rule writes_pure_tail, rule writes_parse,
      rule parse_witness_code, cases p, simp)

lemma writes_object_shape:
  assumes "count_ok (ocs_required_properties s)"
  shows "writes (w_object_shape s) cur_object_shape (\<lambda>_. s)"
proof -
  have loop: "writes (wfor (ocs_required_properties s) w_property)
      (\<lambda>strings. drepeat (length (ocs_required_properties s)) (cur_property strings))
      (\<lambda>_. ocs_required_properties s)"
    by (rule writes_for_same) (rule writes_property)
  show ?thesis
    unfolding w_object_shape_def cur_object_shape_def
    by (rule writes_bind [OF writes_count [OF assms [unfolded count_ok_def]]],
        rule writes_pure_tail [OF loop], cases s, simp)
qed

lemma writes_parameter_declaration:
  "writes (w_parameter_declaration d) cur_parameter_declaration (\<lambda>_. d)"
proof -
  have "writes (wbind (w_location (decl_location d) writer_location_state_default) (\<lambda>_. wret ()))
    (\<lambda>strings. dbind (cur_location strings (reader_state writer_location_state_default)) (\<lambda>(location, state).
     dret \<lparr>decl_kind = decl_kind d, decl_name = decl_name d, decl_location = location\<rparr>)) (\<lambda>_. d)"
    by (rule writes_bind [OF writes_location], cases d) (simp add: writes_ret)
  then show ?thesis
    unfolding w_parameter_declaration_def cur_parameter_declaration_def reader_state_default [symmetric]
    by - (rule writes_bind [OF writes_text])+
qed

lemma parse_callability_code [simp]:
  "parse_callability (callability_code c schema) schema = Inr (wire_callability schema c)"
  by (cases c) (auto simp: parse_callability_def callability_code_def wire_callability_def)

lemma writes_callability:
  "writes (w_u64 (callability_code c schema))
     (\<lambda>strings. cur_parse (\<lambda>value. parse_callability value schema)) (\<lambda>_. wire_callability schema c)"
  by (rule writes_parse) simp

lemma pred_optionD: "pred_option P m \<Longrightarrow> m = Some x \<Longrightarrow> P x"
  by simp

lemma writes_parameter:
  assumes "pf_fits p"
  shows "writes (write_parameter p schema) (\<lambda>strings. cur_parameter strings schema)
    (\<lambda>_. wire_parameter schema p)"
proof -
  let ?shape = "if 17 \<le> schema then pf_object_shape p else None"
  let ?flags = "flag (pf_declaration p \<noteq> None) 0 OR flag (pf_rest p) 1
            OR flag (pf_optional p) 2 OR flag (pf_type_descriptor p \<noteq> None) 3
            OR flag (?shape \<noteq> None) 4"
  have known: "\<not> unknown_flags ?flags (if 17 \<le> schema then 31 else 15)"
  proof (cases "17 \<le> schema")
    case True
    have "\<not> unknown_flags ?flags 31"
      by (rule no_unknown_flags [where k = 5]) (auto simp: bit_or_iff mask_numeral)
    with True show ?thesis by simp
  next
    case False
    have "\<not> unknown_flags ?flags 15"
      by (rule no_unknown_flags [where k = 4]) (use False in \<open>auto simp: bit_or_iff mask_numeral\<close>)
    with False show ?thesis by simp
  qed
  have bits: "has_flag ?flags 0 = (pf_declaration p \<noteq> None)" "has_flag ?flags 1 = pf_rest p"
    "has_flag ?flags 2 = pf_optional p" "has_flag ?flags 3 = (pf_type_descriptor p \<noteq> None)"
    "has_flag ?flags 4 = (?shape \<noteq> None)"
    by (simp_all add: bit_or_iff)
  have decl: "writes (wopt (pf_declaration p) w_parameter_declaration)
      (\<lambda>strings. dopt (pf_declaration p \<noteq> None) (cur_parameter_declaration strings))
      (\<lambda>_. pf_declaration p)"
    by (rule writes_opt_same) (rule writes_parameter_declaration)
  have td: "writes (wopt (pf_type_descriptor p) write_type_descriptor)
      (\<lambda>strings. dopt (pf_type_descriptor p \<noteq> None) (cur_type_descriptor strings))
      (\<lambda>_. pf_type_descriptor p)"
    using assms by (intro writes_opt_same writes_type_descriptor) (auto simp: pf_fits_def)
  have shape: "writes (wopt ?shape w_object_shape)
      (\<lambda>strings. dopt (?shape \<noteq> None) (cur_object_shape strings)) (\<lambda>_. ?shape)"
    using assms by (intro writes_opt_same writes_object_shape) (auto simp: pf_fits_def split: if_splits)
  show ?thesis
    unfolding write_parameter_def cur_parameter_def Let_def
    apply (rule writes_bind [OF writes_u64])
    apply (rule writes_bind [OF writes_text])
    apply (rule writes_bind [OF writes_u64])
    apply (rule writes_dassert [OF known])
    apply (unfold bits)
    apply (rule writes_bind [OF decl])
    apply (rule writes_bind [OF writes_callability])
    apply (rule writes_bind [OF td])
    apply (rule writes_pure_tail [OF shape])
    apply (cases p, simp add: wire_parameter_def)
    done
qed

lemma writes_argument:
  assumes "pred_option pf_fits (am_parameter a)"
  shows "writes (write_argument_mapping i a schema) (\<lambda>strings. cur_argument strings schema)
    (\<lambda>_. wire_argument schema a)"
proof -
  have parameter: "writes (wopt (am_parameter a) (\<lambda>p. write_parameter p schema))
      (\<lambda>strings. dopt (am_parameter a \<noteq> None) (cur_parameter strings schema))
      (\<lambda>_. map_option (wire_parameter schema) (am_parameter a))"
    using assms by (intro writes_opt writes_parameter) auto
  show ?thesis
    unfolding write_argument_mapping_def cur_argument_def Let_def
    apply (rule writes_assert)
    apply (rule writes_bind [OF writes_u64])
    apply (rule writes_bind, rule writes_parse, rule parse_status_code)
    apply (rule writes_bind, rule writes_parse, rule parse_reason_code, assumption)
    apply (rule writes_bind [OF writes_bool])
    apply (rule writes_pure_tail [OF parameter])
    apply (cases a, simp add: wire_argument_def)
    done
qed

text \<open>A presence byte and an optional part that exist from schema \<open>since\<close> on.\<close>

lemma writes_presence_from:
  "writes (wwhen (since \<le> schema) (w_bool b)) (\<lambda>strings. cur_presence_from since schema label)
     (\<lambda>_. since \<le> schema \<and> b)"
  by (cases "since \<le> schema") (simp_all add: cur_presence_from_def wwhen_def writes_bool writes_ret)

lemma writes_opt_from:
  assumes "\<And>x. c \<Longrightarrow> opt = Some x \<Longrightarrow> writes (f x) d (\<lambda>_. view x)" "present \<longleftrightarrow> c \<and> opt \<noteq> None"
  shows "writes (wwhen c (wopt opt f)) (\<lambda>strings. dopt present (d strings))
    (\<lambda>_. if c then map_option view opt else None)"
proof (cases c)
  case True
  with assms show ?thesis by (auto simp: wwhen_def intro!: writes_opt)
next
  case False
  with assms(2) show ?thesis by (simp add: wwhen_def dopt_def writes_ret)
qed

lemma writes_candidate:
  assumes "rd_fits d"
  shows "writes (w_candidate (i, d)) cur_candidate (\<lambda>_. d)"
  unfolding w_candidate_def cur_candidate_def prod.case
  by (rule writes_assert, rule writes_pure_tail [OF writes_resolved_declaration [OF assms]])
    (auto intro: reads_dbind_pure reads_dassert)

lemma writes_for_enumerate:
  assumes "\<And>i x. x \<in> set xs \<Longrightarrow> writes (f (i, x)) d (\<lambda>_. view x)"
  shows "writes (wfor (enumerate 0 xs) f) (\<lambda>strings. drepeat (length xs) (d strings)) (\<lambda>_. map view xs)"
proof -
  have "writes (wfor (enumerate 0 xs) f) (\<lambda>strings. drepeat (length xs) (d strings))
    (\<lambda>_. map (view \<circ> snd) (enumerate 0 xs))"
    by (rule writes_for) (auto simp: in_set_enumerate_eq intro!: assms)
  then show ?thesis by (simp flip: map_map)
qed

lemma writes_target_set:
  assumes "count_ok (cts_candidates t)" "list_all rd_fits (cts_candidates t)"
  shows "writes (w_target_set t) cur_target_set (\<lambda>_. t)"
proof -
  have loop: "writes (wfor (enumerate 0 (cts_candidates t)) w_candidate)
      (\<lambda>strings. drepeat (length (cts_candidates t)) (cur_candidate strings))
      (\<lambda>_. map (\<lambda>x. x) (cts_candidates t))"
    using assms(2) by (intro writes_for_enumerate writes_candidate) (auto simp: list_all_iff)
  show ?thesis
    unfolding w_target_set_def cur_target_set_def
    apply (rule writes_assert)
    apply (rule writes_bind [OF writes_bool])
    apply (rule writes_bind [OF writes_count [OF assms(1) [unfolded count_ok_def]]])
    apply (rule writes_dassert, simp)
    apply (rule writes_pure_tail [OF loop])
    apply (cases t, simp)
    done
qed

lemma writes_call_flags:
  "writes (wwhen (19 \<le> schema) (w_u64 (flag a 0 OR flag n 1))) (\<lambda>strings. cur_call_flags schema)
     (\<lambda>_. (19 \<le> schema \<and> a, 19 \<le> schema \<and> n))"
proof -
  have known: "\<not> unknown_flags (flag a 0 OR flag n 1) 3"
    by (rule no_unknown_flags [where k = 2]) (auto simp: bit_or_iff mask_numeral)
  have "writes (w_u64 (flag a 0 OR flag n 1)) (\<lambda>strings. dbind cur_u64 (\<lambda>flags.
           dbind (dassert (\<not> unknown_flags flags 3) (UnknownFlags ''resolved call'' flags)) (\<lambda>_.
           dret (has_flag flags 0, has_flag flags 1)))) (\<lambda>_. (a, n))"
    by (rule writes_pure_tail [OF writes_u64], rule reads_dbind_pure [OF reads_dassert [OF known]])
      (simp add: bit_or_iff)
  then show ?thesis
    by (cases "19 \<le> schema") (simp_all add: cur_call_flags_def wwhen_def writes_ret)
qed

lemma writes_resolved_call:
  assumes "rc_fits c"
  shows "writes (write_resolved_call c schema) (\<lambda>strings. cur_resolved_call strings schema)
    (\<lambda>_. wire_call schema c)"
proof -
  have decl: "writes (wopt (rc_declaration c) write_resolved_declaration)
      (\<lambda>strings. dopt (rc_declaration c \<noteq> None) (cur_resolved_declaration strings))
      (\<lambda>_. rc_declaration c)"
    using assms by (intro writes_opt_same writes_resolved_declaration) (auto simp: rc_fits_def)
  have targets: "writes (wwhen (6 \<le> schema) (wopt (rc_targets c) w_target_set))
      (\<lambda>strings. dopt (6 \<le> schema \<and> rc_targets c \<noteq> None) (cur_target_set strings))
      (\<lambda>_. if 6 \<le> schema then map_option (\<lambda>x. x) (rc_targets c) else None)"
    using assms by (intro writes_opt_from writes_target_set) (auto simp: rc_fits_def)
  have count: "length (rc_arguments c) \<le> packed_collection_limit"
    using assms by (simp add: rc_fits_def count_ok_def)
  have arguments: "writes (wfor (enumerate 0 (rc_arguments c))
         (\<lambda>(index, mapping). write_argument_mapping index mapping schema))
      (\<lambda>strings. drepeat (length (rc_arguments c)) (cur_argument strings schema))
      (\<lambda>_. map (wire_argument schema) (rc_arguments c))"
    using assms by (intro writes_for_enumerate) (auto simp: rc_fits_def list_all_iff intro!: writes_argument)
  have binding: "writes (wwhen (20 \<le> schema)
         (wopt (rc_default_library_binding c) write_resolved_declaration))
      (\<lambda>strings. dopt (20 \<le> schema \<and> rc_default_library_binding c \<noteq> None)
        (cur_resolved_declaration strings))
      (\<lambda>_. if 20 \<le> schema then map_option (\<lambda>x. x) (rc_default_library_binding c) else None)"
    using assms by (intro writes_opt_from writes_resolved_declaration) (auto simp: rc_fits_def)
  show ?thesis
    unfolding write_resolved_call_def cur_resolved_call_def
    apply (rule writes_bind [OF writes_text])
    apply (rule writes_bind [OF writes_text])
    apply (rule writes_bind, rule writes_parse, rule parse_validity_code)
    apply (rule writes_bind, rule writes_parse, rule parse_call_kind_code)
    apply (rule writes_bind [OF writes_bool])
    apply (rule writes_bind [OF decl])
    apply (rule writes_bind [OF writes_presence_from])
    apply (rule writes_bind [OF targets])
    apply (rule writes_bind [OF writes_count [OF count]])
    apply (rule writes_bind [OF arguments])
    apply (rule writes_bind [OF writes_call_flags], unfold prod.case)
    apply (rule writes_bind [OF writes_presence_from])
    apply (rule writes_pure_tail [OF binding])
    apply (cases c, simp add: wire_call_def option.map_ident)
    done
qed

section \<open>Entity rows are read back\<close>

lemma parse_runtime_domain_bits:
  "parse_runtime_value_domain (runtime_value_domain_bits d) = Inr (wire_runtime_domain d)"
proof -
  have "\<not> unknown_flags (runtime_value_domain_bits d) 15"
    by (rule no_unknown_flags [where k = 4])
      (auto simp: runtime_value_domain_bits_def bit_or_iff mask_numeral)
  then show ?thesis
    by (simp add: parse_runtime_value_domain_def wire_runtime_domain_def)
      (simp add: runtime_value_domain_bits_def bit_or_iff)
qed

lemma parse_primitive_domain_bits:
  "parse_primitive_value_domain (primitive_value_domain_bits d) = Inr (wire_primitive_domain d)"
proof -
  have "\<not> unknown_flags (primitive_value_domain_bits d) 1023"
    by (rule no_unknown_flags [where k = 10])
      (auto simp: primitive_value_domain_bits_def bit_or_iff mask_numeral)
  then show ?thesis
    by (simp add: parse_primitive_value_domain_def wire_primitive_domain_def)
      (simp add: primitive_value_domain_bits_def bit_or_iff)
qed

lemma writes_constant:
  assumes "\<not> (cv_kind c = ConstNumber \<and> f64_is_nan (cv_number c))"
  shows "writes (w_constant_value c) cur_constant_value (\<lambda>_. wire_constant c)"
proof (cases "cv_kind c")
  case ConstString
  have "writes (w_text (cv_string c)) (\<lambda>strings.
      dbind (cur_string_index strings ''constant string'') (\<lambda>s.
      dret \<lparr>cv_kind = ConstString, cv_string = s, cv_number = 0\<rparr>)) (\<lambda>_. wire_constant c)"
    by (rule writes_pure_tail [OF writes_text], cases c) (use ConstString in \<open>simp add: wire_constant_def\<close>)
  then show ?thesis
    unfolding w_constant_value_def cur_constant_value_def ConstString constant_value_kind.case
    by (intro writes_bind [OF writes_u64]) simp
next
  case ConstNumber
  have "writes (w_u64 (cv_number c)) (\<lambda>strings.
      dbind cur_u64 (\<lambda>number.
       dbind (dassert (\<not> f64_is_nan number) ConstantIsNan) (\<lambda>_.
       dret \<lparr>cv_kind = ConstNumber, cv_string = [], cv_number = number\<rparr>))) (\<lambda>_. wire_constant c)"
    by (rule writes_pure_tail [OF writes_u64], rule reads_dbind_pure [OF reads_dassert], use assms ConstNumber in simp,
        cases c, use ConstNumber in \<open>simp add: wire_constant_def\<close>)
  then show ?thesis
    unfolding w_constant_value_def cur_constant_value_def ConstNumber constant_value_kind.case
    by (intro writes_bind [OF writes_u64]) simp
qed

lemma unat_ucast_u32: "unat (ucast (x :: u32) :: u64) = unat x" "unat x < 2 ^ 32"
proof -
  show lt: "unat x < 2 ^ 32" using unsigned_less [of x, where ?'a = nat] by simp
  then have "unat x < 2 ^ 64" by simp
  then show "unat (ucast x :: u64) = unat x"
    by (simp only: unsigned_ucast_eq take_bit_nat_eq_self_iff len_num1 len_bit0 mult_num_simps) simp
qed

lemma u32_try_from_ucast [simp]: "u32_try_from (ucast (x :: u32)) = Some x"
proof -
  have "(ucast x :: u64) \<le> 0xFFFFFFFF" using unat_ucast_u32 [of x] by (simp add: word_le_nat_alt)
  moreover have "ucast (ucast x :: u64) = x"
    by (rule bit_word_eqI) (simp add: bit_unsigned_iff)
  ultimately show ?thesis by (simp add: u32_try_from_def)
qed

lemma fixed_length_word:
  fixes f :: u32
  shows "drop_bit 1 (push_bit 1 (ucast f :: u64) OR of_bool r) = ucast f"
    "has_flag (push_bit 1 (ucast f) OR of_bool r) 0 = r"
proof -
  have b: "bit (push_bit 1 (ucast f :: u64) OR of_bool r) n \<longleftrightarrow> (if n = 0 then r else n < 33 \<and> bit f (n - 1))" for n
    unfolding bit_or_iff bit_push_bit_iff bit_unsigned_iff
    by (cases n) (auto simp: bit_of_bool_iff possible_bit_def dest: bit_imp_le_length)
  show "drop_bit 1 (push_bit 1 (ucast f :: u64) OR of_bool r) = ucast f"
    by (rule bit_word_eqI) (unfold bit_drop_bit_eq b bit_unsigned_iff comp_def,
        auto dest: bit_imp_le_length)
  show "has_flag (push_bit 1 (ucast f) OR of_bool r) 0 = r"
    unfolding has_flag_iff b by simp
qed

lemma ts_fixed_length_bound: "ts_fixed_length t \<le> fixed_length_mask"
  unfolding ts_fixed_length_def by (rule word_and_le1)

lemma wire_tuple_spec:
  "tuple_try_new (ts_fixed_length t) (ts_has_rest t)
     (Some (wire_callability schema
       (case ts_element_zero t of None \<Rightarrow> CallabilityUnknown | Some c \<Rightarrow> c)))
     (ts_element_zero_min_parameters t)
     (if 13 \<le> schema then ts_exact_length t else None) = Inr (wire_tuple schema t)"
proof -
  have "ts_exact_length t \<noteq> Some 0xFFFFFFFF"
  proof
    assume "ts_exact_length t = Some 0xFFFFFFFF"
    then have "ts_exact_length_plus_one t - 1 = 0xFFFFFFFF" "ts_exact_length_plus_one t \<noteq> 0"
      by (auto simp: ts_exact_length_def split: if_splits)
    then have "ts_exact_length_plus_one t = 0xFFFFFFFF + 1" by (metis diff_add_cancel)
    then show False using \<open>ts_exact_length_plus_one t \<noteq> 0\<close> by simp
  qed
  then show ?thesis
    using ts_fixed_length_bound [of t]
    by (auto simp: wire_tuple_def tuple_try_new_def Let_def not_less [symmetric] split: option.splits if_splits)
qed

lemma reads_exact_length:
  "13 \<le> schema \<Longrightarrow> reads (cur_exact_length schema)
     (uvarint (case e of None \<Rightarrow> 0 | Some len \<Rightarrow> ucast (len :: u32) + 1)) e"
proof (cases e)
  case (Some len)
  assume s: "13 \<le> schema"
  have "unat (ucast len + 1 :: u64) = unat len + 1"
    using unat_ucast_u32 [of len] by (simp add: unat_word_ariths)
  then have "(ucast len :: u64) + 1 \<noteq> 0" by (metis Suc_eq_plus1 nat.simps(3) unsigned_0)
  then have "reads (if ucast len + 1 = (0 :: u64) then dret None
      else dbind (dlift (ok_or TupleExactLengthTooLarge (u32_try_from (ucast len + 1 - 1)))) (\<lambda>len.
                dret (Some len))) [] e"
    by (auto intro!: reads_dbind_pure [OF reads_dlift] simp: Some)
  then show ?thesis
    using s unfolding cur_exact_length_def Some by (auto intro!: reads_dbind_ret [OF reads_cur_u64])
qed (auto simp: cur_exact_length_def intro!: reads_dbind_ret [OF reads_cur_u64])

lemma writes_exact_length:
  "writes (wwhen (13 \<le> schema) (w_u64 (case e of None \<Rightarrow> 0 | Some len \<Rightarrow> ucast (len :: u32) + 1)))
     (\<lambda>strings. cur_exact_length schema) (\<lambda>_. if 13 \<le> schema then e else None)"
proof (cases "13 \<le> schema")
  case True
  with writes_u64_gen [OF reads_exact_length] show ?thesis by (simp add: wwhen_def)
next
  case False
  then show ?thesis by (simp add: wwhen_def cur_exact_length_def writes_ret)
qed

lemma writes_tuple:
  "writes (w_tuple_shape schema t) (\<lambda>strings. cur_tuple_shape schema) (\<lambda>_. wire_tuple schema t)"
  unfolding w_tuple_shape_def cur_tuple_shape_def
  apply (rule writes_bind [OF writes_u64])
  apply (rule writes_bind [OF writes_callability])
  apply (rule writes_bind [OF writes_u64])
  apply (rule writes_dlift, simp)
  apply (rule writes_pure_tail [OF writes_exact_length])
  apply (rule reads_dbind_pure [OF reads_dlift])
   apply (simp only: fixed_length_word u32_try_from_ucast ok_or_simps)
  apply (simp only: fixed_length_word wire_tuple_spec sum.case)
  apply (simp add: reads_dlift)
  done


lemma writes_names:
  assumes "length names < 2 ^ 64"
  shows "writes (w_names names) (\<lambda>strings. cur_names strings label) (\<lambda>_. names)"
proof -
  have loop: "writes (wfor names w_text)
      (\<lambda>strings. drepeat (length names) (cur_string_index strings label)) (\<lambda>_. names)"
    by (rule writes_for_same) (rule writes_text)
  show ?thesis
    unfolding w_names_def cur_names_def
    by (rule writes_bind [OF writes_u64]) (simp only: unat_of_nat_small [OF assms] loop)
qed

lemma writes_literal_candidate:
  "writes (w_literal_candidate i c) cur_literal_candidate (\<lambda>_. wire_candidate c)"
proof (cases "plc_kind c")
  case LiteralString
  have "writes (w_text (plc_string c)) (\<lambda>strings.
      dbind (cur_string_index strings ''primitive literal string'') (\<lambda>s.
      dret \<lparr>plc_kind = LiteralString, plc_string = s, plc_number = 0, plc_boolean = False\<rparr>))
      (\<lambda>_. wire_candidate c)"
    by (rule writes_pure_tail [OF writes_text], cases c)
      (use LiteralString in \<open>simp add: wire_candidate_def\<close>)
  then show ?thesis
    unfolding w_literal_candidate_def cur_literal_candidate_def LiteralString primitive_literal_kind.case
    by (intro writes_bind [OF writes_u64]) simp
next
  case LiteralNumber
  have "f64_is_finite (plc_number c) \<Longrightarrow> writes (w_u64 (plc_number c)) (\<lambda>strings.
      dbind cur_u64 (\<lambda>number.
       dbind (dassert (f64_is_finite number) LiteralNotFinite) (\<lambda>_.
       dret \<lparr>plc_kind = LiteralNumber, plc_string = [], plc_number = number,
             plc_boolean = False\<rparr>))) (\<lambda>_. wire_candidate c)"
    by (rule writes_pure_tail [OF writes_u64], rule reads_dbind_pure [OF reads_dassert], assumption,
        cases c, use LiteralNumber in \<open>simp add: wire_candidate_def\<close>)
  then show ?thesis
    unfolding w_literal_candidate_def cur_literal_candidate_def LiteralNumber primitive_literal_kind.case
    by (intro writes_assert writes_bind [OF writes_u64]) simp
next
  case LiteralBoolean
  have "writes (w_bool (plc_boolean c)) (\<lambda>strings. dbind cur_u64 (\<lambda>v.
       if v = 0 then
         dret \<lparr>plc_kind = LiteralBoolean, plc_string = [], plc_number = 0, plc_boolean = False\<rparr>
       else if v = 1 then
         dret \<lparr>plc_kind = LiteralBoolean, plc_string = [], plc_number = 0, plc_boolean = True\<rparr>
       else dfail (BooleanHasValue ''primitive'' v))) (\<lambda>_. wire_candidate c)"
    unfolding w_bool_def
    by (rule writes_pure_tail [OF writes_u64], cases c)
      (use LiteralBoolean in \<open>simp add: wire_candidate_def\<close>)
  then show ?thesis
    unfolding w_literal_candidate_def cur_literal_candidate_def LiteralBoolean primitive_literal_kind.case
    by (intro writes_bind [OF writes_u64]) simp
qed

lemma writes_literal_candidates:
  assumes "length cs \<le> 32"
  shows "writes (w_literal_candidates i cs) cur_literal_candidates (\<lambda>_. map wire_candidate cs)"
proof -
  have loop: "writes (wfor cs (w_literal_candidate i))
      (\<lambda>strings. drepeat (length cs) (cur_literal_candidate strings)) (\<lambda>_. map wire_candidate cs)"
    by (rule writes_for) (simp_all add: writes_literal_candidate)
  have n: "unat (of_nat (length cs) :: u64) = length cs" using assms by (intro unat_of_nat_small) simp
  then have le: "of_nat (length cs) \<le> (32 :: u64)" using assms by (simp add: word_le_nat_alt)
  show ?thesis
    unfolding w_literal_candidates_def cur_literal_candidates_def
    by (rule writes_bind [OF writes_u64], rule writes_dassert [OF le], simp only: n loop)
qed

text \<open>The flags the reader tests, and that it knows all of them at the schema it is told.\<close>

lemma entity_flag_bits:
  "has_flag (entity_flags schema e) 0 \<longleftrightarrow> ef_type_descriptor e \<noteq> None"
  "has_flag (entity_flags schema e) 1 \<longleftrightarrow> ef_resolved_call e \<noteq> None"
  "has_flag (entity_flags schema e) 2 \<longleftrightarrow> ef_callability e \<noteq> None"
  "has_flag (entity_flags schema e) 3 \<longleftrightarrow> ef_reference_space e \<noteq> None"
  "has_flag (entity_flags schema e) 4 \<longleftrightarrow> ef_runtime_identity e \<noteq> []"
  "has_flag (entity_flags schema e) 5 \<longleftrightarrow> ef_runtime_value_domain e \<noteq> None"
  "has_flag (entity_flags schema e) 6 \<longleftrightarrow> 5 \<le> schema \<and> ef_symbol_claim e = ClaimUnresolved
     \<or> 21 \<le> schema \<and> ef_symbol_claim e = ClaimCovering"
  "has_flag (entity_flags schema e) 7 \<longleftrightarrow> 7 \<le> schema \<and> ef_call_result_domain e \<noteq> None"
  "has_flag (entity_flags schema e) 8 \<longleftrightarrow> 8 \<le> schema \<and> ef_constant_value e \<noteq> None"
  "has_flag (entity_flags schema e) 9 \<longleftrightarrow> 9 \<le> schema \<and> ef_array_shape e \<noteq> None"
  "has_flag (entity_flags schema e) 10 \<longleftrightarrow> 11 \<le> schema \<and> ef_tuple_shape e \<noteq> None"
  "has_flag (entity_flags schema e) 11 \<longleftrightarrow> 12 \<le> schema \<and> non_empty (ef_library_types e) \<noteq> None"
  "has_flag (entity_flags schema e) 12 \<longleftrightarrow>
     13 \<le> schema \<and> pvd_is_present (ef_primitive_value_domain e)"
  "has_flag (entity_flags schema e) 13 \<longleftrightarrow> 14 \<le> schema \<and> ef_constructability e \<noteq> None"
  "has_flag (entity_flags schema e) 14 \<longleftrightarrow>
     16 \<le> schema \<and> non_empty (ef_primitive_literal_candidates e) \<noteq> None"
  "has_flag (entity_flags schema e) 15 \<longleftrightarrow> 18 \<le> schema \<and> ef_runtime_binding_kind e \<noteq> None"
  "has_flag (entity_flags schema e) 16 \<longleftrightarrow> 23 \<le> schema \<and> ef_declared_keys e \<noteq> None"
  "has_flag (entity_flags schema e) 17 \<longleftrightarrow> 24 \<le> schema \<and> ef_writable_optional_property e"
  by (simp_all add: entity_flags_def bit_or_iff)

definition entity_flag_width :: "u64 \<Rightarrow> nat" where
  "entity_flag_width schema =
     (if 24 \<le> schema then 18 else if 23 \<le> schema then 17 else if 18 \<le> schema then 16
      else if 16 \<le> schema then 15 else if 14 \<le> schema then 14 else if 13 \<le> schema then 13
      else if 12 \<le> schema then 12 else if 11 \<le> schema then 11 else if 9 \<le> schema then 10
      else if 8 \<le> schema then 9 else if 7 \<le> schema then 8 else if 5 \<le> schema then 7
      else if 4 \<le> schema then 6 else 5)"

lemma entity_known_flags_mask:
  assumes "schema \<in> set supported_table_schemas"
  shows "entity_known_flags schema = mask (entity_flag_width schema)"
proof -
  have "list_all (\<lambda>s. entity_known_flags s = mask (entity_flag_width s)) supported_table_schemas"
    by (simp add: supported_table_schemas_def entity_known_flags_def entity_flag_width_def mask_numeral)
  with assms show ?thesis by (simp add: list_all_iff)
qed

lemma entity_flags_known:
  assumes "schema \<in> set supported_table_schemas"
    and "4 \<le> schema \<or> ef_runtime_value_domain e = None"
  shows "\<not> unknown_flags (entity_flags schema e) (entity_known_flags schema)"
proof (rule no_unknown_flags [OF _ entity_known_flags_mask [OF assms(1)]])
  fix i assume "bit (entity_flags schema e) i"
  then show "i < entity_flag_width schema"
    using assms(2)
    unfolding entity_flags_def bit_or_iff bit_flag entity_flag_width_def word_le_nat_alt
    by (elim disjE conjE) simp_all
qed

lemma decode_claim:
  assumes "\<not> (ef_symbol_claim e = ClaimUnresolved \<and> ef_symbol e \<noteq> [])"
    "\<not> (ef_symbol_claim e = ClaimCovering \<and> ef_symbol e = [])"
  shows "decode_symbol_claim (ef_symbol e = [])
    (5 \<le> schema \<and> ef_symbol_claim e = ClaimUnresolved
     \<or> 21 \<le> schema \<and> ef_symbol_claim e = ClaimCovering) (21 \<le> schema)
    = Inr (wire_claim schema (ef_symbol e) (ef_symbol_claim e))"
  using assms by (auto simp: decode_symbol_claim_def wire_claim_def)

lemma check_entityD:
  assumes "check_entity path i e = Inr u"
  shows "loc_path (ef_location e) = path" "loc_start_byte (ef_location e) \<le> loc_end_byte (ef_location e)"
    "\<not> (ef_symbol_claim e = ClaimUnresolved \<and> ef_symbol e \<noteq> [])"
    "\<not> (ef_symbol_claim e = ClaimCovering \<and> ef_symbol e = [])"
    "\<And>c. ef_constant_value e = Some c \<Longrightarrow> \<not> (cv_kind c = ConstNumber \<and> f64_is_nan (cv_number c))"
  using assms
  by (auto simp: check_entity_def validate_location_def not_less split: if_splits option.splits)

lemma entity_start:
  assumes "i64_of_u64 v = Some start" "prev < 0x8000000000000000"
  shows "start = v" "start < 0x8000000000000000" "add_signed prev (start - prev) label = Inr v"
proof -
  show v: "start = v" and lt: "start < 0x8000000000000000"
    using assms(1) by (auto simp: i64_of_u64_def split: if_splits)
  have "uint v < 2 ^ 63" "uint prev < 2 ^ 63" using lt v assms(2) by (auto simp: word_less_def)
  moreover have "0 \<le> uint v" "0 \<le> uint prev" by simp_all
  moreover have "word_of_int (uint v - uint prev) = v - prev" by simp
  ultimately have "i64_try_from (uint v - uint prev) = Some (v - prev)"
    unfolding i64_try_from_def by (smt (verit))
  then show "add_signed prev (start - prev) label = Inr v" unfolding v by (rule add_signed_diff)
qed

lemma writes_text_when:
  "writes (wwhen (s \<noteq> []) (w_text s))
     (\<lambda>strings. if s \<noteq> [] then cur_string_index strings label else dret []) (\<lambda>_. s)"
  by (cases "s = []") (simp_all add: wwhen_def writes_text writes_ret)

lemma writes_primitive_domain:
  "writes (wwhen c (w_u64 (primitive_value_domain_bits d)))
     (\<lambda>strings. if c then cur_parse parse_primitive_value_domain else dret 0)
     (\<lambda>_. if c then wire_primitive_domain d else 0)"
  by (cases c) (simp_all add: wwhen_def writes_parse parse_primitive_domain_bits writes_ret)

lemma non_empty_Some: "non_empty m = Some xs \<Longrightarrow> m = Some xs"
  by (auto simp: non_empty_def split: option.splits list.splits)

lemma map_option_id [simp]: "map_option (\<lambda>x. x) m = m"
  by (rule option.map_ident)

lemma writes_entity_fields:
  assumes fits: "ef_fits e"
    and not_nan: "\<And>c. ef_constant_value e = Some c \<Longrightarrow>
      \<not> (cv_kind c = ConstNumber \<and> f64_is_nan (cv_number c))"
    and claim: "\<not> (ef_symbol_claim e = ClaimUnresolved \<and> ef_symbol e \<noteq> [])"
      "\<not> (ef_symbol_claim e = ClaimCovering \<and> ef_symbol e = [])"
  shows "writes (w_entity_fields schema i e)
    (\<lambda>strings. decode_entity_fields strings schema (ef_location e) (ef_symbol e) (entity_flags schema e))
    (\<lambda>_. wire_entity schema e)"
proof -
  have td: "writes (wopt (ef_type_descriptor e) write_type_descriptor)
      (\<lambda>strings. dopt (ef_type_descriptor e \<noteq> None) (cur_type_descriptor strings))
      (\<lambda>_. ef_type_descriptor e)"
    using fits by (intro writes_opt_same writes_type_descriptor) (auto simp: ef_fits_def)
  have call: "writes (wopt (ef_resolved_call e) (\<lambda>call.
         wmap_err (enc_within ''entity resolved call'' i) (write_resolved_call call schema)))
      (\<lambda>strings. dopt (ef_resolved_call e \<noteq> None) (cur_resolved_call strings schema))
      (\<lambda>_. map_option (wire_call schema) (ef_resolved_call e))"
    using fits by (intro writes_opt writes_map_err writes_resolved_call) (auto simp: ef_fits_def)
  have callability: "writes (wopt (ef_callability e) (\<lambda>c. w_u64 (callability_code c schema)))
      (\<lambda>strings. dopt (ef_callability e \<noteq> None) (cur_parse (\<lambda>v. parse_callability v schema)))
      (\<lambda>_. map_option (wire_callability schema) (ef_callability e))"
    by (intro writes_opt writes_callability) simp
  have space: "writes (wopt (ef_reference_space e) (\<lambda>r. w_u64 (reference_space_code r)))
      (\<lambda>strings. dopt (ef_reference_space e \<noteq> None) (cur_parse parse_reference_space))
      (\<lambda>_. ef_reference_space e)"
    by (intro writes_opt_same writes_parse parse_reference_space_code)
  have domain1: "writes (wopt (ef_runtime_value_domain e) (\<lambda>d. w_u64 (runtime_value_domain_bits d)))
      (\<lambda>strings. dopt (ef_runtime_value_domain e \<noteq> None) (cur_parse parse_runtime_value_domain))
      (\<lambda>_. map_option wire_runtime_domain (ef_runtime_value_domain e))"
    by (intro writes_opt writes_parse parse_runtime_domain_bits) simp
  have domain2: "writes (wwhen (7 \<le> schema)
         (wopt (ef_call_result_domain e) (\<lambda>d. w_u64 (runtime_value_domain_bits d))))
      (\<lambda>strings. dopt (7 \<le> schema \<and> ef_call_result_domain e \<noteq> None) (cur_parse parse_runtime_value_domain))
      (\<lambda>_. if 7 \<le> schema then map_option wire_runtime_domain (ef_call_result_domain e) else None)"
    by (intro writes_opt_from writes_parse parse_runtime_domain_bits) simp
  have cval: "writes (wwhen (8 \<le> schema) (wopt (ef_constant_value e) w_constant_value))
      (\<lambda>strings. dopt (8 \<le> schema \<and> ef_constant_value e \<noteq> None) (cur_constant_value strings))
      (\<lambda>_. if 8 \<le> schema then map_option wire_constant (ef_constant_value e) else None)"
    by (intro writes_opt_from writes_constant not_nan) auto
  have array: "writes (wwhen (9 \<le> schema) (wopt (ef_array_shape e) (\<lambda>a. w_u64 (array_shape_code a))))
      (\<lambda>strings. dopt (9 \<le> schema \<and> ef_array_shape e \<noteq> None) (cur_parse parse_array_shape))
      (\<lambda>_. if 9 \<le> schema then map_option (\<lambda>a. a) (ef_array_shape e) else None)"
    by (intro writes_opt_from writes_parse parse_array_shape_code) simp
  have tuple: "writes (wwhen (11 \<le> schema) (wopt (ef_tuple_shape e) (w_tuple_shape schema)))
      (\<lambda>strings. dopt (11 \<le> schema \<and> ef_tuple_shape e \<noteq> None) (cur_tuple_shape schema))
      (\<lambda>_. if 11 \<le> schema then map_option (wire_tuple schema) (ef_tuple_shape e) else None)"
    by (intro writes_opt_from writes_tuple) simp
  have library: "writes (wwhen (12 \<le> schema) (wopt (non_empty (ef_library_types e)) w_names))
      (\<lambda>strings. dopt (12 \<le> schema \<and> non_empty (ef_library_types e) \<noteq> None)
        (cur_names strings ''library type''))
      (\<lambda>_. if 12 \<le> schema then map_option (\<lambda>x. x) (non_empty (ef_library_types e)) else None)"
    using fits by (intro writes_opt_from writes_names) (auto simp: ef_fits_def dest: non_empty_Some)
  have construct: "writes (wwhen (14 \<le> schema)
         (wopt (ef_constructability e) (\<lambda>c. w_u64 (constructability_code c))))
      (\<lambda>strings. dopt (14 \<le> schema \<and> ef_constructability e \<noteq> None) (cur_parse parse_constructability))
      (\<lambda>_. if 14 \<le> schema then map_option (\<lambda>x. x) (ef_constructability e) else None)"
    by (intro writes_opt_from writes_parse parse_constructability_code) simp
  have literals: "writes (wwhen (16 \<le> schema)
         (wopt (non_empty (ef_primitive_literal_candidates e)) (w_literal_candidates i)))
      (\<lambda>strings. dopt (16 \<le> schema \<and> non_empty (ef_primitive_literal_candidates e) \<noteq> None)
        (cur_literal_candidates strings))
      (\<lambda>_. if 16 \<le> schema
        then map_option (map wire_candidate) (non_empty (ef_primitive_literal_candidates e)) else None)"
    using fits by (intro writes_opt_from writes_literal_candidates)
      (auto simp: ef_fits_def dest: non_empty_Some)
  have binding: "writes (wwhen (18 \<le> schema)
         (wopt (ef_runtime_binding_kind e) (\<lambda>k. w_u64 (binding_kind_code k))))
      (\<lambda>strings. dopt (18 \<le> schema \<and> ef_runtime_binding_kind e \<noteq> None)
        (cur_parse parse_runtime_binding_kind))
      (\<lambda>_. if 18 \<le> schema then map_option (\<lambda>x. x) (ef_runtime_binding_kind e) else None)"
    by (intro writes_opt_from writes_parse parse_binding_kind_code) simp
  have keys: "writes (wwhen (23 \<le> schema) (wopt (ef_declared_keys e) w_names))
      (\<lambda>strings. dopt (23 \<le> schema \<and> ef_declared_keys e \<noteq> None) (cur_names strings ''declared key''))
      (\<lambda>_. if 23 \<le> schema then map_option (\<lambda>x. x) (ef_declared_keys e) else None)"
    using fits by (intro writes_opt_from writes_names) (auto simp: ef_fits_def)
  show ?thesis
    unfolding w_entity_fields_def decode_entity_fields_def entity_flag_bits
    apply (rule writes_bind [OF td])
    apply (rule writes_bind [OF call])
    apply (rule writes_bind [OF callability])
    apply (rule writes_bind [OF space])
    apply (rule writes_bind [OF writes_text_when])
    apply (rule writes_bind [OF domain1])
    apply (rule writes_bind [OF domain2])
    apply (rule writes_bind [OF cval])
    apply (rule writes_bind [OF array])
    apply (rule writes_bind [OF tuple])
    apply (rule writes_bind [OF library])
    apply (rule writes_bind [OF writes_primitive_domain])
    apply (rule writes_bind [OF construct])
    apply (rule writes_bind [OF literals])
    apply (rule writes_bind [OF binding])
    apply (rule writes_pure_tail [OF keys])
    apply (rule reads_dbind_pure [OF reads_dlift [OF decode_claim [OF claim]]])
    apply (cases e, simp add: wire_entity_def)
    done
qed

lemma writes_entity:
  assumes fits: "ef_fits e" and schema: "schema \<in> set supported_table_schemas"
    and domain: "4 \<le> schema \<or> ef_runtime_value_domain e = None"
    and prev: "prev < 0x8000000000000000"
  shows "writes (w_entity schema path (i, e) prev)
    (\<lambda>strings. decode_entity strings path schema prev) (\<lambda>start. (wire_entity schema e, start))"
  unfolding w_entity_def decode_entity_def prod.case
proof (rule writes_lift, rule writes_lift)
  fix u start
  assume check: "check_entity path i e = Inr u"
    and "ok_or (EncInvalid (EntityStartOverflows i)) (i64_of_u64 (loc_start_byte (ef_location e))) = Inr start"
  then have s: "i64_of_u64 (loc_start_byte (ef_location e)) = Some start"
    by (cases "i64_of_u64 (loc_start_byte (ef_location e))") simp_all
  note s1 = entity_start [OF s prev] and c1 = check_entityD [OF check]
  have l: "\<lparr>loc_path = path, loc_end_byte = loc_end_byte (ef_location e),
      loc_start_byte = loc_start_byte (ef_location e)\<rparr> = ef_location e"
    using c1(1) by (cases "ef_location e") simp
  show "writes (wbind (w_signed (start - prev)) (\<lambda>_.
     wbind (w_u64 (loc_end_byte (ef_location e) - loc_start_byte (ef_location e))) (\<lambda>_.
     wbind (w_text (ef_symbol e)) (\<lambda>_.
     wbind (w_u64 (entity_flags schema e)) (\<lambda>_.
     wbind (w_entity_fields schema i e) (\<lambda>_. wret start))))))
    (\<lambda>strings. dbind cur_signed (\<lambda>delta.
     dbind (dlift (add_signed prev delta ''entity start'')) (\<lambda>start.
     dbind cur_u64 (\<lambda>len.
     dbind (dlift (ok_or EntityEndOverflow (checked_add start len))) (\<lambda>end_byte.
     dbind (cur_string_index strings ''entity symbol'') (\<lambda>symbol.
     dbind cur_u64 (\<lambda>flags.
     dbind (dassert (\<not> unknown_flags flags (entity_known_flags schema))
       (UnknownFlags ''entity'' flags)) (\<lambda>_.
     dbind (decode_entity_fields strings schema
         \<lparr>loc_path = path, loc_end_byte = end_byte, loc_start_byte = start\<rparr> symbol flags) (\<lambda>entity.
     dret (entity, start)))))))))) (\<lambda>start. (wire_entity schema e, start))"
    apply (rule writes_bind [OF writes_signed])
    apply (rule writes_dlift [OF s1(3)])
    apply (rule writes_bind [OF writes_u64])
    apply (rule writes_dlift, simp add: c1(2))
    apply (rule writes_bind [OF writes_text])
    apply (rule writes_bind [OF writes_u64])
    apply (rule writes_dassert [OF entity_flags_known [OF schema domain]])
    apply (unfold l)
    apply (rule writes_bind [OF writes_entity_fields [OF fits c1(5,3,4)]], assumption)
    apply (simp add: writes_ret s1(1))
    done
qed

lemma w_entity_post:
  assumes "w_entity schema path x prev w = Inr (start, w')"
  shows "start < 0x8000000000000000"
proof -
  obtain i e where x: "x = (i, e)" by (cases x)
  from assms have "i64_of_u64 (loc_start_byte (ef_location e)) = Some start"
    unfolding x w_entity_def prod.case
    by (cases "i64_of_u64 (loc_start_byte (ef_location e))")
      (auto simp: wbind_def wlift_def wret_def wfail_def rbind_Inr_iff split: sum.splits)
  then show ?thesis by (auto simp: i64_of_u64_def split: if_splits)
qed

lemma writes_entity_run:
  assumes "list_all ef_fits es" "count_ok es" "schema \<in> set supported_table_schemas"
    "4 \<le> schema \<or> list_all (\<lambda>e. ef_runtime_value_domain e = None) es"
  shows "writes (write_entity_run path es schema) (\<lambda>strings. decode_entity_run strings path schema)
    (\<lambda>_. map (wire_entity schema) es)"
proof -
  have "writes (wfor_st (enumerate 0 es) (w_entity schema path) 0)
      (\<lambda>strings. drepeat_st (length es) (decode_entity strings path schema) 0)
      (\<lambda>_. map (\<lambda>x. wire_entity schema (snd x)) (enumerate 0 es))"
    by (rule writes_for_st_inv [where P = "\<lambda>s. s < 0x8000000000000000"
          and d = "\<lambda>strings. decode_entity strings path schema" and rs = "\<lambda>s. s"])
      (use assms in \<open>auto simp: in_set_enumerate_eq list_all_length intro!: writes_entity dest: w_entity_post\<close>)
  moreover have "map (\<lambda>x. wire_entity schema (snd x)) (enumerate 0 es) = map (wire_entity schema) es"
    by (metis (no_types, lifting) comp_apply map_eq_conv map_map map_snd_enumerate)
  ultimately show ?thesis
    unfolding write_entity_run_def decode_entity_run_def
    by (intro writes_bind [OF writes_count]) (use assms(2) in \<open>simp_all add: count_ok_def\<close>)
qed

section \<open>File facts are read back\<close>

lemma writes_source_call:
  assumes "sc_fits c"
  shows "writes (write_source_call c) cur_source_call (\<lambda>_. c)"
  unfolding write_source_call_def cur_source_call_def reader_state_default [symmetric]
  apply (rule writes_bind [OF writes_location], unfold prod.case)
  apply (rule writes_bind [OF writes_location], unfold prod.case)
  apply (rule writes_bind [OF writes_locations [OF assms [unfolded sc_fits_def count_ok_def]]])
  apply (rule writes_pure_tail [OF writes_text])
  apply (cases c, simp)
  done

lemma known_flag_word:
  "\<not> unknown_flags (flag a 0) 1" "\<not> unknown_flags (flag a 0 OR flag b 1 OR flag c 2) 7"
  by (rule no_unknown_flags [where k = 1] no_unknown_flags [where k = 3];
      auto simp: bit_or_iff mask_numeral)+

lemma writes_binding:
  assumes "count_ok (sb_names b)" "sc_fits (sb_initializer b)"
  shows "writes (w_binding b) cur_binding (\<lambda>_. b)"
  unfolding w_binding_def cur_binding_def
  apply (rule writes_bind [OF writes_u64])
  apply (rule writes_dassert [OF known_flag_word(1)])
  apply (rule writes_bind [OF writes_locations [OF assms(1) [unfolded count_ok_def]]])
  apply (rule writes_pure_tail [OF writes_source_call [OF assms(2)]])
  apply (cases b, simp)
  done

lemma writes_function:
  assumes "count_ok (fn_parameters x)"
  shows "writes (w_function x) cur_function (\<lambda>_. x)"
  unfolding w_function_def cur_function_def reader_state_default [symmetric]
  apply (rule writes_bind [OF writes_location], unfold prod.case)
  apply (rule writes_bind [OF writes_location], unfold prod.case)
  apply (rule writes_bind [OF writes_locations [OF assms(1) [unfolded count_ok_def]]])
  apply (rule writes_pure_tail [OF writes_u64])
  apply (rule reads_dbind_pure [OF reads_dassert [OF known_flag_word(2)]])
  apply (cases x, simp add: bit_or_iff)
  done

lemma writes_async_function:
  assumes "count_ok (aff_calls_after_await x)"
  shows "writes (w_async_function x) cur_async_function (\<lambda>_. x)"
  unfolding w_async_function_def cur_async_function_def reader_state_default [symmetric]
  apply (rule writes_bind [OF writes_location], unfold prod.case)
  apply (rule writes_bind [OF writes_text])
  apply (rule writes_bind [OF writes_text])
  apply (rule writes_bind [OF writes_u64])
  apply (rule writes_dassert [OF known_flag_word(1)])
  apply (rule writes_pure_tail [OF writes_locations [OF assms(1) [unfolded count_ok_def]]])
  apply (cases x, simp)
  done

lemma writes_file_body:
  assumes "ff_fits f"
  shows "writes (write_file_body f) (\<lambda>strings. decode_file_fact strings (ff_path f)) (\<lambda>_. f)"
proof -
  have counts: "length (ff_calls f) \<le> packed_collection_limit"
    "length (ff_bindings f) \<le> packed_collection_limit"
    "length (ff_functions f) \<le> packed_collection_limit"
    "length (ff_async_functions f) \<le> packed_collection_limit"
    using assms by (simp_all add: ff_fits_def count_ok_def)
  have calls: "writes (wfor (ff_calls f) write_source_call)
      (\<lambda>strings. drepeat (length (ff_calls f)) (cur_source_call strings)) (\<lambda>_. ff_calls f)"
    using assms by (intro writes_for_same writes_source_call) (auto simp: ff_fits_def list_all_iff)
  have bindings: "writes (wfor (ff_bindings f) w_binding)
      (\<lambda>strings. drepeat (length (ff_bindings f)) (cur_binding strings)) (\<lambda>_. ff_bindings f)"
    using assms by (intro writes_for_same writes_binding) (auto simp: ff_fits_def list_all_iff)
  have fns: "writes (wfor (ff_functions f) w_function)
      (\<lambda>strings. drepeat (length (ff_functions f)) (cur_function strings)) (\<lambda>_. ff_functions f)"
    using assms by (intro writes_for_same writes_function) (auto simp: ff_fits_def list_all_iff)
  have asyncs: "writes (wfor (ff_async_functions f) w_async_function)
      (\<lambda>strings. drepeat (length (ff_async_functions f)) (cur_async_function strings))
      (\<lambda>_. ff_async_functions f)"
    using assms by (intro writes_for_same writes_async_function) (auto simp: ff_fits_def list_all_iff)
  show ?thesis
    unfolding write_file_body_def decode_file_fact_def
    apply (rule writes_bind [OF writes_count [OF counts(1)]])
    apply (rule writes_bind [OF calls])
    apply (rule writes_bind [OF writes_count [OF counts(2)]])
    apply (rule writes_bind [OF bindings])
    apply (rule writes_bind [OF writes_count [OF counts(3)]])
    apply (rule writes_bind [OF fns])
    apply (rule writes_bind [OF writes_count [OF counts(4)]])
    apply (rule writes_pure_tail [OF asyncs])
    apply (cases f, simp)
    done
qed

section \<open>Operations are read back\<close>

lemma digest_pairs_lower:
  "even (length digits) \<Longrightarrow> list_all is_lower_hex digits \<Longrightarrow>
   \<exists>raw. digest_pairs digits = Some raw \<and> hex_bytes raw = digits \<and> length raw * 2 = length digits"
proof (induction digits rule: induct_list012)
  case (3 a b rest)
  then obtain raw where raw: "digest_pairs rest = Some raw" "hex_bytes raw = rest"
    "length raw * 2 = length rest" by auto
  obtain h where h: "hex_value (byte_of_char a) = Some h" "h < 16" "hex_digit (unat h) = a"
    using hex_value_lower [of a] 3 by auto
  obtain l where l: "hex_value (byte_of_char b) = Some l" "l < 16" "hex_digit (unat l) = b"
    using hex_value_lower [of b] 3 by auto
  have "(of_nat (unat h * 16 + unat l) :: u8) = push_bit 4 h OR l"
  proof -
    have disj: "push_bit 4 h AND l = 0"
    proof (rule bit_word_eqI)
      fix n
      have "bit l n \<Longrightarrow> n < 4" using bit_less_exp [of l 4 n] l(2) by simp
      then show "bit (push_bit 4 h AND l) n = bit 0 n" by (auto simp: bit_and_iff bit_push_bit_iff)
    qed
    have "(of_nat (unat h * 16 + unat l) :: u8) = push_bit 4 h + l"
      by (simp add: push_bit_eq_mult)
    then show ?thesis using disjunctive_add_eq_or [OF disj] by simp
  qed
  then show ?case
    using raw h l nibbles [OF h(2) l(2)] by (simp add: to_digit16_def hex_bytes_def)
qed (simp_all add: hex_bytes_def)

lemma digest_round_trip:
  assumes "source_hash_parse hash = Inr hash"
  obtains raw where "digest_bytes hash = Inr raw" "raw_digest raw = Inr hash" "length raw = 32"
proof -
  obtain digits where d: "strip_prefix sha256_prefix hash = Some digits" "length digits = 64"
    "list_all is_lower_hex digits" "hash = sha256_prefix @ digits"
    using assms
    by (cases "strip_prefix sha256_prefix hash")
      (auto simp: source_hash_parse_def strip_prefix_def prefix_def split: if_splits)
  obtain raw where r: "digest_pairs digits = Some raw" "hex_bytes raw = digits" "length raw = 32"
    using digest_pairs_lower [of digits] d(2,3) by auto
  show ?thesis
    using d r assms by (intro that [of raw]) (simp_all add: digest_bytes_def raw_digest_def)
qed

lemma writes_slot:
  assumes "\<And>x. slot = SlotReplace x \<Longrightarrow> writes (f x) d (\<lambda>_. view x)"
  shows "writes (w_slot slot f) (\<lambda>strings. decode_slot (slot_tag_of slot) (d strings))
    (\<lambda>_. map_slot_op view slot)"
proof (cases slot)
  case (SlotReplace x)
  have "writes (f x) (\<lambda>strings. dbind (d strings) (\<lambda>v. dret (SlotReplace v))) (\<lambda>_. SlotReplace (view x))"
    by (rule writes_pure_tail [OF assms [OF SlotReplace]]) simp
  then show ?thesis by (simp add: SlotReplace w_slot_def decode_slot_def)
qed (simp_all add: w_slot_def decode_slot_def writes_ret)


text \<open>The path operation that arrives, and the operations the decoder accepts.\<close>

definition wire_path_op :: "u64 \<Rightarrow> path_op \<Rightarrow> path_op" where
  "wire_path_op schema op =
     op\<lparr>po_entities := map_slot_op (map (wire_entity schema)) (po_entities op)\<rparr>"

definition entities_ok :: "u64 \<Rightarrow> str \<Rightarrow> entity_fact list \<Rightarrow> bool" where
  "entities_ok schema path es \<longleftrightarrow> es \<noteq> [] \<and> entity_run_is_canonical path es \<and> list_all ef_fits es
     \<and> count_ok es \<and> (4 \<le> schema \<or> list_all (\<lambda>e. ef_runtime_value_domain e = None) es)"

fun slot_all :: "('a \<Rightarrow> bool) \<Rightarrow> 'a slot_op \<Rightarrow> bool" where
  "slot_all P (SlotReplace v) = P v"
| "slot_all P _ = True"

definition path_op_ok :: "transition_mode \<Rightarrow> u64 \<Rightarrow> path_op \<Rightarrow> bool" where
  "path_op_ok mode schema op \<longleftrightarrow>
     \<not> (po_source op = SlotUnchanged \<and> po_entities op = SlotUnchanged \<and> po_file op = SlotUnchanged)
     \<and> (mode = ModeFull \<longrightarrow>
          po_source op \<noteq> SlotRemove \<and> po_entities op \<noteq> SlotRemove \<and> po_file op \<noteq> SlotRemove)
     \<and> slot_all (\<lambda>hash. source_hash_parse hash = Inr hash) (po_source op)
     \<and> slot_all (entities_ok schema (po_path op)) (po_entities op)
     \<and> slot_all ff_fits (po_file op)"

lemma slot_tag_cases: "slot_tag_of s = 0 \<or> slot_tag_of s = 1 \<or> slot_tag_of s = 2"
  by (cases s) simp_all

lemma path_flag_tags:
  assumes "x = 0 \<or> x = 1 \<or> x = (2 :: u64)" "y = 0 \<or> y = 1 \<or> y = (2 :: u64)"
    "z = 0 \<or> z = 1 \<or> z = (2 :: u64)"
  defines "flags \<equiv> push_bit 0 x OR push_bit 2 y OR push_bit 4 z"
  shows "\<not> unknown_flags flags 0x3F" "slot_tag (drop_bit 0 flags AND 3) l = Inr x"
    "slot_tag (drop_bit 2 flags AND 3) l = Inr y" "slot_tag (drop_bit 4 flags AND 3) l = Inr z"
  using assms(1-3) unfolding flags_def
  by (elim disjE; simp add: unknown_flags_def slot_tag_def push_bit_eq_mult drop_bit_eq_div)+

lemma wire_entity_location [simp]: "ef_location (wire_entity schema e) = ef_location e"
  by (simp add: wire_entity_def)

lemma wire_run_canonical:
  "entity_run_is_canonical path (map (wire_entity schema) es) = entity_run_is_canonical path es"
  by (simp add: entity_run_is_canonical_def list_all_iff successively_map entity_key_def)

lemma writes_path_op:
  assumes ok: "path_op_ok mode schema op" and schema: "schema \<in> set supported_table_schemas"
    and order: "case prev of None \<Rightarrow> True | Some p \<Rightarrow> p < po_path op"
  shows "writes (write_path_op op schema) (\<lambda>strings. decode_path_op strings mode schema prev)
    (\<lambda>_. (wire_path_op schema op, Some (po_path op)))"
proof -
  have source: "writes (w_slot (po_source op) (\<lambda>source. wbind (wlift (digest_bytes source)) w_raw))
      (\<lambda>strings. decode_slot (slot_tag_of (po_source op))
        (dbind (cur_raw 32) (\<lambda>raw. dlift (raw_digest raw)))) (\<lambda>_. map_slot_op (\<lambda>x. x) (po_source op))"
  proof (rule writes_slot)
    fix hash assume "po_source op = SlotReplace hash"
    then have "source_hash_parse hash = Inr hash" using ok by (simp add: path_op_ok_def)
    then obtain raw where r: "digest_bytes hash = Inr raw" "raw_digest raw = Inr hash" "length raw = 32"
      by (rule digest_round_trip)
    have "writes (w_raw raw) (\<lambda>strings. dbind (cur_raw 32) (\<lambda>raw. dlift (raw_digest raw))) (\<lambda>_. hash)"
      by (rule writes_pure_tail [OF writes_raw]) (simp_all add: r reads_dlift)
    then show "writes (wbind (wlift (digest_bytes hash)) w_raw)
        (\<lambda>strings. dbind (cur_raw 32) (\<lambda>raw. dlift (raw_digest raw))) (\<lambda>_. hash)"
      by (intro writes_lift) (simp add: r(1))
  qed
  have entities: "writes (w_slot (po_entities op) (\<lambda>es.
         wmap_err (\<lambda>e. EncInvalid (EntityReplacementFor (po_path op) e))
           (write_entity_run (po_path op) es schema)))
      (\<lambda>strings. decode_slot (slot_tag_of (po_entities op))
        (decode_entity_replacement strings (po_path op) schema))
      (\<lambda>_. map_slot_op (map (wire_entity schema)) (po_entities op))"
  proof (rule writes_slot, rule writes_map_err)
    fix es assume "po_entities op = SlotReplace es"
    then have es: "entities_ok schema (po_path op) es" using ok by (simp add: path_op_ok_def)
    show "writes (write_entity_run (po_path op) es schema)
        (\<lambda>strings. decode_entity_replacement strings (po_path op) schema) (\<lambda>_. map (wire_entity schema) es)"
      unfolding decode_entity_replacement_def
      by (rule writes_pure_tail [OF writes_entity_run],
          use es schema in \<open>auto simp: entities_ok_def wire_run_canonical
            intro!: reads_dbind_pure [OF reads_dassert]\<close>)
  qed
  have files: "writes (w_slot (po_file op) (w_file_replacement (po_path op)))
      (\<lambda>strings. decode_slot (slot_tag_of (po_file op)) (decode_file_fact strings (po_path op)))
      (\<lambda>_. map_slot_op (\<lambda>x. x) (po_file op))"
  proof (rule writes_slot)
    fix f assume "po_file op = SlotReplace f"
    then have "ff_fits f" using ok by (simp add: path_op_ok_def)
    then show "writes (w_file_replacement (po_path op) f)
        (\<lambda>strings. decode_file_fact strings (po_path op)) (\<lambda>_. f)"
      unfolding w_file_replacement_def using writes_file_body [of f] by (intro writes_assert) simp
  qed
  note tags = path_flag_tags [OF slot_tag_cases slot_tag_cases slot_tag_cases]
  have not_empty: "[slot_tag_of (po_source op), slot_tag_of (po_entities op), slot_tag_of (po_file op)]
      \<noteq> [0, 0, 0]"
    using ok by (cases "po_source op"; cases "po_entities op"; cases "po_file op")
      (simp_all add: path_op_ok_def)
  have no_remove: "\<not> (mode = ModeFull \<and>
      2 \<in> set [slot_tag_of (po_source op), slot_tag_of (po_entities op), slot_tag_of (po_file op)])"
    using ok by (cases "po_source op"; cases "po_entities op"; cases "po_file op")
      (simp_all add: path_op_ok_def)
  show ?thesis
    unfolding write_path_op_def decode_path_op_def
    apply (rule writes_assert)
    apply (rule writes_bind [OF writes_text])
    apply (rule writes_dassert, assumption)
    apply (rule writes_dassert [OF order])
    apply (rule writes_bind [OF writes_u64])
    apply (rule writes_dassert [OF tags(1)])
    apply (rule writes_dlift [OF tags(2)])
    apply (rule writes_dlift [OF tags(3)])
    apply (rule writes_dlift [OF tags(4)])
    apply (rule writes_dassert [OF not_empty])
    apply (rule writes_dassert [OF no_remove])
    apply (rule writes_bind [OF source])
    apply (rule writes_bind [OF entities])
    apply (rule writes_pure_tail [OF files])
    apply (cases op, simp add: wire_path_op_def slot_op.map_ident)
    done
qed

definition wire_symbol :: "symbol_fact \<Rightarrow> symbol_fact" where
  "wire_symbol s = s\<lparr>sf_references := (if sf_alias_target s = [] then sf_references s else [])\<rparr>"

fun wire_symbol_op :: "symbol_op_ref \<Rightarrow> symbol_op" where
  "wire_symbol_op \<lparr>sor_id = ident, sor_body = BodyReplace row\<rparr> = SymReplace (wire_symbol row)"
| "wire_symbol_op \<lparr>sor_id = ident, sor_body = BodyRemove\<rparr> = SymRemove ident"
| "wire_symbol_op \<lparr>sor_id = ident, sor_body = BodyReplaceReferencePath path references\<rparr> =
     SymReplaceReferencePath ident path references"

fun body_path :: "symbol_body \<Rightarrow> str" where
  "body_path (BodyReplaceReferencePath path references) = path"
| "body_path _ = []"

definition symbol_ref_key :: "symbol_op_ref \<Rightarrow> symbol_key" where
  "symbol_ref_key op = (sor_id op, symbol_body_tag (sor_body op), body_path (sor_body op))"

fun symbol_body_ok :: "symbol_body \<Rightarrow> bool" where
  "symbol_body_ok (BodyReplace row) \<longleftrightarrow> count_ok (sf_declarations row)
     \<and> (sf_alias_target row = [] \<longrightarrow>
          count_ok (sf_references row) \<and> locations_are_canonical (sf_references row))"
| "symbol_body_ok BodyRemove \<longleftrightarrow> True"
| "symbol_body_ok (BodyReplaceReferencePath path references) \<longleftrightarrow>
     count_ok references \<and> locations_are_canonical references"

lemma header_word:
  assumes "k < packed_collection_limit" "tag < (3 :: u64)"
  shows "(push_bit 2 (of_nat k) OR tag) AND 3 = tag" "tag \<noteq> 3"
    "unat (drop_bit 2 (push_bit 2 (of_nat k :: u64) OR tag)) = k"
proof -
  have kb: "bit (of_nat k :: u64) n \<Longrightarrow> n < 20" for n
    using assms(1) bit_less_exp [of "of_nat k :: u64" 20 n] unat_limit [OF assms(1)]
    by (simp add: word_less_nat_alt packed_collection_limit_def)
  have "tag < 2 ^ 2" using assms(2) by (simp add: word_less_nat_alt)
  then have tb: "bit tag n \<Longrightarrow> n < 2" for n by (rule bit_less_exp)
  have m: "(3 :: u64) = mask 2" by (simp add: mask_numeral)
  show t: "(push_bit 2 (of_nat k) OR tag) AND 3 = tag"
    unfolding m by (rule bit_word_eqI)
      (auto simp: bit_and_iff bit_or_iff bit_push_bit_iff bit_mask_iff possible_bit_def dest: tb)
  show "tag \<noteq> 3" using assms(2) by auto
  have "drop_bit 2 (push_bit 2 (of_nat k :: u64) OR tag) = of_nat k"
  proof (rule bit_word_eqI)
    fix n
    show "bit (drop_bit 2 (push_bit 2 (of_nat k :: u64) OR tag)) n = bit (of_nat k :: u64) n"
      unfolding bit_drop_bit_eq comp_def bit_or_iff bit_push_bit_iff
      by (auto simp: possible_bit_def dest: kb tb)
  qed
  then show "unat (drop_bit 2 (push_bit 2 (of_nat k :: u64) OR tag)) = k"
    by (simp only: unat_limit [OF assms(1)])
qed

lemma wbind_wret: "wbind (wret r) g = g r"
  by (rule ext) (simp add: wbind_def wret_def)

lemma symbol_body_tag_less: "symbol_body_tag b < 3"
  by (cases b) simp_all

lemma reads_symbol_header_delta:
  assumes "get_at strings k = Some ident" "k < packed_collection_limit" "tag < 3"
  shows "reads (decode_symbol_header strings ModeDelta) (uvarint (push_bit 2 (of_nat k) OR tag)) (ident, tag)"
  unfolding decode_symbol_header_def transition_mode.case
  apply (rule reads_dbind_ret [OF reads_cur_u64])
  apply (rule reads_dbind_pure [OF reads_dlift])
   apply (simp only: Let_def header_word [OF assms(2,3)] if_False)
  apply (unfold prod.case)
  apply (rule reads_dbind_pure [OF reads_dlift])
   apply (simp only: header_word [OF assms(2,3)] assms(1) ok_or_simps)
  apply simp
  done

lemma reads_symbol_header_full:
  assumes "get_at strings k = Some ident" "k < packed_collection_limit"
  shows "reads (decode_symbol_header strings ModeFull) (uvarint (of_nat k)) (ident, 0)"
  unfolding decode_symbol_header_def transition_mode.case
  apply (rule reads_dbind_ret [OF reads_cur_u64])
  apply (rule reads_dbind_pure [OF reads_dlift [OF refl]], unfold prod.case)
  apply (rule reads_dbind_pure [OF reads_dlift])
   apply (simp only: unat_limit [OF assms(2)] assms(1) ok_or_simps)
  apply simp
  done

lemma writes_symbol_header:
  "writes (wbind (w_intern (sor_id op)) (\<lambda>ident.
      case mode of
        ModeFull \<Rightarrow>
          wbind (wassert (symbol_body_tag (sor_body op) = 0)
            (EncInvalid (FullSymbolTag (symbol_body_tag (sor_body op))))) (\<lambda>_. w_u64 ident)
      | ModeDelta \<Rightarrow> w_u64 (push_bit 2 ident OR symbol_body_tag (sor_body op))))
   (\<lambda>strings. decode_symbol_header strings mode)
   (\<lambda>_. (sor_id op, symbol_body_tag (sor_body op)))"
proof (cases mode)
  case ModeDelta
  show ?thesis
    unfolding ModeDelta transition_mode.case
    by (rule writes_intern_u64 [where h = "\<lambda>i. push_bit 2 i OR symbol_body_tag (sor_body op)"])
      (rule reads_symbol_header_delta [OF _ _ symbol_body_tag_less])
next
  case ModeFull
  have w: "writes (wbind (w_intern (sor_id op)) (\<lambda>ident. w_u64 ident))
      (\<lambda>strings. decode_symbol_header strings ModeFull) (\<lambda>_. (sor_id op, 0))"
    by (rule writes_intern_u64 [where h = "\<lambda>i. i"]) (rule reads_symbol_header_full)
  show ?thesis
  proof (cases "symbol_body_tag (sor_body op) = 0")
    case True
    with w show ?thesis
      by (simp add: ModeFull wassert_def wbind_wret)
  next
    case False
    show ?thesis
      by (rule writes_same_runs [OF writes_fail])
        (use False in \<open>auto simp: ModeFull wassert_def wbind_def wfail_def rbind_Inr_iff\<close>)
  qed
qed

lemma for_checks_run:
  "wfor xs (\<lambda>x. wlift (c x)) w = Inr (r, w') \<Longrightarrow> w' = w \<and> (\<forall>x \<in> set xs. \<exists>u. c x = Inr u)"
  by (induction xs) (auto simp: wret_def wbind_def wlift_def wfail_def rbind_Inr_iff split: sum.splits)

lemma writes_checks:
  assumes "(\<forall>x \<in> set xs. \<exists>u. c x = Inr u) \<Longrightarrow> writes (g ()) d v"
  shows "writes (wbind (wfor xs (\<lambda>x. wlift (c x))) g) d v"
proof (cases "\<forall>x \<in> set xs. \<exists>u. c x = Inr u")
  case True
  show ?thesis
    by (rule writes_same_runs [OF assms [OF True]])
      (auto simp: wbind_def rbind_Inr_iff dest: for_checks_run)
next
  case False
  show ?thesis
    by (rule writes_same_runs [OF writes_fail])
      (use False in \<open>auto simp: wbind_def rbind_Inr_iff dest: for_checks_run\<close>)
qed

lemma writes_symbol_replacement:
  assumes ok: "symbol_body_ok (BodyReplace row)" and ident: "sf_id row = ident"
  shows "writes (wbind (w_text (sf_alias_target row)) (\<lambda>_.
          wbind (write_declarations (sf_declarations row)) (\<lambda>_.
          if sf_alias_target row = [] then w_locations (sf_references row) else w_u64 0)))
      (\<lambda>strings. dbind (decode_symbol_replacement strings ident) (\<lambda>operation. dret (operation, [])))
      (\<lambda>_. (SymReplace (wire_symbol row), []))"
proof -
  let ?refs = "if sf_alias_target row = [] then sf_references row else []"
  have refs: "writes (if sf_alias_target row = [] then w_locations (sf_references row) else w_u64 0)
      cur_locations (\<lambda>_. ?refs)"
  proof (cases "sf_alias_target row = []")
    case True
    with ok show ?thesis by (simp add: writes_locations count_ok_def)
  next
    case False
    have "writes (w_u64 (of_nat 0)) cur_locations (\<lambda>_. [])"
      unfolding cur_locations_def
      by (rule writes_pure_tail [OF writes_count]) simp_all
    with False show ?thesis by simp
  qed
  have canon: "locations_are_canonical ?refs" "sf_alias_target row = [] \<or> ?refs = []"
    using ok by (auto simp: locations_are_canonical_def)
  have "writes (wbind (w_text (sf_alias_target row)) (\<lambda>_.
          wbind (write_declarations (sf_declarations row)) (\<lambda>_.
          if sf_alias_target row = [] then w_locations (sf_references row) else w_u64 0)))
      (\<lambda>strings. decode_symbol_replacement strings ident) (\<lambda>_. SymReplace (wire_symbol row))"
    unfolding decode_symbol_replacement_def
    apply (rule writes_bind [OF writes_text])
    apply (rule writes_bind [OF writes_declarations], use ok in simp)
    apply (rule writes_pure_tail [OF refs])
    apply (rule reads_dbind_pure [OF reads_dassert [OF canon(1)]])
    apply (rule reads_dbind_pure [OF reads_dassert [OF canon(2)]])
    apply (cases row, use ident in \<open>simp add: wire_symbol_def\<close>)
    done
  then show ?thesis by (rule writes_pure_tail) simp
qed

lemma checked_references:
  assumes "\<forall>x \<in> set (enumerate 0 references). \<exists>u. check_reference path x = Inr u"
  shows "list_all (\<lambda>r. loc_path r = path) references"
  unfolding list_all_length
proof (intro allI impI)
  fix n assume "n < length references"
  then have "(n, references ! n) \<in> set (enumerate 0 references)" by (simp add: in_set_enumerate_eq)
  with assms obtain u where "check_reference path (n, references ! n) = Inr u" by blast
  then show "loc_path (references ! n) = path" by (simp add: check_reference_def split: if_splits)
qed

lemma writes_reference_replacement:
  assumes ok: "symbol_body_ok (BodyReplaceReferencePath path references)" and path: "path \<noteq> []"
  shows "writes (wbind (w_text path) (\<lambda>_.
          wbind (wfor (enumerate 0 references) (\<lambda>r. wlift (check_reference path r))) (\<lambda>_.
          w_locations references)))
      (\<lambda>strings. decode_reference_replacement strings ident)
      (\<lambda>_. (SymReplaceReferencePath ident path references, path))"
  unfolding decode_reference_replacement_def
  apply (rule writes_bind [OF writes_text])
  apply (rule writes_dassert [OF path])
  apply (rule writes_checks)
  apply (rule writes_pure_tail [OF writes_locations], use ok in \<open>simp add: count_ok_def\<close>)
  apply (rule reads_dbind_pure [OF reads_dassert])
   apply (use ok checked_references in auto)
  done

lemma writes_symbol_body:
  assumes "symbol_body_ok body"
  shows "writes (w_symbol_body ident body)
      (\<lambda>strings. if symbol_body_tag body = 0 then
              dbind (decode_symbol_replacement strings ident) (\<lambda>operation. dret (operation, []))
            else if symbol_body_tag body = 1 then dret (SymRemove ident, [])
            else decode_reference_replacement strings ident)
      (\<lambda>_. (wire_symbol_op \<lparr>sor_id = ident, sor_body = body\<rparr>, body_path body))"
proof (cases body)
  case (BodyReplace row)
  show ?thesis
    unfolding w_symbol_body_def BodyReplace symbol_body.case
    by (rule writes_assert)
      (use writes_symbol_replacement [OF assms [unfolded BodyReplace]] in simp)
next
  case (BodyReplaceReferencePath path references)
  show ?thesis
    unfolding w_symbol_body_def BodyReplaceReferencePath symbol_body.case
    by (rule writes_assert)
      (use writes_reference_replacement [OF assms [unfolded BodyReplaceReferencePath]] in simp)
qed (simp add: w_symbol_body_def writes_ret)

lemma symbol_header_post:
  assumes "wbind (w_intern ident) (\<lambda>i.
      case mode of
        ModeFull \<Rightarrow> wbind (wassert (tag = 0) e) (\<lambda>_. w_u64 i)
      | ModeDelta \<Rightarrow> w_u64 (h i)) w = Inr (r, w')"
  shows "\<not> (mode = ModeFull \<and> tag \<noteq> 0)"
  using assms
  by (auto simp: wbind_def wassert_def wfail_def rbind_Inr_iff split: if_splits)

lemma writes_symbol_op:
  assumes ok: "symbol_body_ok (sor_body op)"
    and order: "case prev of None \<Rightarrow> True | Some p \<Rightarrow> p < symbol_ref_key op"
  shows "writes (write_symbol_op mode op) (\<lambda>strings. decode_symbol_op strings mode prev)
    (\<lambda>_. (wire_symbol_op op, Some (symbol_ref_key op)))"
  unfolding write_symbol_op_def decode_symbol_op_def
  apply (rule writes_assert)
  apply (rule writes_bind_post [OF writes_symbol_header symbol_header_post], assumption)
  apply (unfold prod.case)
  apply (rule writes_dassert, assumption)
  apply (rule writes_dassert, assumption)
  apply (rule writes_pure_tail [OF writes_symbol_body [OF ok]])
  apply (unfold prod.case)
  apply (rule reads_dbind_pure [OF reads_dassert [OF order [unfolded symbol_ref_key_def]]])
  apply (cases op, simp add: symbol_ref_key_def)
  done

end
