(* ===== verification/TF_Transition.thy ===== *)
theory TF_Transition
  imports TF_Roundtrip
begin

unbundle bit_operations_syntax

text \<open>
  The transition writer of \<^verbatim>\<open>rust/crates/typefacts/src/producer/encoder.rs\<close>: the plan, its rows,
  the header and dictionary in front of them, and \<^verbatim>\<open>reencode_table_transition\<close>. The main lemma,
  \<open>decode_write\<close>, says that the decoder reads every frame written without a sink from a plan in
  canonical order as the transition the schema can carry.
\<close>

section \<open>Plans and frames\<close>

record wire_plan =
  wp_mode :: transition_mode
  wp_table_schema :: u64
  wp_base_generation :: u64
  wp_target_generation :: u64
  wp_project_id :: str
  wp_base_state_token :: str
  wp_paths :: "path_op list"
  wp_symbols :: "symbol_op_ref list"

text \<open>\<^verbatim>\<open>rows.intern(value)\<close> with the index ignored.\<close>

definition w_intern_only :: "str \<Rightarrow> ('s, unit) writer" where
  "w_intern_only value = wbind (w_intern value) (\<lambda>_. wret ())"

definition w_intern_keys :: "wire_plan \<Rightarrow> ('s, unit) writer" where
  "w_intern_keys plan =
     wbind (wfor (wp_paths plan) (\<lambda>op. w_intern_only (po_path op))) (\<lambda>_.
     wbind (wfor (wp_symbols plan) (\<lambda>op. w_intern_only (sor_id op))) (\<lambda>_.
     wfor (wp_symbols plan) (\<lambda>op.
       case sor_body op of
         BodyReplaceReferencePath path references \<Rightarrow> w_intern_only path
       | _ \<Rightarrow> wret ())))"

definition w_transition_rows :: "wire_plan \<Rightarrow> ('s, unit) writer" where
  "w_transition_rows plan =
     wbind (w_text (wp_project_id plan)) (\<lambda>_.
     wbind (w_text (wp_base_state_token plan)) (\<lambda>_.
     wbind (w_intern_keys plan) (\<lambda>_.
     wbind (w_u64 (of_nat (length (wp_paths plan)))) (\<lambda>_.
     wbind (wfor (enumerate 0 (wp_paths plan)) (\<lambda>(index, op).
       wmap_err (enc_within ''encode path operation'' index)
         (write_path_op op (wp_table_schema plan)))) (\<lambda>_.
     wbind (w_u64 (of_nat (length (wp_symbols plan)))) (\<lambda>_.
     wfor (enumerate 0 (wp_symbols plan)) (\<lambda>(index, op).
       wmap_err (enc_within ''encode symbol operation'' index)
         (write_symbol_op (wp_mode plan) op))))))))"

fun mode_code :: "transition_mode \<Rightarrow> u64" where
  "mode_code ModeFull = 0"
| "mode_code ModeDelta = 1"

definition transition_header :: "wire_plan \<Rightarrow> u8 list" where
  "transition_header plan =
     push_uvarint (push_uvarint (push_uvarint (push_uvarint (push_uvarint [] 1)
       (mode_code (wp_mode plan))) (wp_table_schema plan)) (wp_base_generation plan))
       (wp_target_generation plan)"

text \<open>The frame, empty when it went to the sink, and the sink as the caller sees it afterwards.\<close>

definition write_transition ::
    "wire_plan \<Rightarrow> 's dyn_sink option \<Rightarrow> encode_error + (u8 list \<times> 's dyn_sink option)" where
  "write_transition plan sink =
     rbind (w_transition_rows plan (rw_new sink)) (\<lambda>(_, w).
     rbind (rw_finish w) (\<lambda>(row_bytes, dict, sink').
     let frame = append_packed_dictionary (transition_header plan) dict in
     case sink' of
       Some s \<Rightarrow>
         (case ds_finish s frame (ds_state s) of
            (Inl e, state) \<Rightarrow> Inl (EncSink ''finish transition arena'' e)
          | (Inr _, state) \<Rightarrow> Inr ([], Some (s\<lparr>ds_state := state\<rparr>)))
     | None \<Rightarrow> Inr (frame @ row_bytes, None)))"

text \<open>The frame that \<^verbatim>\<open>write_transition(plan, None)\<close> returns.\<close>

definition transition_frame :: "wire_plan \<Rightarrow> encode_error + u8 list" where
  "transition_frame plan =
     rbind (write_transition plan (None :: unit dyn_sink option)) (\<lambda>(bytes, _). Inr bytes)"

section \<open>Re-encoding a decoded transition\<close>

fun symbol_ref :: "symbol_op \<Rightarrow> symbol_op_ref" where
  "symbol_ref (SymReplace row) = \<lparr>sor_id = sf_id row, sor_body = BodyReplace row\<rparr>"
| "symbol_ref (SymRemove ident) = \<lparr>sor_id = ident, sor_body = BodyRemove\<rparr>"
| "symbol_ref (SymReplaceReferencePath ident path references) =
     \<lparr>sor_id = ident, sor_body = BodyReplaceReferencePath path references\<rparr>"

definition transition_plan :: "wire_table_transition \<Rightarrow> wire_plan" where
  "transition_plan t =
     \<lparr>wp_mode = wt_mode t, wp_table_schema = wt_table_schema t,
      wp_base_generation = wt_base_generation t, wp_target_generation = wt_target_generation t,
      wp_project_id = wt_project_id t, wp_base_state_token = wt_base_state_token t,
      wp_paths = wt_paths t, wp_symbols = map symbol_ref (wt_symbols t)\<rparr>"

datatype reencode_error = ReDecode decode_error | ReEncode encode_error

definition reencode_table_transition :: "u8 list \<Rightarrow> reencode_error + u8 list" where
  "reencode_table_transition input =
     (case decode_table_transition input of
        Inl e \<Rightarrow> Inl (ReDecode e)
      | Inr t \<Rightarrow>
          (case transition_frame (transition_plan t) of
             Inl e \<Rightarrow> Inl (ReEncode e)
           | Inr bytes \<Rightarrow> Inr bytes))"

record transition_summary =
  tsum_mode :: transition_mode
  tsum_table_schema :: u64
  tsum_base_generation :: u64
  tsum_target_generation :: u64
  tsum_project_id :: str
  tsum_base_state_token :: str
  tsum_path_operations :: nat
  tsum_symbol_operations :: nat
  tsum_symbol_ids :: "str list"
  tsum_entity_symbol_ids :: "str list"

text \<open>The symbols of the entity rows that a transition replaces, without the empty one.\<close>

definition op_entity_symbols :: "path_op \<Rightarrow> str list" where
  "op_entity_symbols op =
     (case po_entities op of
        SlotReplace entities \<Rightarrow> filter (\<lambda>s. s \<noteq> []) (map ef_symbol entities)
      | _ \<Rightarrow> [])"

definition inspect_table_transition :: "u8 list \<Rightarrow> decode_error + transition_summary" where
  "inspect_table_transition input =
     rbind (decode_table_transition input) (\<lambda>t. Inr
       \<lparr>tsum_mode = wt_mode t, tsum_table_schema = wt_table_schema t,
        tsum_base_generation = wt_base_generation t, tsum_target_generation = wt_target_generation t,
        tsum_project_id = wt_project_id t, tsum_base_state_token = wt_base_state_token t,
        tsum_path_operations = length (wt_paths t), tsum_symbol_operations = length (wt_symbols t),
        tsum_symbol_ids = map symbol_op_id (wt_symbols t),
        tsum_entity_symbol_ids = sorted_list_of_set (set (concat (map op_entity_symbols (wt_paths t))))\<rparr>)"

section \<open>The rows of a plan\<close>

lemma dbind_dret: "dbind (dret a) f = f a"
  by (rule ext) (simp add: dbind_def dret_def)

text \<open>A step that only extends the dictionary.\<close>

lemma writes_intern_only: "writes (w_intern_only s) (\<lambda>strings. dret ()) (\<lambda>_. ())"
proof (rule writesI)
  fix w :: "'s row_writer" and r w'
  assume w: "rw_sink w = None" "dict_inv (rw_dict w)" and run: "w_intern_only s w = Inr (r, w')"
  obtain index dict where i: "dict_intern s (rw_dict w) = (index, dict)"
    by (cases "dict_intern s (rw_dict w)")
  have w': "w' = w\<lparr>rw_dict := dict\<rparr>"
    using run by (simp add: w_intern_only_def wbind_def w_intern_def i wret_def)
  show "rw_sink w' = None \<and> rw_error w' = rw_error w \<and> dict_inv (rw_dict w')
     \<and> prefix (rw_values w) (rw_values w')
     \<and> (\<exists>out. rw_bytes w' = rw_bytes w @ out
          \<and> (\<forall>strings. prefix (rw_values w') strings \<and> length strings \<le> packed_collection_limit
               \<longrightarrow> reads (dret ()) out ()))"
    using w dict_intern_spec(1,2) [OF w(2) i] by (simp add: w')
qed

lemma writes_silent:
  assumes "writes f (\<lambda>strings. dret ()) (\<lambda>_. ())" "\<And>r. writes (g r) d v"
  shows "writes (wbind f g) d v"
  using writes_bind [OF assms(1), of g "\<lambda>_. d" v] assms(2) by (simp add: dbind_dret)

lemma writes_silent_for:
  assumes "\<And>x. x \<in> set xs \<Longrightarrow> writes (f x) (\<lambda>strings. dret ()) (\<lambda>_. ())"
  shows "writes (wfor xs f) (\<lambda>strings. dret ()) (\<lambda>_. ())"
  using assms by (induction xs) (auto intro: writes_silent writes_ret)

lemma writes_intern_keys: "writes (w_intern_keys plan) (\<lambda>strings. dret ()) (\<lambda>_. ())"
  unfolding w_intern_keys_def
  by (intro writes_silent writes_silent_for)
    (auto intro: writes_intern_only writes_ret split: symbol_body.split)

text \<open>A loop whose reader remembers the previous key.\<close>

lemma writes_for_keys:
  assumes "\<And>x s. x \<in> set xs \<Longrightarrow> ok s x \<Longrightarrow> writes (f x) (\<lambda>strings. d strings s) (\<lambda>_. (view x, next_key x))"
    and "case xs of [] \<Rightarrow> True | x # _ \<Rightarrow> ok s x" "successively (\<lambda>x y. ok (next_key x) y) xs"
  shows "writes (wfor xs f) (\<lambda>strings. drepeat_st (length xs) (d strings) s) (\<lambda>_. map view xs)"
  using assms
proof (induction xs arbitrary: s)
  case Nil
  then show ?case by (simp add: writes_ret)
next
  case (Cons x xs)
  have "case xs of [] \<Rightarrow> True | y # _ \<Rightarrow> ok (next_key x) y"
    using Cons.prems(3) by (cases xs) auto
  then have IH: "writes (wfor xs f) (\<lambda>strings. drepeat_st (length xs) (d strings) (next_key x))
      (\<lambda>_. map view xs)"
    using Cons.prems by (intro Cons.IH) (auto simp: successively_Cons)
  have hd: "writes (f x) (\<lambda>strings. d strings s) (\<lambda>_. (view x, next_key x))"
    using Cons.prems(1,2) by simp
  have "writes (wfor xs f)
      (\<lambda>strings. dbind (drepeat_st (length xs) (d strings) (next_key x)) (\<lambda>ys. dret (view x # ys)))
      (\<lambda>_. map view (x # xs))"
    by (rule writes_pure_tail [OF IH]) simp
  then show ?case
    unfolding wfor.simps list.size add_0_right add_Suc_right drepeat_st.simps
    by (intro writes_bind [OF hd]) simp
qed

text \<open>A loop over indexed elements whose index only reaches the error messages.\<close>

lemma writes_for_indexed:
  assumes "writes (wfor xs f) d v"
    and "\<And>i x w r. g (i, x) w = Inr r \<Longrightarrow> f x w = Inr r"
  shows "writes (wfor (enumerate n xs) g) d v"
proof (rule writes_same_runs [OF assms(1)])
  show "wfor (enumerate n xs) g w = Inr (r, w') \<Longrightarrow> wfor xs f w = Inr (r, w')" for w r w'
    by (induction xs arbitrary: n w) (auto simp: wbind_def rbind_Inr_iff dest!: assms(2))
qed

section \<open>A plan the decoder accepts\<close>

definition plan_ok :: "wire_plan \<Rightarrow> bool" where
  "plan_ok plan \<longleftrightarrow>
     wp_table_schema plan \<in> set supported_table_schemas
     \<and> wp_target_generation plan \<noteq> 0 \<and> wp_project_id plan \<noteq> []
     \<and> check_base_identity (wp_mode plan) (wp_base_generation plan) (wp_target_generation plan)
         (wp_base_state_token plan) = Inr ()
     \<and> count_ok (wp_paths plan) \<and> count_ok (wp_symbols plan)
     \<and> list_all (path_op_ok (wp_mode plan) (wp_table_schema plan)) (wp_paths plan)
     \<and> successively (\<lambda>a b. po_path a < po_path b) (wp_paths plan)
     \<and> list_all (\<lambda>op. symbol_body_ok (sor_body op)) (wp_symbols plan)
     \<and> successively (\<lambda>a b. symbol_ref_key a < symbol_ref_key b) (wp_symbols plan)"

text \<open>The strings a plan interns, in the order of the dictionary.\<close>

definition transition_strings :: "wire_plan \<Rightarrow> str list" where
  "transition_strings plan =
     (case w_transition_rows plan (rw_new (None :: unit dyn_sink option)) of
        Inl _ \<Rightarrow> []
      | Inr (_, w) \<Rightarrow> rw_values w)"

definition strings_ok :: "str list \<Rightarrow> bool" where
  "strings_ok strings \<longleftrightarrow> list_all dict_safe strings \<and> count_ok strings"

definition wire_transition :: "wire_plan \<Rightarrow> wire_table_transition" where
  "wire_transition plan =
     \<lparr>wt_mode = wp_mode plan, wt_table_schema = wp_table_schema plan,
      wt_base_generation = wp_base_generation plan, wt_target_generation = wp_target_generation plan,
      wt_project_id = wp_project_id plan, wt_base_state_token = wp_base_state_token plan,
      wt_paths = map (wire_path_op (wp_table_schema plan)) (wp_paths plan),
      wt_symbols = map wire_symbol_op (wp_symbols plan)\<rparr>"

definition decode_rows :: "wire_plan \<Rightarrow> str list \<Rightarrow> wire_table_transition decoder" where
  "decode_rows plan strings =
     dbind (cur_string_index strings ''project id'') (\<lambda>project_id.
     dbind (dassert (project_id \<noteq> []) ProjectIdEmpty) (\<lambda>_.
     dbind (cur_string_index strings ''base state token'') (\<lambda>base_state_token.
     dbind (dlift (check_base_identity (wp_mode plan) (wp_base_generation plan)
       (wp_target_generation plan) base_state_token)) (\<lambda>_.
     dbind (cur_count ''path operations'') (\<lambda>path_count.
     dbind (drepeat_st path_count (decode_path_op strings (wp_mode plan) (wp_table_schema plan)) None) (\<lambda>paths.
     dbind (cur_count ''symbol operations'') (\<lambda>symbol_count.
     dbind (drepeat_st symbol_count (decode_symbol_op strings (wp_mode plan)) None) (\<lambda>symbols.
     dret \<lparr>wt_mode = wp_mode plan, wt_table_schema = wp_table_schema plan,
           wt_base_generation = wp_base_generation plan,
           wt_target_generation = wp_target_generation plan, wt_project_id = project_id,
           wt_base_state_token = base_state_token, wt_paths = paths,
           wt_symbols = symbols\<rparr>))))))))"

lemma writes_transition_rows:
  assumes ok: "plan_ok plan"
  shows "writes (w_transition_rows plan) (decode_rows plan) (\<lambda>_. wire_transition plan)"
proof -
  let ?schema = "wp_table_schema plan" and ?mode = "wp_mode plan"
  have paths: "writes (wfor (wp_paths plan) (\<lambda>op. write_path_op op ?schema))
      (\<lambda>strings. drepeat_st (length (wp_paths plan)) (decode_path_op strings ?mode ?schema) None)
      (\<lambda>_. map (wire_path_op ?schema) (wp_paths plan))"
    by (rule writes_for_keys [where ok = "\<lambda>prev op. case prev of None \<Rightarrow> True | Some p \<Rightarrow> p < po_path op"
          and next_key = "\<lambda>op. Some (po_path op)"])
      (use ok in \<open>auto simp: plan_ok_def list_all_iff intro!: writes_path_op split: list.split\<close>)
  have symbols: "writes (wfor (wp_symbols plan) (write_symbol_op ?mode))
      (\<lambda>strings. drepeat_st (length (wp_symbols plan)) (decode_symbol_op strings ?mode) None)
      (\<lambda>_. map wire_symbol_op (wp_symbols plan))"
    by (rule writes_for_keys [where ok = "\<lambda>prev op. case prev of None \<Rightarrow> True | Some p \<Rightarrow> p < symbol_ref_key op"
          and next_key = "\<lambda>op. Some (symbol_ref_key op)"])
      (use ok in \<open>auto simp: plan_ok_def list_all_iff intro!: writes_symbol_op split: list.split\<close>)
  have counts: "length (wp_paths plan) \<le> packed_collection_limit"
    "length (wp_symbols plan) \<le> packed_collection_limit"
    using ok by (simp_all add: plan_ok_def count_ok_def)
  show ?thesis
    unfolding w_transition_rows_def decode_rows_def
    apply (rule writes_bind [OF writes_text])
    apply (rule writes_dassert, use ok in \<open>simp add: plan_ok_def\<close>)
    apply (rule writes_bind [OF writes_text])
    apply (rule writes_dlift, use ok in \<open>simp add: plan_ok_def\<close>)
    apply (rule writes_silent [OF writes_intern_keys])
    apply (rule writes_bind [OF writes_count [OF counts(1)]])
    apply (rule writes_bind [OF writes_for_indexed [OF paths]])
     apply (simp add: wmap_err_def split: sum.splits)
    apply (rule writes_bind [OF writes_count [OF counts(2)]])
    apply (rule writes_pure_tail [OF writes_for_indexed [OF symbols]])
     apply (simp add: wmap_err_def split: sum.splits)
    apply (simp add: wire_transition_def)
    done
qed

section \<open>Decoding what was written\<close>

lemma parse_mode_code [simp]: "parse_mode (mode_code m) = Inr m"
  by (cases m) (simp_all add: parse_mode_def)

lemma transition_header_bytes:
  "transition_header plan = uvarint 1 @ uvarint (mode_code (wp_mode plan)) @ uvarint (wp_table_schema plan)
     @ uvarint (wp_base_generation plan) @ uvarint (wp_target_generation plan)"
  by (simp add: transition_header_def push_uvarint_eq)

lemma reads_transition_body:
  assumes ok: "plan_ok plan"
    and dict: "reads decode_packed_strings bs strings" "strings \<noteq> []" "hd strings = []" "distinct strings"
    and rows: "reads (decode_rows plan strings) rs t"
  shows "reads decode_transition_body (transition_header plan @ bs @ rs) t"
proof -
  have body: "reads (dbind decode_packed_strings (\<lambda>strings.
     dbind (dassert (strings \<noteq> [] \<and> hd strings = []) DictionaryWithoutEmptyString) (\<lambda>_.
     dbind (dassert (distinct strings) DictionaryDuplicate) (\<lambda>_. decode_rows plan strings)))) (bs @ rs) t"
    apply (rule reads_dbind [OF dict(1)])
    apply (rule reads_dbind_pure [OF reads_dassert])
     apply (use dict in simp)
    apply (rule reads_dbind_pure [OF reads_dassert [OF dict(4)]])
    apply (rule rows)
    done
  show ?thesis
    unfolding decode_transition_body_def transition_header_bytes append_assoc
    apply (rule reads_dbind [OF reads_cur_u64])
    apply (rule reads_dbind_pure [OF reads_dassert [OF refl]])
    apply (unfold cur_parse_def)
    apply (rule reads_dbind, rule reads_dbind_ret [OF reads_cur_u64])
     apply (rule reads_dlift [OF parse_mode_code])
    apply (rule reads_dbind [OF reads_cur_u64])
    apply (rule reads_dbind_pure [OF reads_dassert], use ok in \<open>simp add: plan_ok_def\<close>)
    apply (rule reads_dbind [OF reads_cur_u64])
    apply (rule reads_dbind [OF reads_cur_u64])
    apply (rule reads_dbind_pure [OF reads_dassert], use ok in \<open>simp add: plan_ok_def\<close>)
    apply (rule body [unfolded decode_rows_def])
    done
qed

lemma decode_write:
  assumes ok: "plan_ok plan" and frame: "transition_frame plan = Inr bytes"
    and strings: "strings_ok (transition_strings plan)" and len: "length bytes < 2 ^ 64"
  shows "decode_table_transition bytes = Inr (wire_transition plan)"
proof -
  let ?w0 = "rw_new (None :: unit dyn_sink option)"
  obtain sink where run: "write_transition plan (None :: unit dyn_sink option) = Inr (bytes, sink)"
    using frame by (auto simp: transition_frame_def rbind_Inr_iff)
  obtain w where w: "w_transition_rows plan ?w0 = Inr ((), w)"
    using run by (auto simp: write_transition_def rbind_Inr_iff)
  have w0: "rw_sink ?w0 = None" "dict_inv (rw_dict ?w0)" by (simp_all add: rw_new_def dict_inv_new)
  obtain out where out: "rw_sink w = None" "rw_error w = rw_error ?w0" "dict_inv (rw_dict w)"
    "prefix (rw_values ?w0) (rw_values w)" "rw_bytes w = rw_bytes ?w0 @ out"
    "\<And>strings. prefix (rw_values w) strings \<Longrightarrow> length strings \<le> packed_collection_limit
       \<Longrightarrow> reads (decode_rows plan strings) out (wire_transition plan)"
    by (rule writesD [OF writes_transition_rows [OF ok] w0 w]) blast
  have new: "rw_error ?w0 = None" "rw_bytes ?w0 = []" by (simp_all add: rw_new_def)
  have values_ok: "list_all dict_safe (rw_values w)" "length (rw_values w) \<le> packed_collection_limit"
    using strings by (auto simp: transition_strings_def w strings_ok_def count_ok_def)
  obtain bs where bs: "append_packed_dictionary (transition_header plan) (rw_dict w)
      = transition_header plan @ bs" "reads decode_packed_strings bs (rw_values w)"
    using append_packed_dictionary_reads [OF values_ok] by blast
  have bytes: "bytes = transition_header plan @ bs @ out"
    using run out(1) out(2,5) [unfolded new] bs(1) by (simp add: write_transition_def w rw_finish_def)
  have first: "rw_values w \<noteq> []" "hd (rw_values w) = []"
    using out(4) by (auto simp: rw_new_def dict_new_def prefix_def)
  have "reads decode_transition_body bytes (wire_transition plan)"
    unfolding bytes
    using ok bs(2) first out(3) out(6) [OF prefix_order.refl values_ok(2)]
    by (intro reads_transition_body) (simp_all add: dict_inv_def)
  from reads_whole [OF this len] show ?thesis by (simp add: decode_table_transition_def)
qed

end
