(* ===== verification/TF_Codec.thy ===== *)
theory TF_Codec
  imports TF_Transition
begin

unbundle bit_operations_syntax

text \<open>
  The properties of the wire codec: the varint layer, the packed dictionary, and the round trip
  of whole transitions, with a concrete transition on which the side conditions hold.
\<close>

section \<open>A transition to evaluate\<close>

definition ex_location :: location where
  "ex_location = \<lparr>loc_path = ''a.ts'', loc_end_byte = 9, loc_start_byte = 4\<rparr>"

definition ex_entity :: entity_fact where
  "ex_entity = \<lparr>ef_location = ex_location, ef_symbol = ''s'', ef_symbol_claim = ClaimCovering,
     ef_type_descriptor = None, ef_resolved_call = None, ef_callability = Some UntypedCallable,
     ef_constructability = None, ef_runtime_binding_kind = None,
     ef_runtime_value_domain = Some (rvd_new True False True False),
     ef_primitive_value_domain = 0, ef_primitive_literal_candidates = None,
     ef_call_result_domain = None, ef_constant_value = None, ef_array_shape = Some NotArray,
     ef_tuple_shape = None, ef_library_types = None, ef_declared_keys = None,
     ef_writable_optional_property = True, ef_reference_space = None, ef_runtime_identity = []\<rparr>"

definition ex_plan :: wire_plan where
  "ex_plan = \<lparr>wp_mode = ModeDelta, wp_table_schema = 24, wp_base_generation = 1,
     wp_target_generation = 2, wp_project_id = ''p'', wp_base_state_token = ''t'',
     wp_paths = [\<lparr>po_path = ''a.ts'', po_source = SlotRemove,
       po_entities = SlotReplace [ex_entity], po_file = SlotUnchanged\<rparr>],
     wp_symbols = [\<lparr>sor_id = ''s'', sor_body = BodyRemove\<rparr>]\<rparr>"

definition ex_frame :: "u8 list" where
  "ex_frame = [1, 1, 24, 1, 2, 5, 0, 0, 0, 0, 0, 1, 112, 0, 0, 1, 116, 0, 0, 4, 97, 46, 116, 115, 0, 0, 1,
     115, 1, 2, 1, 3, 6, 1, 8, 5, 4, 228, 132, 8, 4, 5, 1, 1, 17]"

text \<open>The definitions a symbolic run of the writer unfolds.\<close>

lemmas frame_eval = transition_frame_def write_transition_def w_transition_rows_def w_intern_keys_def
  w_intern_only_def w_intern_def dict_intern_def dict_insert_def dict_new_def rw_new_def wbind_def wret_def
  wfail_def wassert_def wlift_def wmap_err_def wopt_def wwhen_def w_text_def w_u64_def w_signed_def w_bool_def w_raw_def
  rw_maybe_flush_def rw_finish_def write_path_op_def w_slot_def write_entity_run_def w_entity_def
  check_entity_def validate_location_def i64_of_u64_def w_entity_fields_def entity_flags_def flag_def
  non_empty_def callability_code_def runtime_value_domain_bits_def rvd_new_def rvd_may_be_callable_def
  rvd_may_be_undefined_def rvd_may_be_other_def rvd_unknown_def pvd_is_present_def
  write_symbol_op_def w_symbol_body_def append_packed_dictionary_def packed_hashed_symbol_def strip_prefix_def
  hashed_symbol_prefix_def str_bytes_def byte_of_char_def transition_header_def zigzag_def Let_def

lemma push_uvarint_eval:
  "push_uvarint out 0 = out @ [0]" "push_uvarint out 1 = out @ [1]"
  by (simp_all add: push_uvarint.simps [of out 0] push_uvarint.simps [of out 1] word_le_nat_alt)

lemmas push_uvarint_num = push_uvarint.simps [of _ "numeral n" for n]

lemma rbind_weak_cong: "r = r' \<Longrightarrow> rbind r f = rbind r' f"
  by simp

lemma ex_plan_ok: "plan_ok ex_plan"
  by code_simp

lemma ex_frame_written: "transition_frame ex_plan = Inr ex_frame"
  by (simp add: frame_eval push_uvarint_eval push_uvarint_num ex_plan_def ex_entity_def
      ex_location_def ex_frame_def split del: if_split cong: rbind_weak_cong)

lemma ex_strings: "transition_strings ex_plan = [[], ''p'', ''t'', ''a.ts'', ''s'']"
  by (simp add: transition_strings_def frame_eval push_uvarint_eval push_uvarint_num ex_plan_def
      ex_entity_def ex_location_def ex_frame_def split del: if_split cong: rbind_weak_cong)

lemma ex_strings_ok: "strings_ok (transition_strings ex_plan)"
  unfolding ex_strings by code_simp

lemma ex_frame_length: "length ex_frame < 2 ^ 64"
  by (simp add: ex_frame_def)

section \<open>Properties\<close>

text \<open>C1. Whatever frame the producer writes for a plan in canonical order, within the reader's limits
  and over strings the dictionary carries, the client decodes to exactly the transition the plan
  describes at its table schema.\<close>

theorem decode_of_written_transition:
  assumes "plan_ok plan" "transition_frame plan = Inr bytes"
    and "strings_ok (transition_strings plan)" "length bytes < 2 ^ 64"
  shows "decode_table_transition bytes = Inr (wire_transition plan)"
  using assms by (rule decode_write)

theorem decode_of_written_transition_witness:
  "transition_frame ex_plan = Inr ex_frame
   \<and> decode_table_transition ex_frame = Inr (wire_transition ex_plan)"
  using decode_of_written_transition [OF ex_plan_ok ex_frame_written ex_strings_ok ex_frame_length]
    ex_frame_written by simp

text \<open>C15. Every unsigned integer that \<^verbatim>\<open>push_uvarint\<close> appends is read back by the cursor, wherever it
  stands in the input, and the cursor advances by exactly the bytes written.\<close>

theorem uvarint_round_trip:
  assumes "length (push_uvarint before v) < 2 ^ 64"
  shows "cur_u64 \<lparr>cur_input = push_uvarint before v @ after, cur_offset = length before\<rparr>
    = Inr (v, \<lparr>cur_input = push_uvarint before v @ after, cur_offset = length (push_uvarint before v)\<rparr>)"
  using readsD [OF reads_cur_u64, of before v after] assms by (simp add: push_uvarint_eq)

theorem uvarint_round_trip_witness:
  "cur_u64 \<lparr>cur_input = push_uvarint [9] 300 @ [7], cur_offset = 1\<rparr>
    = Inr (300, \<lparr>cur_input = push_uvarint [9] 300 @ [7], cur_offset = length (push_uvarint [9] 300)\<rparr>)
   \<and> push_uvarint [9] 300 = [9, 0xAC, 2]"
  using uvarint_round_trip [of "[9]" 300 "[7]"] by (simp add: push_uvarint_num push_uvarint_eval)

text \<open>C16. The cursor accepts only the shortest form of an integer: what it consumed is exactly what
  \<^verbatim>\<open>push_uvarint\<close> writes for the value it returns.\<close>

theorem uvarint_canonical:
  assumes "cur_u64 c = Inr (v, c')"
  shows "cur_input c' = cur_input c
    \<and> take (cur_offset c' - cur_offset c) (drop (cur_offset c) (cur_input c)) = push_uvarint [] v
    \<and> cur_offset c' = cur_offset c + length (push_uvarint [] v) \<and> cur_offset c' \<le> length (cur_input c)"
  using cur_u64_canonical [OF assms] by (simp add: consumed_def uvarint_def)

theorem uvarint_canonical_witness:
  "take 2 [0xAC, 2, 7] = push_uvarint [] 300"
  using uvarint_canonical [of "\<lparr>cur_input = [0xAC, 2, 7], cur_offset = 0\<rparr>" 300
      "\<lparr>cur_input = [0xAC, 2, 7], cur_offset = 2\<rparr>"]
  by (simp add: push_uvarint_num cur_u64_def uvarint_shifts_def get_at_def Let_def)


definition ex_dictionary :: dictionary where
  "ex_dictionary = snd (dict_intern ''symbol:h:00112233445566778899aabb''
     (snd (dict_intern ''a.ts'' (snd (dict_intern ''a.js'' dict_new)))))"


end
