(* ===== verification/TF_Index.thy ===== *)
theory TF_Index
  imports TF_Prelude
begin

text \<open>
  The packed, immutable, ordered index of \<^verbatim>\<open>retained_table.rs\<close>: rows in leaves of bounded size under
  one root directory, looked up by key and edited one leaf at a time.  The \<^verbatim>\<open>Keyed\<close> trait is the
  argument \<^verbatim>\<open>key\<close>.  Its contract, an ordered finite map of rows, is the locale \<^verbatim>\<open>ordered_index\<close>; the
  packed index interprets it, and the retained table is built on the contract alone.
\<close>

section \<open>Ordered row lists\<close>

definition lookup :: "('a \<Rightarrow> str) \<Rightarrow> 'a list \<Rightarrow> str \<Rightarrow> 'a option" where
  "lookup key rows k = find (\<lambda>r. key r = k) rows"

definition keys_ordered :: "('a \<Rightarrow> str) \<Rightarrow> 'a list \<Rightarrow> bool" where
  "keys_ordered key rows = sorted_wrt (<) (map key rows)"

fun option_list :: "'a option \<Rightarrow> 'a list" where
  "option_list None = []"
| "option_list (Some x) = [x]"

text \<open>The row list with the row at one key replaced, inserted or removed.\<close>

definition upsert :: "('a \<Rightarrow> str) \<Rightarrow> str \<Rightarrow> 'a option \<Rightarrow> 'a list \<Rightarrow> 'a list" where
  "upsert key k x rows =
     takeWhile (\<lambda>r. key r < k) rows @ option_list x @ dropWhile (\<lambda>r. key r \<le> k) rows"

lemma option_list_set [simp]: "set (option_list x) = set_option x"
  by (cases x) auto

lemma lookup_Nil [simp]: "lookup key [] k = None"
  by (simp add: lookup_def)

lemma lookup_Cons [simp]: "lookup key (r # rows) k = (if key r = k then Some r else lookup key rows k)"
  by (simp add: lookup_def)

lemma lookup_append: "lookup key (xs @ ys) k = (case lookup key xs k of None \<Rightarrow> lookup key ys k | Some r \<Rightarrow> Some r)"
  by (induction xs) auto

lemma lookup_None_iff: "lookup key rows k = None \<longleftrightarrow> k \<notin> key ` set rows"
  by (induction rows) auto

lemma lookup_SomeD: "lookup key rows k = Some r \<Longrightarrow> r \<in> set rows \<and> key r = k"
  by (induction rows) (auto split: if_splits)

lemma keys_ordered_Nil [simp]: "keys_ordered key []"
  by (simp add: keys_ordered_def)

lemma keys_ordered_Cons [simp]:
  "keys_ordered key (r # rows) \<longleftrightarrow> (\<forall>x\<in>set rows. key r < key x) \<and> keys_ordered key rows"
  by (auto simp: keys_ordered_def)

lemma keys_ordered_append:
  "keys_ordered key (xs @ ys) \<longleftrightarrow>
     keys_ordered key xs \<and> keys_ordered key ys \<and> (\<forall>x\<in>set xs. \<forall>y\<in>set ys. key x < key y)"
  by (auto simp: keys_ordered_def sorted_wrt_append)

lemma lookup_member: "keys_ordered key rows \<Longrightarrow> r \<in> set rows \<Longrightarrow> lookup key rows (key r) = Some r"
  by (induction rows) auto

text \<open>Ordered row lists are determined by what a lookup finds in them.\<close>

lemma lookup_ext:
  assumes "keys_ordered key xs" "keys_ordered key ys" "\<And>k. lookup key xs k = lookup key ys k"
  shows "xs = ys"
proof -
  have sub: "set us \<subseteq> set vs" if "keys_ordered key us" "\<And>k. lookup key us k = lookup key vs k" for us vs
    using lookup_member [OF that(1)] that(2) by (auto dest: lookup_SomeD)
  have same: "set xs = set ys"
    using sub [OF assms(1) assms(3)] sub [OF assms(2) assms(3) [symmetric]] by blast
  have "inj_on key (set xs)"
    using lookup_member [OF assms(1)] by (intro inj_onI) (metis option.inject)
  moreover have "map key xs = map key ys"
    using assms(1,2) same unfolding keys_ordered_def by (intro strict_sorted_equal) auto
  ultimately show ?thesis
    using same by (intro map_inj_on [of key]) simp_all
qed

text \<open>Where a key falls in an ordered row list.\<close>

lemma rows_before: "r \<in> set (takeWhile (\<lambda>r. key r < k) rows) \<Longrightarrow> key r < k"
  by (auto dest: set_takeWhileD)

lemma rows_after: "keys_ordered key rows \<Longrightarrow> r \<in> set (dropWhile (\<lambda>r. key r \<le> k) rows) \<Longrightarrow> k < key r"
  by (induction rows) (auto split: if_splits)

lemma dropWhile_lookup:
  "keys_ordered key rows \<Longrightarrow>
   dropWhile (\<lambda>r. key r < k) rows = option_list (lookup key rows k) @ dropWhile (\<lambda>r. key r \<le> k) rows"
proof (induction rows)
  case (Cons r rows)
  have "dropWhile (\<lambda>r. key r \<le> k) rows = rows" "lookup key rows k = None" if "k \<le> key r"
    using Cons.prems that by (cases rows; force simp: lookup_None_iff)+
  with Cons show ?case by (auto simp: not_less)
qed simp

lemma ordered_split:
  "keys_ordered key rows \<Longrightarrow>
   rows = takeWhile (\<lambda>r. key r < k) rows @ option_list (lookup key rows k) @ dropWhile (\<lambda>r. key r \<le> k) rows"
  by (simp add: dropWhile_lookup [symmetric])

lemma upsert_ordered:
  assumes "keys_ordered key rows" "\<And>r. x = Some r \<Longrightarrow> key r = k"
  shows "keys_ordered key (upsert key k x rows)"
proof -
  have "keys_ordered key (takeWhile (\<lambda>r. key r < k) rows)" "keys_ordered key (dropWhile (\<lambda>r. key r \<le> k) rows)"
    using assms(1) ordered_split [OF assms(1), of k] by (metis keys_ordered_append)+
  moreover have "key a < key b"
    if "a \<in> set (takeWhile (\<lambda>r. key r < k) rows)" "b \<in> set (dropWhile (\<lambda>r. key r \<le> k) rows)" for a b
    using rows_before [OF that(1)] rows_after [OF assms(1) that(2)] by (rule less_trans)
  ultimately show ?thesis
    using assms rows_before [of _ key k rows] rows_after [OF assms(1), of _ k]
    by (cases x) (auto simp: upsert_def keys_ordered_append)
qed

lemma lookup_upsert:
  assumes "keys_ordered key rows" "\<And>r. x = Some r \<Longrightarrow> key r = k"
  shows "lookup key (upsert key k x rows) = (lookup key rows)(k := x)"
proof
  fix k'
  let ?b = "takeWhile (\<lambda>r. key r < k) rows" and ?a = "dropWhile (\<lambda>r. key r \<le> k) rows"
  have no: "lookup key ?b k = None" "lookup key ?a k = None"
    using rows_before [of _ key k rows] rows_after [OF assms(1), of _ k] by (auto simp: lookup_None_iff)
  show "lookup key (upsert key k x rows) k' = ((lookup key rows)(k := x)) k'"
  proof (cases "k' = k")
    case True
    then show ?thesis using no assms(2) by (cases x) (auto simp: lookup_append upsert_def)
  next
    case False
    then have "lookup key (option_list x) k' = None" "lookup key (option_list (lookup key rows k)) k' = None"
      using assms(2) lookup_SomeD [of key rows k] by (cases x; cases "lookup key rows k"; force)+
    moreover have "lookup key rows k' = lookup key (?b @ option_list (lookup key rows k) @ ?a) k'"
      using ordered_split [OF assms(1), of k] by simp
    ultimately show ?thesis using False by (simp add: lookup_append upsert_def split: option.split)
  qed
qed

lemma upsert_between:
  assumes "\<And>r. r \<in> set before \<Longrightarrow> key r < k" "\<And>r. r \<in> set after \<Longrightarrow> k < key r"
  shows "upsert key k x (before @ rows @ after) = before @ upsert key k x rows @ after"
proof -
  have after: "takeWhile (\<lambda>r. key r < k) after = []" "dropWhile (\<lambda>r. key r \<le> k) after = after"
    using assms(2) by (cases after; force)+
  have "takeWhile (\<lambda>r. key r < k) (rows @ after) = takeWhile (\<lambda>r. key r < k) rows"
    using after(1) by (induction rows) auto
  moreover have "dropWhile (\<lambda>r. key r \<le> k) (rows @ after) = dropWhile (\<lambda>r. key r \<le> k) rows @ after"
    using after(2) by (induction rows) auto
  moreover have "dropWhile (\<lambda>r. key r \<le> k) (before @ rows @ after) = dropWhile (\<lambda>r. key r \<le> k) (rows @ after)"
    using assms(1) by (induction before) (auto simp: less_imp_le)
  ultimately show ?thesis using assms(1) by (simp add: upsert_def takeWhile_append)
qed

section \<open>The packed index\<close>

definition leaf_target :: nat where
  "leaf_target = 64"

definition leaf_max :: nat where
  "leaf_max = leaf_target * 2"

record 'a packed_index =
  pi_leaves :: "'a list list"
  pi_len :: nat

definition pi_default :: "'a packed_index" where
  "pi_default = \<lparr>pi_leaves = [], pi_len = 0\<rparr>"

text \<open>The loop of \<^verbatim>\<open>from_sorted\<close>: leaves of \<^verbatim>\<open>LEAF_TARGET\<close> rows until the rows run out.\<close>

function pack_leaves :: "'a list \<Rightarrow> 'a list list" where
  "pack_leaves rows =
     (let leaf = take leaf_target rows in
      if leaf = [] then [] else leaf # pack_leaves (drop leaf_target rows))"
  by pat_completeness auto
termination
  by (relation "measure length") (auto simp: leaf_target_def)

declare pack_leaves.simps [simp del]

definition pi_from_sorted :: "'a list \<Rightarrow> 'a packed_index" where
  "pi_from_sorted rows =
     (if rows = [] then pi_default
      else \<lparr>pi_leaves = pack_leaves rows, pi_len = length rows\<rparr>)"

text \<open>
  \<^verbatim>\<open>partition_point\<close> over the leaves by their last key, clamped to the last leaf.  No leaf of an
  index is empty, by \<^verbatim>\<open>pi_inv\<close> below, so \<^verbatim>\<open>expect("non-empty leaf")\<close> never fails.
\<close>

definition pi_leaf_index :: "('a \<Rightarrow> str) \<Rightarrow> 'a packed_index \<Rightarrow> str \<Rightarrow> nat" where
  "pi_leaf_index key index k =
     min (length (takeWhile (\<lambda>leaf. key (last leaf) < k) (pi_leaves index)))
         (length (pi_leaves index) - 1)"

definition pi_leaf_for :: "('a \<Rightarrow> str) \<Rightarrow> 'a packed_index \<Rightarrow> str \<Rightarrow> 'a list option" where
  "pi_leaf_for key index k =
     (if pi_leaves index = [] then None
      else Some (pi_leaves index ! pi_leaf_index key index k))"

text \<open>
  \<^verbatim>\<open>slice::binary_search_by\<close> on a leaf, whose keys are strictly increasing: \<^verbatim>\<open>Ok\<close> (\<^verbatim>\<open>Inr\<close>) with the
  index of the row at the key, \<^verbatim>\<open>Err\<close> (\<^verbatim>\<open>Inl\<close>) with the index where it would be inserted.
\<close>

definition leaf_search :: "('a \<Rightarrow> str) \<Rightarrow> 'a list \<Rightarrow> str \<Rightarrow> nat + nat" where
  "leaf_search key leaf k =
     (let i = length (takeWhile (\<lambda>r. key r < k) leaf) in
      if i < length leaf \<and> key (leaf ! i) = k then Inr i else Inl i)"

definition pi_get :: "('a \<Rightarrow> str) \<Rightarrow> 'a packed_index \<Rightarrow> str \<Rightarrow> 'a option" where
  "pi_get key index k =
     Option.bind (pi_leaf_for key index k) (\<lambda>leaf.
       case leaf_search key leaf k of Inl _ \<Rightarrow> None | Inr i \<Rightarrow> Some (leaf ! i))"

text \<open>\<^verbatim>\<open>Vec::insert\<close> and \<^verbatim>\<open>Vec::remove\<close>.\<close>

definition insert_at :: "nat \<Rightarrow> 'a \<Rightarrow> 'a list \<Rightarrow> 'a list" where
  "insert_at i x xs = take i xs @ x # drop i xs"

definition remove_at :: "nat \<Rightarrow> 'a list \<Rightarrow> 'a list" where
  "remove_at i xs = take i xs @ drop (Suc i) xs"

definition leaf_updated :: "('a \<Rightarrow> str) \<Rightarrow> 'a list \<Rightarrow> str \<Rightarrow> 'a option \<Rightarrow> 'a list" where
  "leaf_updated key leaf k replacement =
     (case leaf_search key leaf k of
        Inr i \<Rightarrow> (case replacement of Some row \<Rightarrow> leaf[i := row] | None \<Rightarrow> remove_at i leaf)
      | Inl i \<Rightarrow> (case replacement of Some row \<Rightarrow> insert_at i row leaf | None \<Rightarrow> leaf))"

definition leaves_with :: "'a list list \<Rightarrow> nat \<Rightarrow> 'a list \<Rightarrow> 'a list list" where
  "leaves_with leaves i leaf =
     (if leaf = [] then remove_at i leaves
      else if leaf_max < length leaf
      then insert_at (Suc i) (drop leaf_target leaf) (leaves[i := take leaf_target leaf])
      else leaves[i := leaf])"

definition pi_updated :: "('a \<Rightarrow> str) \<Rightarrow> 'a packed_index \<Rightarrow> str \<Rightarrow> 'a option \<Rightarrow> 'a packed_index" where
  "pi_updated key index k replacement =
     (if pi_leaves index = []
      then (case replacement of None \<Rightarrow> pi_default | Some row \<Rightarrow> pi_from_sorted [row])
      else
        let i = pi_leaf_index key index k;
            leaf = leaf_updated key (pi_leaves index ! i) k replacement;
            leaves = leaves_with (pi_leaves index) i leaf
        in \<lparr>pi_leaves = leaves, pi_len = sum_list (map length leaves)\<rparr>)"

text \<open>
  \<^verbatim>\<open>PackedIter\<close>.  \<^verbatim>\<open>remaining\<close> counts down with every row; \<^verbatim>\<open>None\<close> is the arithmetic panic of
  a count that would go below zero, the first component of the value is what \<^verbatim>\<open>next\<close> returns.
\<close>

record 'a packed_iter =
  it_leaves :: "'a list list"
  it_current :: "'a list option"
  it_remaining :: nat

definition pi_iter :: "'a packed_index \<Rightarrow> 'a packed_iter" where
  "pi_iter index = \<lparr>it_leaves = pi_leaves index, it_current = None, it_remaining = pi_len index\<rparr>"

function it_next :: "'a packed_iter \<Rightarrow> ('a option \<times> 'a packed_iter) option" where
  "it_next it =
     (case it_current it of
        Some (row # rest) \<Rightarrow>
          (if it_remaining it = 0 then None
           else Some (Some row, it\<lparr>it_current := Some rest, it_remaining := it_remaining it - 1\<rparr>))
      | _ \<Rightarrow>
          (case it_leaves it of
             [] \<Rightarrow> Some (None, it)
           | leaf # leaves \<Rightarrow> it_next (it\<lparr>it_leaves := leaves, it_current := Some leaf\<rparr>)))"
  by pat_completeness auto
termination
  by (relation "measure (\<lambda>it. length (it_leaves it))") auto

declare it_next.simps [simp del]

text \<open>The rows a \<^verbatim>\<open>for\<close> loop over the iterator visits; every use in the table consumes it whole.\<close>

definition pi_rows :: "'a packed_index \<Rightarrow> 'a list" where
  "pi_rows index = concat (pi_leaves index)"

definition it_rows :: "'a packed_iter \<Rightarrow> 'a list" where
  "it_rows it = (case it_current it of None \<Rightarrow> [] | Some rows \<Rightarrow> rows) @ concat (it_leaves it)"

section \<open>The invariant\<close>

definition pi_inv :: "('a \<Rightarrow> str) \<Rightarrow> 'a packed_index \<Rightarrow> bool" where
  "pi_inv key index \<longleftrightarrow>
     (\<forall>leaf\<in>set (pi_leaves index). leaf \<noteq> [] \<and> length leaf \<le> leaf_max)
     \<and> pi_len index = length (pi_rows index) \<and> keys_ordered key (pi_rows index)"

lemma leaf_consts: "0 < leaf_target" "leaf_target < leaf_max" "leaf_max = 2 * leaf_target"
  by (simp_all add: leaf_target_def leaf_max_def)

lemma concat_pack_leaves [simp]: "concat (pack_leaves rows) = rows"
proof (induction rows rule: pack_leaves.induct)
  case (1 rows)
  then show ?case by (subst pack_leaves.simps) (auto simp: Let_def leaf_target_def)
qed

lemma pack_leaves_sizes: "leaf \<in> set (pack_leaves rows) \<Longrightarrow> leaf \<noteq> [] \<and> length leaf \<le> leaf_target"
proof (induction rows rule: pack_leaves.induct)
  case (1 rows)
  from 1(2) have "leaf = take leaf_target rows \<and> leaf \<noteq> []
      \<or> take leaf_target rows \<noteq> [] \<and> leaf \<in> set (pack_leaves (drop leaf_target rows))"
    by (subst (asm) pack_leaves.simps) (auto simp: Let_def split: if_splits)
  with 1(1) [OF refl] show ?case by auto
qed

lemma pi_rows_default [simp]: "pi_rows pi_default = []"
  by (simp add: pi_default_def pi_rows_def)

lemma pi_rows_from_sorted [simp]: "pi_rows (pi_from_sorted rows) = rows"
  by (simp add: pi_from_sorted_def pi_rows_def pi_default_def)

lemma pi_inv_default [simp]: "pi_inv key pi_default"
  by (simp add: pi_inv_def pi_default_def pi_rows_def)

lemma pi_inv_from_sorted: "keys_ordered key rows \<Longrightarrow> pi_inv key (pi_from_sorted rows)"
  using leaf_consts by (auto simp: pi_inv_def pi_from_sorted_def pi_rows_def pi_default_def
      dest!: pack_leaves_sizes)

section \<open>Lookup and update\<close>

lemma ordered_le_last: "keys_ordered key leaf \<Longrightarrow> r \<in> set leaf \<Longrightarrow> key r \<le> key (last leaf)"
proof (induction leaf)
  case (Cons x leaf)
  have "key x < key (last leaf)" if "leaf \<noteq> []"
    using Cons.prems(1) that by simp
  with Cons show ?case by (auto simp: less_imp_le)
qed simp

lemma leaf_index_split:
  fixes k :: str
  assumes inv: "pi_inv key index" and ne: "pi_leaves index \<noteq> []"
  defines "i \<equiv> pi_leaf_index key index k" and "leaves \<equiv> pi_leaves index"
  shows "i < length leaves"
    and "r \<in> set (concat (take i leaves)) \<Longrightarrow> key r < k"
    and "r \<in> set (concat (drop (Suc i) leaves)) \<Longrightarrow> k < key r"
proof -
  let ?P = "\<lambda>leaf. key (last leaf) < k" and ?n = "length (takeWhile (\<lambda>leaf. key (last leaf) < k) leaves)"
  have ordered: "keys_ordered key (concat leaves)" and sizes: "\<And>leaf. leaf \<in> set leaves \<Longrightarrow> leaf \<noteq> []"
    using inv by (auto simp: pi_inv_def pi_rows_def leaves_def)
  show i: "i < length leaves" using ne by (auto simp: i_def leaves_def pi_leaf_index_def min_def neq_Nil_conv)
  then have split: "leaves = take i leaves @ leaves ! i # drop (Suc i) leaves"
    by (rule id_take_nth_drop)
  have leaf_ordered: "keys_ordered key leaf" if "leaf \<in> set leaves" for leaf
    using ordered that by (induction leaves) (auto simp: keys_ordered_append)
  have "i \<le> ?n" by (simp add: i_def leaves_def pi_leaf_index_def)
  then have "set (take i leaves) \<subseteq> set (takeWhile ?P leaves)"
    by (metis set_take_subset_set_take takeWhile_eq_take)
  then have "?P leaf" if "leaf \<in> set (take i leaves)" for leaf
    using that set_takeWhileD by fast
  then show "key r < k" if "r \<in> set (concat (take i leaves))"
    using that leaf_ordered ordered_le_last [of key _ r] by (fastforce dest: in_set_takeD)
  show "k < key r" if r: "r \<in> set (concat (drop (Suc i) leaves))"
  proof -
    have "Suc i < length leaves" using r by (cases "Suc i < length leaves") auto
    then have "i = ?n" by (auto simp: i_def leaves_def pi_leaf_index_def)
    then have "\<not> ?P (leaves ! i)" using i nth_length_takeWhile by metis
    then have "k \<le> key (last (leaves ! i))" by simp
    also have "\<dots> < key r"
    proof -
      have "last (leaves ! i) \<in> set (leaves ! i)" using sizes [OF nth_mem [OF i]] by simp
      then show ?thesis using ordered r by (subst (asm) split) (auto simp: keys_ordered_append)
    qed
    finally show ?thesis .
  qed
qed

lemma leaf_search_lookup:
  assumes "keys_ordered key leaf"
  shows "(case leaf_search key leaf k of Inl _ \<Rightarrow> None | Inr i \<Rightarrow> Some (leaf ! i)) = lookup key leaf k"
proof -
  let ?i = "length (takeWhile (\<lambda>r. key r < k) leaf)"
  have drop: "drop ?i leaf = option_list (lookup key leaf k) @ dropWhile (\<lambda>r. key r \<le> k) leaf"
    using dropWhile_lookup [OF assms, of k] by (simp add: dropWhile_eq_drop)
  show ?thesis
  proof (cases "lookup key leaf k")
    case None
    have "key (leaf ! ?i) \<noteq> k" if "?i < length leaf"
    proof -
      have "leaf ! ?i \<in> set (dropWhile (\<lambda>r. key r \<le> k) leaf)"
        using drop None that by (metis append_Nil nth_mem Cons_nth_drop_Suc list.set_intros(1) option_list.simps(1))
      from rows_after [OF assms this] show ?thesis by simp
    qed
    with None show ?thesis by (auto simp: leaf_search_def Let_def)
  next
    case (Some r)
    then have d: "drop ?i leaf = r # dropWhile (\<lambda>r. key r \<le> k) leaf" using drop by simp
    then have "?i < length leaf" by (metis drop_all linorder_not_le list.discI)
    moreover from this d have "leaf ! ?i = r" by (simp add: Cons_nth_drop_Suc [symmetric])
    ultimately show ?thesis using Some lookup_SomeD [OF Some] by (simp add: leaf_search_def Let_def)
  qed
qed

lemma leaf_updated_upsert:
  assumes "keys_ordered key leaf"
  shows "leaf_updated key leaf k x = upsert key k x leaf"
proof -
  let ?i = "length (takeWhile (\<lambda>r. key r < k) leaf)"
  have take: "take ?i leaf = takeWhile (\<lambda>r. key r < k) leaf" by (simp add: takeWhile_eq_take [symmetric])
  have drop: "drop ?i leaf = option_list (lookup key leaf k) @ dropWhile (\<lambda>r. key r \<le> k) leaf"
    using dropWhile_lookup [OF assms, of k] by (simp add: dropWhile_eq_drop)
  show ?thesis
  proof (cases "lookup key leaf k")
    case None
    have "leaf_search key leaf k = Inl ?i"
      using leaf_search_lookup [OF assms, of k] None
      by (auto simp: leaf_search_def Let_def split: if_splits)
    moreover have "takeWhile (\<lambda>r. key r < k) leaf @ dropWhile (\<lambda>r. key r \<le> k) leaf = leaf"
      using ordered_split [OF assms, of k] None by simp
    ultimately show ?thesis using take drop None
      by (cases x) (simp_all add: leaf_updated_def insert_at_def upsert_def)
  next
    case (Some r)
    then have d: "drop ?i leaf = r # dropWhile (\<lambda>r. key r \<le> k) leaf" using drop by simp
    then have i: "?i < length leaf" by (metis drop_all linorder_not_le list.discI)
    have "leaf_search key leaf k = Inr ?i"
      using leaf_search_lookup [OF assms, of k] Some
      by (auto simp: leaf_search_def Let_def split: if_splits)
    moreover have "drop (Suc ?i) leaf = dropWhile (\<lambda>r. key r \<le> k) leaf"
      using d by (metis Cons_nth_drop_Suc i list.inject)
    ultimately show ?thesis using take i
      by (cases x) (simp_all add: leaf_updated_def remove_at_def upsert_def upd_conv_take_nth_drop)
  qed
qed

lemma concat_leaves_with:
  assumes "i < length leaves"
  shows "concat (leaves_with leaves i leaf) = concat (take i leaves) @ leaf @ concat (drop (Suc i) leaves)"
proof -
  have join: "take n l @ drop n l @ r = l @ r" for n and l r :: "'a list"
    by (simp flip: append_assoc)
  show ?thesis using assms
    by (auto simp: leaves_with_def remove_at_def insert_at_def upd_conv_take_nth_drop min_def join)
qed

lemma leaves_with_sizes:
  assumes "i < length leaves" "\<forall>l\<in>set leaves. l \<noteq> [] \<and> length l \<le> leaf_max" "length leaf \<le> Suc leaf_max"
  shows "\<forall>l\<in>set (leaves_with leaves i leaf). l \<noteq> [] \<and> length l \<le> leaf_max"
  using assms leaf_consts
  by (auto simp: leaves_with_def remove_at_def insert_at_def upd_conv_take_nth_drop
      dest!: in_set_takeD in_set_dropD)

lemma length_upsert: "length (upsert key k x rows) \<le> Suc (length rows)"
proof -
  have "length (takeWhile (\<lambda>r. key r < k) rows) + length (dropWhile (\<lambda>r. key r \<le> k) rows) \<le> length rows"
    by (induction rows) auto
  then show ?thesis by (cases x) (auto simp: upsert_def)
qed

theorem pi_updated_rows:
  assumes inv: "pi_inv key index"
  shows "pi_rows (pi_updated key index k x) = upsert key k x (pi_rows index)"
proof (cases "pi_leaves index = []")
  case True
  then show ?thesis by (cases x) (simp_all add: pi_updated_def pi_rows_def upsert_def
      pi_default_def pi_from_sorted_def)
next
  case False
  let ?i = "pi_leaf_index key index k" and ?leaves = "pi_leaves index"
  note split = leaf_index_split [OF inv False, where k = k]
  have rows: "pi_rows index = concat (take ?i ?leaves) @ ?leaves ! ?i @ concat (drop (Suc ?i) ?leaves)"
    using id_take_nth_drop [OF split(1)] by (metis concat.simps(2) concat_append pi_rows_def)
  moreover have "keys_ordered key (pi_rows index)" using inv by (simp add: pi_inv_def)
  ultimately have "keys_ordered key (?leaves ! ?i)" by (simp add: keys_ordered_append)
  moreover have "upsert key k x (pi_rows index) = concat (take ?i ?leaves)
      @ upsert key k x (?leaves ! ?i) @ concat (drop (Suc ?i) ?leaves)"
    unfolding rows by (rule upsert_between) (fact split(2), fact split(3))
  ultimately show ?thesis
    using False
    by (simp add: pi_updated_def Let_def pi_rows_def concat_leaves_with split(1) leaf_updated_upsert)
qed

theorem pi_updated_inv:
  assumes inv: "pi_inv key index" and x: "\<And>r. x = Some r \<Longrightarrow> key r = k"
  shows "pi_inv key (pi_updated key index k x)"
proof -
  have "keys_ordered key (pi_rows index)" using inv by (simp add: pi_inv_def)
  then have ordered: "keys_ordered key (pi_rows (pi_updated key index k x))"
    unfolding pi_updated_rows [OF inv] using x by (rule upsert_ordered)
  show ?thesis
  proof (cases "pi_leaves index = []")
    case True
    then show ?thesis
      by (cases x) (simp_all add: pi_updated_def pi_inv_from_sorted)
  next
    case False
    let ?i = "pi_leaf_index key index k" and ?leaves = "pi_leaves index"
    note split = leaf_index_split [OF inv False, where k = k]
    have sizes: "\<forall>l\<in>set ?leaves. l \<noteq> [] \<and> length l \<le> leaf_max" using inv by (simp add: pi_inv_def)
    have "keys_ordered key (?leaves ! ?i)"
    proof -
      have "pi_rows index = concat (take ?i ?leaves) @ ?leaves ! ?i @ concat (drop (Suc ?i) ?leaves)"
        using id_take_nth_drop [OF split(1)] by (metis concat.simps(2) concat_append pi_rows_def)
      then show ?thesis using inv by (simp add: pi_inv_def keys_ordered_append)
    qed
    then have "length (leaf_updated key (?leaves ! ?i) k x) \<le> Suc leaf_max"
      using length_upsert [of key k x "?leaves ! ?i"] sizes nth_mem [OF split(1)]
      by (fastforce simp: leaf_updated_upsert)
    from leaves_with_sizes [OF split(1) sizes this] ordered show ?thesis
      using False by (simp add: pi_inv_def pi_updated_def Let_def pi_rows_def length_concat)
  qed
qed

theorem pi_get_lookup:
  assumes inv: "pi_inv key index"
  shows "pi_get key index k = lookup key (pi_rows index) k"
proof (cases "pi_leaves index = []")
  case True
  then show ?thesis by (simp add: pi_get_def pi_leaf_for_def pi_rows_def)
next
  case False
  let ?i = "pi_leaf_index key index k" and ?leaves = "pi_leaves index"
  note split = leaf_index_split [OF inv False, where k = k]
  have rows: "pi_rows index = concat (take ?i ?leaves) @ ?leaves ! ?i @ concat (drop (Suc ?i) ?leaves)"
    using id_take_nth_drop [OF split(1)] by (metis concat.simps(2) concat_append pi_rows_def)
  have "keys_ordered key (?leaves ! ?i)" using inv rows by (simp add: pi_inv_def keys_ordered_append)
  moreover have "lookup key (concat (take ?i ?leaves)) k = None" "lookup key (concat (drop (Suc ?i) ?leaves)) k = None"
    using split(2,3) by (auto simp: lookup_None_iff simp del: set_concat)
  ultimately show ?thesis
    using False by (simp add: pi_get_def pi_leaf_for_def leaf_search_lookup rows lookup_append
        split: option.split)
qed

text \<open>The iterator visits the rows in order, and its count is never wrong.\<close>

lemma it_next_rows:
  assumes "it_remaining it = length (it_rows it)"
  shows "\<exists>it'. it_next it = Some (case it_rows it of [] \<Rightarrow> None | row # _ \<Rightarrow> Some row, it')
    \<and> it_rows it' = tl (it_rows it) \<and> it_remaining it' = length (it_rows it')"
  using assms
proof (induction it rule: it_next.induct)
  case (1 it)
  show ?case
  proof (cases "it_current it")
    case None
    with 1 show ?thesis
      by (subst it_next.simps) (auto simp: it_rows_def split: list.split)
  next
    case (Some rows)
    with 1 show ?thesis
      by (subst it_next.simps) (auto simp: it_rows_def split: list.split)
  qed
qed

lemma it_next_shrinks: "it_next it = Some (Some row, it') \<Longrightarrow> length (it_rows it') < length (it_rows it)"
proof (induction it rule: it_next.induct)
  case (1 it)
  show ?case
  proof (cases "it_current it")
    case None
    with 1 show ?thesis
      by (subst (asm) (3) it_next.simps) (fastforce simp: it_rows_def split: list.splits if_splits)
  next
    case (Some rows)
    with 1 show ?thesis
      by (subst (asm) (3) it_next.simps) (fastforce simp: it_rows_def split: list.splits if_splits)
  qed
qed

text \<open>Everything a consumer of the iterator sees; \<^verbatim>\<open>None\<close> is the panic.\<close>

function it_collect :: "'a packed_iter \<Rightarrow> 'a list option" where
  "it_collect it =
     (case it_next it of
        None \<Rightarrow> None
      | Some (None, _) \<Rightarrow> Some []
      | Some (Some row, it') \<Rightarrow> map_option (\<lambda>rows. row # rows) (it_collect it'))"
  by pat_completeness auto
termination
  by (relation "measure (\<lambda>it. length (it_rows it))") (auto intro: it_next_shrinks)

declare it_collect.simps [simp del]

lemma it_collect_rows: "it_remaining it = length (it_rows it) \<Longrightarrow> it_collect it = Some (it_rows it)"
proof (induction it rule: it_collect.induct)
  case (1 it)
  obtain it' where *: "it_next it = Some (case it_rows it of [] \<Rightarrow> None | row # _ \<Rightarrow> Some row, it')"
    "it_rows it' = tl (it_rows it)" "it_remaining it' = length (it_rows it')"
    using it_next_rows [OF 1(2)] by blast
  with 1(1) show ?case
    by (subst it_collect.simps) (cases "it_rows it"; simp)
qed

lemma pi_iter_rows: "pi_inv key index \<Longrightarrow> it_collect (pi_iter index) = Some (pi_rows index)"
  using it_collect_rows [of "pi_iter index"] by (simp add: pi_iter_def it_rows_def pi_inv_def pi_rows_def)

section \<open>Batches of operations\<close>

text \<open>
  A loop over operations that may panic, and its effect on an ordered row list: operation \<^verbatim>\<open>op\<close>
  computes from the row at its key what is to stand there.
\<close>

fun fold_opt :: "('a \<Rightarrow> 'b \<Rightarrow> 'b option) \<Rightarrow> 'a list \<Rightarrow> 'b \<Rightarrow> 'b option" where
  "fold_opt f [] s = Some s"
| "fold_opt f (x # xs) s = Option.bind (f x s) (fold_opt f xs)"

definition row_step ::
    "('a \<Rightarrow> str) \<Rightarrow> ('o \<Rightarrow> str) \<Rightarrow> ('a option \<Rightarrow> 'o \<Rightarrow> 'a option option) \<Rightarrow> 'o \<Rightarrow> 'a list \<Rightarrow> 'a list option" where
  "row_step key okey f op rows =
     map_option (\<lambda>x. upsert key (okey op) x rows) (f (lookup key rows (okey op)) op)"

lemma fold_opt_append: "fold_opt f (xs @ ys) s = Option.bind (fold_opt f xs s) (fold_opt f ys)"
  by (induction xs arbitrary: s) (auto split: Option.bind_splits)

lemma fold_opt_cong:
  "(\<And>x s. x \<in> set xs \<Longrightarrow> f x s = g x s) \<Longrightarrow> fold_opt f xs s = fold_opt g xs s"
  by (induction xs arbitrary: s) (auto simp: fun_eq_iff intro!: Option.bind_cong)

lemma fold_opt_Some: "fold_opt (\<lambda>x s. Some (f x s)) xs s = Some (fold f xs s)"
  by (induction xs arbitrary: s) auto

lemma upsert_prefix:
  "(\<And>r. r \<in> set before \<Longrightarrow> key r < k) \<Longrightarrow> upsert key k x (before @ rows) = before @ upsert key k x rows"
  using upsert_between [of before key k "[]" x rows] by simp

lemma fold_row_step_prefix:
  assumes "\<And>r op. r \<in> set before \<Longrightarrow> op \<in> set ops \<Longrightarrow> key r < okey op"
  shows "fold_opt (row_step key okey f) ops (before @ rows)
    = map_option (\<lambda>rs. before @ rs) (fold_opt (row_step key okey f) ops rows)"
  using assms
proof (induction ops arbitrary: rows)
  case (Cons op ops)
  have "lookup key before (okey op) = None" using Cons.prems by (fastforce simp: lookup_None_iff)
  then have "row_step key okey f op (before @ rows) = map_option (\<lambda>rs. before @ rs) (row_step key okey f op rows)"
    using Cons.prems by (simp add: row_step_def upsert_prefix lookup_append option.map_comp comp_def)
  with Cons show ?case by (cases "row_step key okey f op rows") simp_all
qed simp

lemma upsert_upsert:
  assumes "keys_ordered key rows" "\<And>r. x = Some r \<Longrightarrow> key r = k" "\<And>r. y = Some r \<Longrightarrow> key r = k"
  shows "upsert key k y (upsert key k x rows) = upsert key k y rows"
  by (rule lookup_ext [of key]) (simp_all add: upsert_ordered lookup_upsert assms)

text \<open>An operation that keeps the key of the row it finds, and gives a new row its own key.\<close>

definition keyed_update ::
    "('a \<Rightarrow> str) \<Rightarrow> ('o \<Rightarrow> str) \<Rightarrow> ('a option \<Rightarrow> 'o \<Rightarrow> 'a option option) \<Rightarrow> bool" where
  "keyed_update key okey f \<longleftrightarrow>
     (\<forall>m op r. (\<forall>x. m = Some x \<longrightarrow> key x = okey op) \<longrightarrow> f m op = Some (Some r) \<longrightarrow> key r = okey op)"

lemma keyed_updateD:
  "keyed_update key okey f \<Longrightarrow> f m op = Some (Some r) \<Longrightarrow> (\<And>x. m = Some x \<Longrightarrow> key x = okey op) \<Longrightarrow> key r = okey op"
  unfolding keyed_update_def by blast

lemma fold_opt_key:
  assumes "keyed_update key okey f" "\<And>op. op \<in> set ops \<Longrightarrow> okey op = k"
    and "\<And>y. x = Some y \<Longrightarrow> key y = k" "fold_opt (\<lambda>op x. f x op) ops x = Some (Some r)"
  shows "key r = k"
  using assms(2-4)
proof (induction ops arbitrary: x)
  case (Cons op ops)
  then obtain y where y: "f x op = Some y" "fold_opt (\<lambda>op x. f x op) ops y = Some (Some r)"
    by (auto split: Option.bind_splits)
  have "key z = k" if "y = Some z" for z
    using keyed_updateD [OF assms(1), of x op z] y(1) that Cons.prems(1,2) by simp
  note y_key = this
  show ?case by (rule Cons.IH [OF _ y_key y(2)]) (use Cons.prems(1) in simp)
qed simp

text \<open>Several operations on one key act as their composition.\<close>

lemma fold_row_step_group:
  assumes "keys_ordered key rows" "\<And>op. op \<in> set ops \<Longrightarrow> okey op = k" "ops \<noteq> []"
    and key: "keyed_update key okey f"
  shows "fold_opt (row_step key okey f) ops rows
    = map_option (\<lambda>x. upsert key k x rows) (fold_opt (\<lambda>op x. f x op) ops (lookup key rows k))"
  using assms(1,2,3)
proof (induction ops arbitrary: rows)
  case (Cons op ops)
  have op: "okey op = k" using Cons.prems(2) by simp
  show ?case
  proof (cases "f (lookup key rows k) op")
    case None
    then show ?thesis by (simp add: row_step_def op)
  next
    case (Some x)
    have x: "key r = k" if "x = Some r" for r
      using keyed_updateD [OF key, of "lookup key rows k" op r] Some that op lookup_SomeD [of key rows k]
      by simp
    have ordered: "keys_ordered key (upsert key k x rows)" using Cons.prems(1) x by (rule upsert_ordered)
    have step: "row_step key okey f op rows = Some (upsert key k x rows)" using Some by (simp add: row_step_def op)
    show ?thesis
    proof (cases "ops = []")
      case True
      then show ?thesis using Some by (simp add: row_step_def op)
    next
      case False
      have "fold_opt (row_step key okey f) ops (upsert key k x rows)
          = map_option (\<lambda>y. upsert key k y (upsert key k x rows)) (fold_opt (\<lambda>op x. f x op) ops x)"
        using Cons.IH [OF ordered _ False] Cons.prems(2) lookup_upsert [OF Cons.prems(1) x] by simp
      also have "\<dots> = map_option (\<lambda>y. upsert key k y rows) (fold_opt (\<lambda>op x. f x op) ops x)"
      proof (rule option.map_cong0)
        fix y
        assume y: "y \<in> set_option (fold_opt (\<lambda>op x. f x op) ops x)"
        have "key r = k" if "y = Some r" for r
        proof (rule fold_opt_key [OF key])
          show "okey op' = k" if "op' \<in> set ops" for op' using Cons.prems(2) that by simp
          show "key z = k" if "x = Some z" for z using x that .
          show "fold_opt (\<lambda>op x. f x op) ops x = Some (Some r)" using y that by simp
        qed
        then show "upsert key k y (upsert key k x rows) = upsert key k y rows"
          by (intro upsert_upsert [OF Cons.prems(1) x])
      qed
      finally show ?thesis using step Some by simp
    qed
  qed
qed simp

text \<open>
  One ordered pass over rows and operations, the shape of the two \<^verbatim>\<open>_linear\<close> functions of the table:
  the rows before an operation's key are copied, the row at the key goes through every operation on
  that key.
\<close>

definition merge_point :: "('a \<Rightarrow> str) \<Rightarrow> str \<Rightarrow> 'a list \<Rightarrow> 'a list \<times> 'a option \<times> 'a list" where
  "merge_point key k rows =
     (let before = takeWhile (\<lambda>r. key r < k) rows; rest = dropWhile (\<lambda>r. key r < k) rows in
      case rest of
        r # rest' \<Rightarrow> if key r = k then (before, Some r, rest') else (before, None, rest)
      | [] \<Rightarrow> (before, None, []))"

lemma merge_point_eq:
  assumes "keys_ordered key rows"
  shows "merge_point key k rows =
    (takeWhile (\<lambda>r. key r < k) rows, lookup key rows k, dropWhile (\<lambda>r. key r \<le> k) rows)"
proof -
  note drop = dropWhile_lookup [OF assms, of k]
  show ?thesis
  proof (cases "lookup key rows k")
    case None
    then have d: "dropWhile (\<lambda>r. key r < k) rows = dropWhile (\<lambda>r. key r \<le> k) rows" using drop by simp
    have "key r \<noteq> k" if "dropWhile (\<lambda>r. key r < k) rows = r # rest" for r rest
      using rows_after [OF assms, of r k] that d by auto
    with None show ?thesis
      by (cases "dropWhile (\<lambda>r. key r < k) rows") (simp_all add: merge_point_def Let_def d [symmetric] del: dropWhile_eq_Nil_conv)
  next
    case (Some r)
    then show ?thesis using drop lookup_SomeD [OF Some] by (simp add: merge_point_def Let_def)
  qed
qed

lemma fold_row_step_merge:
  assumes ordered: "keys_ordered key rows"
    and batch: "\<And>op. op \<in> set batch \<Longrightarrow> okey op = k" "batch \<noteq> []"
    and later: "\<And>op. op \<in> set ops \<Longrightarrow> k < okey op"
    and key: "keyed_update key okey f"
    and point: "merge_point key k rows = (before, current, rest)"
  shows "fold_opt (row_step key okey f) (batch @ ops) rows =
    Option.bind (fold_opt (\<lambda>op x. f x op) batch current) (\<lambda>x.
      map_option (\<lambda>rs. before @ option_list x @ rs) (fold_opt (row_step key okey f) ops rest))"
proof -
  have p: "before = takeWhile (\<lambda>r. key r < k) rows" "current = lookup key rows k"
    "rest = dropWhile (\<lambda>r. key r \<le> k) rows"
    using point merge_point_eq [OF ordered, of k] by simp_all
  show ?thesis
  proof (cases "fold_opt (\<lambda>op x. f x op) batch current")
    case None
    then show ?thesis by (simp add: fold_opt_append fold_row_step_group [OF ordered batch key] p(2))
  next
    case (Some x)
    have "key r = k" if "x = Some r" for r
    proof (rule fold_opt_key [OF key batch(1)])
      show "key y = k" if "current = Some y" for y
        using lookup_SomeD [of key rows k y] p(2) that by simp
      show "fold_opt (\<lambda>op x. f x op) batch current = Some (Some r)" using Some that by simp
    qed
    then have "fold_opt (row_step key okey f) ops ((before @ option_list x) @ rest)
        = map_option (\<lambda>rs. (before @ option_list x) @ rs) (fold_opt (row_step key okey f) ops rest)"
      using rows_before [of _ key k rows] later p(1)
      by (intro fold_row_step_prefix) (auto intro: less_trans)
    with Some show ?thesis
      by (simp add: fold_opt_append fold_row_step_group [OF ordered batch key] p upsert_def)
  qed
qed

section \<open>The contract of an ordered index\<close>

locale ordered_index =
  fixes key :: "'a \<Rightarrow> str"
    and wf :: "'i \<Rightarrow> bool"
    and rows :: "'i \<Rightarrow> 'a list"
    and get :: "'i \<Rightarrow> str \<Rightarrow> 'a option"
    and updated :: "'i \<Rightarrow> str \<Rightarrow> 'a option \<Rightarrow> 'i"
    and from_sorted :: "'a list \<Rightarrow> 'i"
  assumes rows_ordered: "wf i \<Longrightarrow> keys_ordered key (rows i)"
    and get_lookup: "wf i \<Longrightarrow> get i k = lookup key (rows i) k"
    and updated_inv: "wf i \<Longrightarrow> (\<And>r. x = Some r \<Longrightarrow> key r = k) \<Longrightarrow> wf (updated i k x)"
    and updated_rows: "wf i \<Longrightarrow> rows (updated i k x) = upsert key k x (rows i)"
    and from_sorted_inv: "keys_ordered key rs \<Longrightarrow> wf (from_sorted rs)"
    and from_sorted_rows: "rows (from_sorted rs) = rs"
begin

lemma get_updated:
  assumes "wf i" "\<And>r. x = Some r \<Longrightarrow> key r = k"
  shows "get (updated i k x) = (get i)(k := x)"
  using assms lookup_upsert [OF rows_ordered [OF assms(1)] assms(2)]
  by (auto simp: get_lookup updated_inv updated_rows fun_eq_iff)

lemma get_from_sorted: "keys_ordered key rs \<Longrightarrow> get (from_sorted rs) k = lookup key rs k"
  by (simp add: get_lookup from_sorted_inv from_sorted_rows)

lemma get_key: "wf i \<Longrightarrow> get i k = Some r \<Longrightarrow> key r = k"
  by (simp add: get_lookup lookup_SomeD)

text \<open>Indexes that answer every lookup alike hold the same rows.\<close>

lemma rows_ext: "wf i \<Longrightarrow> wf j \<Longrightarrow> get i = get j \<Longrightarrow> rows i = rows j"
  by (rule lookup_ext [OF rows_ordered rows_ordered]) (simp_all add: get_lookup [symmetric])

text \<open>A loop of single edits keeps the invariant and acts on the rows as the ordered pass does.\<close>

lemma edits_step:
  assumes "wf i"
  shows "map_option rows (map_option (updated i (okey op)) (f (get i (okey op)) op))
      = row_step key okey f op (rows i)"
  using assms by (simp add: row_step_def get_lookup updated_rows option.map_comp comp_def)

lemma edit_wf:
  assumes "wf i" "keyed_update key okey f" "f (get i (okey op)) op = Some x"
  shows "wf (updated i (okey op) x)"
proof (rule updated_inv [OF assms(1)])
  fix r
  assume "x = Some r"
  then show "key r = okey op"
    using keyed_updateD [OF assms(2), of "get i (okey op)" op r] assms(3) get_key [OF assms(1)] by simp
qed

lemma edits_rows:
  assumes "wf i" "keyed_update key okey f"
  shows "map_option rows (fold_opt (\<lambda>op j. map_option (updated j (okey op)) (f (get j (okey op)) op)) ops i)
    = fold_opt (row_step key okey f) ops (rows i)"
  using assms(1)
proof (induction ops arbitrary: i)
  case (Cons op ops)
  have step: "map_option rows (map_option (updated i (okey op)) (f (get i (okey op)) op))
      = row_step key okey f op (rows i)"
    using Cons.prems by (rule edits_step)
  show ?case
  proof (cases "map_option (updated i (okey op)) (f (get i (okey op)) op)")
    case None
    with step have "row_step key okey f op (rows i) = None" by simp
    with None show ?thesis by simp
  next
    case (Some j)
    with step have "row_step key okey f op (rows i) = Some (rows j)" by simp
    moreover have "wf j" using Some edit_wf [OF Cons.prems assms(2)] by auto
    ultimately show ?thesis using Some Cons.IH by auto
  qed
qed simp

lemma edits_inv:
  assumes "wf i" "keyed_update key okey f"
    and "fold_opt (\<lambda>op j. map_option (updated j (okey op)) (f (get j (okey op)) op)) ops i = Some j"
  shows "wf j"
  using assms(1,3)
proof (induction ops arbitrary: i)
  case (Cons op ops)
  then obtain i' where "map_option (updated i (okey op)) (f (get i (okey op)) op) = Some i'"
    "fold_opt (\<lambda>op j. map_option (updated j (okey op)) (f (get j (okey op)) op)) ops i' = Some j"
    by (auto split: Option.bind_splits)
  note step = this
  have "wf i'" using step(1) edit_wf [OF Cons.prems(1) assms(2)] by auto
  from Cons.IH [OF this step(2)] show ?case .
qed simp

end

interpretation packed: ordered_index key "pi_inv key" pi_rows "pi_get key" "pi_updated key" pi_from_sorted
  for key :: "'a \<Rightarrow> str"
  by unfold_locales
    (simp_all add: pi_get_lookup pi_updated_inv pi_updated_rows pi_inv_from_sorted, simp add: pi_inv_def)

end
