(* ===== verification/TF_Accept.thy ===== *)
theory TF_Accept
  imports TF_Decode
begin

text \<open>
  What the decoder guarantees about every transition it accepts, whatever the bytes: the order and
  the shape of its operations, on which the application of a transition to a table relies.
\<close>

section \<open>Postconditions of a reader\<close>

definition yields :: "'a decoder \<Rightarrow> ('a \<Rightarrow> bool) \<Rightarrow> bool" where
  "yields d P \<longleftrightarrow> (\<forall>c v c'. d c = Inr (v, c') \<longrightarrow> P v)"

named_theorems yields_intros \<open>postconditions of packed readers\<close>

lemma yieldsI: "(\<And>c v c'. d c = Inr (v, c') \<Longrightarrow> P v) \<Longrightarrow> yields d P"
  by (auto simp: yields_def)

lemma yieldsD: "yields d P \<Longrightarrow> d c = Inr (v, c') \<Longrightarrow> P v"
  by (auto simp: yields_def)

lemma yields_any [simp]: "yields d (\<lambda>_. True)"
  by (simp add: yields_def)

lemma yields_mono: "yields d P \<Longrightarrow> (\<And>v. P v \<Longrightarrow> Q v) \<Longrightarrow> yields d Q"
  by (auto simp: yields_def)

lemma yields_conj: "yields d P \<Longrightarrow> yields d Q \<Longrightarrow> yields d (\<lambda>v. P v \<and> Q v)"
  by (auto simp: yields_def)

lemma yields_dret: "P v \<Longrightarrow> yields (dret v) P"
  by (auto simp: yields_def dret_def)

lemma yields_dfail: "yields (dfail e) P"
  by (auto simp: yields_def dfail_def)

lemma yields_dbind: "yields d P \<Longrightarrow> (\<And>v. P v \<Longrightarrow> yields (f v) Q) \<Longrightarrow> yields (dbind d f) Q"
  unfolding yields_def dbind_def by (fastforce simp: rbind_Inr_iff)

lemma yields_skip: "(\<And>v. yields (f v) Q) \<Longrightarrow> yields (dbind d f) Q"
  by (rule yields_dbind [OF yields_any])

lemma yields_check: "(ok \<Longrightarrow> yields (f ()) Q) \<Longrightarrow> yields (dbind (dassert ok e) f) Q"
  by (rule yields_dbind [of _ "\<lambda>_. ok"]) (auto simp: yields_def dassert_def dfail_def)

lemma yields_dlift: "(\<And>a. r = Inr a \<Longrightarrow> P a) \<Longrightarrow> yields (dlift r) P"
  by (auto simp: yields_def dlift_def dfail_def dret_def split: sum.splits)

lemma yields_lift_check: "(r = Inr () \<Longrightarrow> yields (f ()) Q) \<Longrightarrow> yields (dbind (dlift r) f) Q"
  by (rule yields_dbind [of _ "\<lambda>_. r = Inr ()"]) (auto intro: yields_dlift)

lemma yields_drepeat: "yields d P \<Longrightarrow> yields (drepeat n d) (\<lambda>xs. length xs = n \<and> list_all P xs)"
proof (induction n)
  case (Suc n)
  show ?case
    unfolding drepeat.simps
    by (rule yields_dbind [OF Suc.prems], rule yields_dbind [OF Suc.IH [OF Suc.prems]], rule yields_dret) simp
qed (simp add: yields_dret)

text \<open>A loop that threads the key of the last row and checks that keys increase.\<close>

lemma yields_ordered:
  fixes key :: "'a \<Rightarrow> 'k::linorder"
  assumes "\<And>previous. yields (d previous) (\<lambda>(v, next).
    next = Some (key v) \<and> (\<forall>k. previous = Some k \<longrightarrow> k < key v) \<and> P v)"
  shows "yields (drepeat_st n d previous) (\<lambda>xs. length xs = n \<and> list_all P xs
    \<and> successively (\<lambda>a b. key a < key b) xs \<and> (\<forall>k. previous = Some k \<longrightarrow> xs \<noteq> [] \<longrightarrow> k < key (hd xs)))"
proof (induction n arbitrary: previous)
  case (Suc n)
  show ?case
    unfolding drepeat_st.simps
  proof (rule yields_dbind [OF assms], clarify)
    fix v
    assume v: "\<forall>k. previous = Some k \<longrightarrow> k < key v" "P v"
    show "yields (dbind (drepeat_st n d (Some (key v))) (\<lambda>xs. dret (v # xs)))
      (\<lambda>xs. length xs = Suc n \<and> list_all P xs \<and> successively (\<lambda>a b. key a < key b) xs
        \<and> (\<forall>k. previous = Some k \<longrightarrow> xs \<noteq> [] \<longrightarrow> k < key (hd xs)))"
      by (rule yields_dbind [OF Suc.IH], rule yields_dret) (use v in \<open>auto simp: successively_Cons\<close>)
  qed
qed (simp add: yields_dret)

section \<open>The shape of an accepted transition\<close>

definition path_op_shape :: "transition_mode \<Rightarrow> path_op \<Rightarrow> bool" where
  "path_op_shape mode op \<longleftrightarrow>
     po_path op \<noteq> []
     \<and> \<not> (po_source op = SlotUnchanged \<and> po_entities op = SlotUnchanged \<and> po_file op = SlotUnchanged)
     \<and> (mode = ModeFull \<longrightarrow>
          po_source op \<noteq> SlotRemove \<and> po_entities op \<noteq> SlotRemove \<and> po_file op \<noteq> SlotRemove)
     \<and> (case po_source op of SlotReplace hash \<Rightarrow> source_hash_parse hash = Inr hash | _ \<Rightarrow> True)
     \<and> (case po_entities op of
          SlotReplace entities \<Rightarrow> entities \<noteq> [] \<and> entity_run_is_canonical (po_path op) entities
        | _ \<Rightarrow> True)
     \<and> (case po_file op of SlotReplace file \<Rightarrow> ff_path file = po_path op | _ \<Rightarrow> True)"

fun symbol_op_key :: "symbol_op \<Rightarrow> symbol_key" where
  "symbol_op_key (SymReplace symbol) = (sf_id symbol, 0, [])"
| "symbol_op_key (SymRemove ident) = (ident, 1, [])"
| "symbol_op_key (SymReplaceReferencePath ident path references) = (ident, 2, path)"

fun symbol_op_shape :: "transition_mode \<Rightarrow> symbol_op \<Rightarrow> bool" where
  "symbol_op_shape mode (SymReplace symbol) \<longleftrightarrow>
     sf_id symbol \<noteq> [] \<and> locations_are_canonical (sf_references symbol)
     \<and> (sf_alias_target symbol = [] \<or> sf_references symbol = [])"
| "symbol_op_shape mode (SymRemove ident) \<longleftrightarrow> mode = ModeDelta \<and> ident \<noteq> []"
| "symbol_op_shape mode (SymReplaceReferencePath ident path references) \<longleftrightarrow>
     mode = ModeDelta \<and> ident \<noteq> [] \<and> path \<noteq> []
     \<and> list_all (\<lambda>r. loc_path r = path) references \<and> locations_are_canonical references"

definition transition_shape :: "wire_table_transition \<Rightarrow> bool" where
  "transition_shape t \<longleftrightarrow>
     wt_table_schema t \<in> set supported_table_schemas
     \<and> wt_target_generation t \<noteq> 0 \<and> wt_project_id t \<noteq> []
     \<and> check_base_identity (wt_mode t) (wt_base_generation t) (wt_target_generation t)
         (wt_base_state_token t) = Inr ()
     \<and> list_all (path_op_shape (wt_mode t)) (wt_paths t)
     \<and> successively (\<lambda>a b. po_path a < po_path b) (wt_paths t)
     \<and> list_all (symbol_op_shape (wt_mode t)) (wt_symbols t)
     \<and> successively (\<lambda>a b. symbol_op_key a < symbol_op_key b) (wt_symbols t)"

lemma yields_raw_digest: "yields (dlift (raw_digest raw)) (\<lambda>hash. source_hash_parse hash = Inr hash)"
  by (rule yields_dlift)
    (auto simp: raw_digest_def source_hash_parse_def rbind_Inr_iff split: if_splits sum.splits)

lemma yields_entity_replacement:
  "yields (decode_entity_replacement strings path schema)
     (\<lambda>entities. entities \<noteq> [] \<and> entity_run_is_canonical path entities)"
  unfolding decode_entity_replacement_def
  by (intro yields_skip yields_check yields_dret) simp

lemma yields_file_fact: "yields (decode_file_fact strings path) (\<lambda>file. ff_path file = path)"
  unfolding decode_file_fact_def by (intro yields_skip yields_dret) simp

lemma slot_tag_le: "slot_tag value label = Inr tag \<Longrightarrow> tag = 0 \<or> tag = 1 \<or> tag = 2"
proof -
  assume "slot_tag value label = Inr tag"
  then have "tag \<le> 2" by (auto simp: slot_tag_def split: if_splits)
  then have "unat tag \<le> 2" by (simp add: word_le_nat_alt)
  then have "unat tag = unat (0 :: u64) \<or> unat tag = unat (1 :: u64) \<or> unat tag = unat (2 :: u64)" by auto
  then show ?thesis by (simp only: word_unat_eq_iff)
qed

lemma yields_slot_tag: "yields (dlift (slot_tag value label)) (\<lambda>tag. tag = 0 \<or> tag = 1 \<or> tag = 2)"
  by (rule yields_dlift) (rule slot_tag_le)

definition slot_reads :: "u64 \<Rightarrow> ('a \<Rightarrow> bool) \<Rightarrow> 'a slot_op \<Rightarrow> bool" where
  "slot_reads tag P slot \<longleftrightarrow>
     (slot = SlotUnchanged \<longrightarrow> tag = 0) \<and> (slot = SlotRemove \<longrightarrow> tag = 2)
     \<and> (case slot of SlotReplace v \<Rightarrow> P v | _ \<Rightarrow> True)"

lemma yields_slot:
  assumes "yields d P" "tag = 0 \<or> tag = 1 \<or> tag = 2"
  shows "yields (decode_slot tag d) (slot_reads tag P)"
  using assms(2) unfolding decode_slot_def
  by (auto intro!: yields_dret yields_dbind [OF assms(1)] simp: slot_reads_def)

lemma path_op_shapeI:
  assumes "path \<noteq> []" "[source_tag, entity_tag, file_tag] \<noteq> [0, 0, 0]"
    and "\<not> (mode = ModeFull \<and> 2 \<in> set [source_tag, entity_tag, file_tag])"
    and "slot_reads source_tag (\<lambda>hash. source_hash_parse hash = Inr hash) source"
    and "slot_reads entity_tag (\<lambda>es. es \<noteq> [] \<and> entity_run_is_canonical path es) entities"
    and "slot_reads file_tag (\<lambda>file. ff_path file = path) file"
  shows "path_op_shape mode \<lparr>po_path = path, po_source = source, po_entities = entities, po_file = file\<rparr>"
proof -
  have "\<not> (source = SlotUnchanged \<and> entities = SlotUnchanged \<and> file = SlotUnchanged)"
    using assms(2,4-6) by (auto simp: slot_reads_def)
  moreover have "mode = ModeFull \<longrightarrow> source \<noteq> SlotRemove \<and> entities \<noteq> SlotRemove \<and> file \<noteq> SlotRemove"
    using assms(3-6) unfolding slot_reads_def by (metis list.set_intros)
  ultimately show ?thesis
    using assms(1,4-6) by (simp add: path_op_shape_def slot_reads_def cong: slot_op.case_cong)
qed

lemma yields_path_op:
  "yields (decode_path_op strings mode schema previous) (\<lambda>(op, next).
     next = Some (po_path op) \<and> (\<forall>k. previous = Some k \<longrightarrow> k < po_path op) \<and> path_op_shape mode op)"
  unfolding decode_path_op_def
  apply (rule yields_skip)
  apply (rule yields_check)
  apply (rule yields_check)
  apply (rule yields_skip)
  apply (rule yields_check)
  apply (rule yields_dbind [OF yields_slot_tag])
  apply (rule yields_dbind [OF yields_slot_tag])
  apply (rule yields_dbind [OF yields_slot_tag])
  apply (rule yields_check)
  apply (rule yields_check)
  apply (rule yields_dbind [OF yields_slot [OF yields_skip [OF yields_raw_digest]]], assumption)
  apply (rule yields_dbind [OF yields_slot [OF yields_entity_replacement]], assumption)
  apply (rule yields_dbind [OF yields_slot [OF yields_file_fact]], assumption)
  apply (rule yields_dret)
  apply (simp only: prod.case)
  apply (intro conjI)
    apply simp
   apply (simp split: option.splits)
  apply (rule path_op_shapeI; assumption)
  done

lemma yields_symbol_replacement:
  "ident \<noteq> [] \<Longrightarrow> yields (decode_symbol_replacement strings ident) (\<lambda>op. symbol_op_key op = (ident, 0, []) \<and> symbol_op_shape mode op)"
  unfolding decode_symbol_replacement_def
  by (intro yields_skip yields_check yields_dret) auto

lemma yields_reference_replacement:
  "ident \<noteq> [] \<Longrightarrow> yields (decode_reference_replacement strings ident) (\<lambda>(op, path).
     symbol_op_key op = (ident, 2, path) \<and> symbol_op_shape ModeDelta op)"
  unfolding decode_reference_replacement_def
  by (intro yields_skip yields_check yields_dret) auto

lemma and_3_cases: "x AND 3 \<noteq> 3 \<Longrightarrow> x AND 3 = 0 \<or> x AND 3 = 1 \<or> x AND 3 = 2" for x :: u64
proof -
  assume ne: "x AND 3 \<noteq> 3"
  have "x AND 3 \<le> 3" by (rule word_and_le1)
  with ne have "x AND 3 \<le> 2" by (simp add: word_le_nat_alt word_unat_eq_iff)
  then have "slot_tag (x AND 3) [] = Inr (x AND 3)" by (simp add: slot_tag_def)
  then show ?thesis by (rule slot_tag_le)
qed

lemma yields_symbol_header:
  "yields (decode_symbol_header strings mode) (\<lambda>(ident, tag). tag = 0 \<or> tag = 1 \<or> tag = 2)"
  unfolding decode_symbol_header_def
  apply (rule yields_skip)
  apply (rule yields_dbind [of _ "\<lambda>(_, tag). tag = 0 \<or> tag = 1 \<or> tag = 2"])
   apply (rule yields_dlift)
   apply (auto simp: Let_def split: transition_mode.splits if_splits intro!: yields_skip yields_dret dest: and_3_cases)
  done

lemma yields_symbol_op:
  "yields (decode_symbol_op strings mode previous) (\<lambda>(op, next).
     next = Some (symbol_op_key op) \<and> (\<forall>k. previous = Some k \<longrightarrow> k < symbol_op_key op) \<and> symbol_op_shape mode op)"
  unfolding decode_symbol_op_def
  apply (rule yields_dbind [OF yields_symbol_header], clarify)
  apply (rule yields_check)
  apply (rule yields_check)
  subgoal for ident tag
    apply (rule yields_dbind [of _ "\<lambda>(op, path). symbol_op_key op = (ident, tag, path) \<and> symbol_op_shape mode op"])
     apply (cases mode)
      apply (auto intro!: yields_dret yields_dbind [OF yields_symbol_replacement]
        yields_mono [OF yields_reference_replacement])[2]
    apply (clarify, rule yields_check, rule yields_dret)
    apply (auto split: option.splits)
    done
  done

lemma decode_shape:
  assumes "decode_table_transition input = Inr t"
  shows "transition_shape t"
proof -
  have "yields decode_transition_body transition_shape"
    unfolding decode_transition_body_def
    apply (rule yields_skip)
    apply (rule yields_check)
    apply (rule yields_skip)
    apply (rule yields_skip)
    apply (rule yields_check)
    apply (rule yields_skip)
    apply (rule yields_skip)
    apply (rule yields_check)
    apply (rule yields_skip)
    apply (rule yields_check)
    apply (rule yields_check)
    apply (rule yields_skip)
    apply (rule yields_check)
    apply (rule yields_skip)
    apply (rule yields_lift_check)
    apply (rule yields_skip)
    apply (rule yields_dbind [OF yields_ordered [OF yields_path_op]])
    apply (rule yields_skip)
    apply (rule yields_dbind [OF yields_ordered [OF yields_symbol_op]])
    apply (rule yields_dret)
    apply (simp add: transition_shape_def)
    done
  with assms show ?thesis
    by (auto simp: decode_table_transition_def rbind_Inr_iff dest: yieldsD split: if_splits)
qed

end
