(* ===== verification/TF_Table.thy ===== *)
theory TF_Table
  imports TF_Index TF_Accept
begin

text \<open>
  The retained table of \<^verbatim>\<open>retained_table.rs\<close>: path entries and stored symbols in packed indexes,
  built whole from a full transition, moved on by a delta, and compared and merged by symbol.  A
  \<^verbatim>\<open>None\<close> result is a panic of the source (an \<^verbatim>\<open>expect\<close>, an \<^verbatim>\<open>unreachable!\<close>, a debug assertion or a
  counter below zero).
\<close>

section \<open>Path entries\<close>

record path_entry =
  pe_path :: str
  pe_source :: "source_digest option"
  pe_entities :: "entity_fact list"
  pe_file :: "file_fact option"

definition pe_new :: "str \<Rightarrow> path_entry" where
  "pe_new path = \<lparr>pe_path = path, pe_source = None, pe_entities = [], pe_file = None\<rparr>"

definition pe_is_empty :: "path_entry \<Rightarrow> bool" where
  "pe_is_empty entry \<longleftrightarrow> pe_source entry = None \<and> pe_entities entry = [] \<and> pe_file entry = None"

definition pe_apply :: "path_entry \<Rightarrow> path_op \<Rightarrow> path_entry option" where
  "pe_apply entry operation =
     (let source =
            (case po_source operation of
               SlotUnchanged \<Rightarrow> pe_source entry
             | SlotReplace sha256 \<Rightarrow> Some \<lparr>sd_path = po_path operation, sd_sha256 = sha256\<rparr>
             | SlotRemove \<Rightarrow> None);
          entities =
            (case po_entities operation of
               SlotUnchanged \<Rightarrow> pe_entities entry
             | SlotReplace entities \<Rightarrow> entities
             | SlotRemove \<Rightarrow> []);
          file =
            (case po_file operation of
               SlotUnchanged \<Rightarrow> pe_file entry
             | SlotReplace file \<Rightarrow> Some file
             | SlotRemove \<Rightarrow> None);
          entry' = \<lparr>pe_path = pe_path entry, pe_source = source, pe_entities = entities, pe_file = file\<rparr>
      in if pe_is_empty entry' then None else Some entry')"

section \<open>Stored symbols\<close>

record reference_run =
  rr_path :: str
  rr_locations :: "location list"

record stored_symbol =
  ss_id :: str
  ss_alias_target :: str
  ss_declarations :: "declaration_row list"
  ss_references :: "reference_run packed_index"
  ss_reference_count :: nat

text \<open>The two nested loops of \<^verbatim>\<open>from_fact\<close>: maximal runs of consecutive references on one path.\<close>

function reference_runs :: "location list \<Rightarrow> reference_run list" where
  "reference_runs [] = []"
| "reference_runs (first # references) =
     \<lparr>rr_path = loc_path first,
      rr_locations = first # takeWhile (\<lambda>l. loc_path l = loc_path first) references\<rparr>
     # reference_runs (dropWhile (\<lambda>l. loc_path l = loc_path first) references)"
  by pat_completeness auto
termination
  by (relation "measure length") (auto simp: le_imp_less_Suc length_dropWhile_le)

definition ss_from_fact :: "symbol_fact \<Rightarrow> stored_symbol" where
  "ss_from_fact symbol =
     \<lparr>ss_id = sf_id symbol, ss_alias_target = sf_alias_target symbol,
      ss_declarations = sf_declarations symbol,
      ss_references = pi_from_sorted (reference_runs (sf_references symbol)),
      ss_reference_count = length (sf_references symbol)\<rparr>"

definition ss_replace_reference_path ::
    "stored_symbol \<Rightarrow> str \<Rightarrow> location list \<Rightarrow> stored_symbol option" where
  "ss_replace_reference_path symbol path references =
     (let old_len =
            (case pi_get rr_path (ss_references symbol) path of
               None \<Rightarrow> 0 | Some run \<Rightarrow> length (rr_locations run));
          replacement =
            (if references = [] then None
             else Some \<lparr>rr_path = path, rr_locations = references\<rparr>)
      in if ss_reference_count symbol < old_len then None
         else Some (symbol
           \<lparr>ss_references := pi_updated rr_path (ss_references symbol) path replacement,
            ss_reference_count := ss_reference_count symbol - old_len + length references\<rparr>))"

definition ss_locations :: "stored_symbol \<Rightarrow> location list" where
  "ss_locations symbol = concat (map rr_locations (pi_rows (ss_references symbol)))"

definition ss_to_fact :: "stored_symbol \<Rightarrow> symbol_fact" where
  "ss_to_fact symbol =
     \<lparr>sf_id = ss_id symbol, sf_references = ss_locations symbol,
      sf_alias_target = ss_alias_target symbol, sf_declarations = ss_declarations symbol\<rparr>"

text \<open>\<^verbatim>\<open>PartialEq\<close> of stored symbols.\<close>

definition ss_eq :: "stored_symbol \<Rightarrow> stored_symbol \<Rightarrow> bool" where
  "ss_eq a b \<longleftrightarrow>
     ss_id a = ss_id b \<and> ss_alias_target a = ss_alias_target b
     \<and> ss_declarations a = ss_declarations b \<and> ss_reference_count a = ss_reference_count b
     \<and> pi_rows (ss_references a) = pi_rows (ss_references b)"

section \<open>The table\<close>

record fact_table =
  ft_schema :: u64
  ft_generation :: u64
  ft_project_id :: str
  ft_paths :: "path_entry packed_index"
  ft_symbols :: "stored_symbol packed_index"
  ft_source_count :: nat
  ft_entity_count :: nat
  ft_file_count :: nat
  ft_strict_null_checks :: "bool option"

definition ft_source :: "fact_table \<Rightarrow> str \<Rightarrow> source_digest option" where
  "ft_source table path = Option.bind (pi_get pe_path (ft_paths table) path) pe_source"

definition ft_entities_for_path :: "fact_table \<Rightarrow> str \<Rightarrow> entity_fact list" where
  "ft_entities_for_path table path =
     (case pi_get pe_path (ft_paths table) path of None \<Rightarrow> [] | Some entry \<Rightarrow> pe_entities entry)"

definition ft_file :: "fact_table \<Rightarrow> str \<Rightarrow> file_fact option" where
  "ft_file table path = Option.bind (pi_get pe_path (ft_paths table) path) pe_file"

definition ft_symbol :: "fact_table \<Rightarrow> str \<Rightarrow> stored_symbol option" where
  "ft_symbol table ident = pi_get ss_id (ft_symbols table) ident"

definition ft_symbol_fact :: "fact_table \<Rightarrow> str \<Rightarrow> symbol_fact option" where
  "ft_symbol_fact table ident = map_option ss_to_fact (pi_get ss_id (ft_symbols table) ident)"

definition ft_symbol_alias_target :: "fact_table \<Rightarrow> str \<Rightarrow> str option" where
  "ft_symbol_alias_target table ident = map_option ss_alias_target (pi_get ss_id (ft_symbols table) ident)"

definition ft_symbol_ids :: "fact_table \<Rightarrow> str list" where
  "ft_symbol_ids table = map ss_id (pi_rows (ft_symbols table))"

definition ft_sources :: "fact_table \<Rightarrow> source_digest list" where
  "ft_sources table = List.map_filter pe_source (pi_rows (ft_paths table))"

definition ft_entities :: "fact_table \<Rightarrow> entity_fact list" where
  "ft_entities table = concat (map pe_entities (pi_rows (ft_paths table)))"

definition ft_files :: "fact_table \<Rightarrow> file_fact list" where
  "ft_files table = List.map_filter pe_file (pi_rows (ft_paths table))"

text \<open>The counters as the table computes them from its entries.\<close>

definition count_sources :: "path_entry list \<Rightarrow> nat" where
  "count_sources entries = length (filter (\<lambda>entry. pe_source entry \<noteq> None) entries)"

definition count_entities :: "path_entry list \<Rightarrow> nat" where
  "count_entities entries = sum_list (map (\<lambda>entry. length (pe_entities entry)) entries)"

definition count_files :: "path_entry list \<Rightarrow> nat" where
  "count_files entries = length (filter (\<lambda>entry. pe_file entry \<noteq> None) entries)"

definition ft_symbol_count :: "fact_table \<Rightarrow> nat" where
  "ft_symbol_count table = pi_len (ft_symbols table)"

section \<open>A full transition\<close>

definition full_entry :: "path_op \<Rightarrow> path_entry" where
  "full_entry operation =
     \<lparr>pe_path = po_path operation,
      pe_source =
        (case po_source operation of
           SlotReplace sha256 \<Rightarrow> Some \<lparr>sd_path = po_path operation, sd_sha256 = sha256\<rparr>
         | _ \<Rightarrow> None),
      pe_entities = (case po_entities operation of SlotReplace entities \<Rightarrow> entities | _ \<Rightarrow> []),
      pe_file = (case po_file operation of SlotReplace file \<Rightarrow> Some file | _ \<Rightarrow> None)\<rparr>"

fun full_symbols :: "symbol_op list \<Rightarrow> stored_symbol list option" where
  "full_symbols [] = Some []"
| "full_symbols (operation # operations) =
     (case operation of
        SymReplace symbol \<Rightarrow> map_option (\<lambda>symbols. ss_from_fact symbol # symbols) (full_symbols operations)
      | _ \<Rightarrow> None)"

definition materialize_full :: "wire_table_transition \<Rightarrow> fact_table option" where
  "materialize_full transition =
     (if wt_mode transition \<noteq> ModeFull then None
      else
        let entries = filter (\<lambda>entry. \<not> pe_is_empty entry) (map full_entry (wt_paths transition)) in
        map_option (\<lambda>symbols.
          \<lparr>ft_schema = wt_table_schema transition, ft_generation = wt_target_generation transition,
           ft_project_id = wt_project_id transition, ft_paths = pi_from_sorted entries,
           ft_symbols = pi_from_sorted symbols, ft_source_count = count_sources entries,
           ft_entity_count = count_entities entries, ft_file_count = count_files entries,
           ft_strict_null_checks = None\<rparr>) (full_symbols (wt_symbols transition)))"

section \<open>A delta\<close>

datatype delta_error =
    ReferenceNamesMissingSymbol str
  | ReferenceNamesAliasSymbol str

text \<open>The loop of \<^verbatim>\<open>validate_delta\<close> with its three variables \<^verbatim>\<open>current_id\<close>, \<^verbatim>\<open>exists\<close> and \<^verbatim>\<open>alias\<close>.\<close>

fun validate_symbols ::
    "stored_symbol packed_index \<Rightarrow> str \<Rightarrow> bool \<Rightarrow> bool \<Rightarrow> symbol_op list \<Rightarrow> delta_error + unit" where
  "validate_symbols retained current exists alias [] = Inr ()"
| "validate_symbols retained current exists alias (operation # operations) =
     (let ident = symbol_op_id operation;
          (exists, alias) =
            (if ident \<noteq> current
             then (case pi_get ss_id retained ident of
                     None \<Rightarrow> (False, False)
                   | Some symbol \<Rightarrow> (True, ss_alias_target symbol \<noteq> []))
             else (exists, alias))
      in case operation of
           SymReplace symbol \<Rightarrow>
             validate_symbols retained ident True (sf_alias_target symbol \<noteq> []) operations
         | SymRemove _ \<Rightarrow> validate_symbols retained ident False False operations
         | SymReplaceReferencePath _ _ _ \<Rightarrow>
             if \<not> exists then Inl (ReferenceNamesMissingSymbol ident)
             else if alias then Inl (ReferenceNamesAliasSymbol ident)
             else validate_symbols retained ident exists alias operations)"

definition validate_delta :: "fact_table \<Rightarrow> wire_table_transition \<Rightarrow> delta_error + unit" where
  "validate_delta table transition =
     validate_symbols (ft_symbols table) [] False False (wt_symbols transition)"

text \<open>The outer option is the panic of \<^verbatim>\<open>expect("reference operation validated before application")\<close>.\<close>

definition apply_one_symbol ::
    "stored_symbol option \<Rightarrow> symbol_op \<Rightarrow> stored_symbol option option" where
  "apply_one_symbol symbol operation =
     (case operation of
        SymReplace replacement \<Rightarrow> Some (Some (ss_from_fact replacement))
      | SymRemove _ \<Rightarrow> Some None
      | SymReplaceReferencePath _ path references \<Rightarrow>
          Option.bind symbol (\<lambda>symbol.
            map_option Some (ss_replace_reference_path symbol path references)))"

definition apply_symbol_operations_sparse ::
    "stored_symbol packed_index \<Rightarrow> symbol_op list \<Rightarrow> stored_symbol packed_index option" where
  "apply_symbol_operations_sparse retained operations =
     fold_opt (\<lambda>operation result.
       map_option (pi_updated ss_id result (symbol_op_id operation))
         (apply_one_symbol (pi_get ss_id result (symbol_op_id operation)) operation))
       operations retained"

function merge_symbol_operations ::
    "stored_symbol list \<Rightarrow> symbol_op list \<Rightarrow> stored_symbol list option" where
  "merge_symbol_operations retained [] = Some retained"
| "merge_symbol_operations retained (operation # operations) =
     (let ident = symbol_op_id operation;
          (before, symbol, rest) = merge_point ss_id ident retained;
          batch = operation # takeWhile (\<lambda>op. symbol_op_id op = ident) operations
      in Option.bind (fold_opt (\<lambda>op symbol. apply_one_symbol symbol op) batch symbol) (\<lambda>symbol.
           map_option (\<lambda>merged. before @ option_list symbol @ merged)
             (merge_symbol_operations rest (dropWhile (\<lambda>op. symbol_op_id op = ident) operations))))"
  by pat_completeness auto
termination
  by (relation "measure (\<lambda>(_, ops). length ops)") (auto simp: le_imp_less_Suc length_dropWhile_le)

definition apply_symbol_operations_linear ::
    "stored_symbol packed_index \<Rightarrow> symbol_op list \<Rightarrow> stored_symbol packed_index option" where
  "apply_symbol_operations_linear retained operations =
     map_option pi_from_sorted (merge_symbol_operations (pi_rows retained) operations)"

definition entry_or_new :: "path_entry option \<Rightarrow> str \<Rightarrow> path_entry" where
  "entry_or_new existing path = (case existing of None \<Rightarrow> pe_new path | Some entry \<Rightarrow> entry)"

text \<open>A counter loses what the existing entry counted and gains what its replacement counts.\<close>

definition recount :: "(path_entry \<Rightarrow> nat) \<Rightarrow> path_entry option \<Rightarrow> path_entry option \<Rightarrow> nat \<Rightarrow> nat option" where
  "recount weight existing replacement n =
     (let old = (case existing of None \<Rightarrow> 0 | Some entry \<Rightarrow> weight entry);
          new = (case replacement of None \<Rightarrow> 0 | Some entry \<Rightarrow> weight entry)
      in if n < old then None else Some (n - old + new))"

definition source_weight :: "path_entry \<Rightarrow> nat" where
  "source_weight entry = of_bool (pe_source entry \<noteq> None)"

definition entity_weight :: "path_entry \<Rightarrow> nat" where
  "entity_weight entry = length (pe_entities entry)"

definition file_weight :: "path_entry \<Rightarrow> nat" where
  "file_weight entry = of_bool (pe_file entry \<noteq> None)"

type_synonym path_state = "path_entry packed_index \<times> nat \<times> nat \<times> nat"

definition apply_path_operation :: "path_op \<Rightarrow> path_state \<Rightarrow> path_state option" where
  "apply_path_operation operation = (\<lambda>(result, source_count, entity_count, file_count).
     let path = po_path operation;
         existing = pi_get pe_path result path;
         replacement = pe_apply (entry_or_new existing path) operation
     in Option.bind (recount source_weight existing replacement source_count) (\<lambda>source_count.
        Option.bind (recount entity_weight existing replacement entity_count) (\<lambda>entity_count.
        Option.bind (recount file_weight existing replacement file_count) (\<lambda>file_count.
        Some (pi_updated pe_path result path replacement, source_count, entity_count, file_count)))))"

definition apply_path_operations_sparse :: "fact_table \<Rightarrow> path_op list \<Rightarrow> path_state option" where
  "apply_path_operations_sparse retained operations =
     fold_opt apply_path_operation operations
       (ft_paths retained, ft_source_count retained, ft_entity_count retained, ft_file_count retained)"

fun merge_path_operations :: "path_entry list \<Rightarrow> path_op list \<Rightarrow> path_entry list" where
  "merge_path_operations retained [] = retained"
| "merge_path_operations retained (operation # operations) =
     (let path = po_path operation;
          (before, existing, rest) = merge_point pe_path path retained
      in before @ option_list (pe_apply (entry_or_new existing path) operation)
         @ merge_path_operations rest operations)"

definition apply_path_operations_linear ::
    "path_entry packed_index \<Rightarrow> path_op list \<Rightarrow> path_entry packed_index" where
  "apply_path_operations_linear retained operations =
     pi_from_sorted (merge_path_operations (pi_rows retained) operations)"

definition linear_rebuild_min_operations :: nat where
  "linear_rebuild_min_operations = 32"

definition apply_paths :: "fact_table \<Rightarrow> path_op list \<Rightarrow> path_state option" where
  "apply_paths table operations =
     (if linear_rebuild_min_operations \<le> length operations
      then
        let paths = apply_path_operations_linear (ft_paths table) operations in
        Some (paths, count_sources (pi_rows paths), count_entities (pi_rows paths), count_files (pi_rows paths))
      else apply_path_operations_sparse table operations)"

definition apply_symbols :: "fact_table \<Rightarrow> symbol_op list \<Rightarrow> stored_symbol packed_index option" where
  "apply_symbols table operations =
     (if linear_rebuild_min_operations \<le> length operations
      then apply_symbol_operations_linear (ft_symbols table) operations
      else apply_symbol_operations_sparse (ft_symbols table) operations)"

definition apply_delta :: "fact_table \<Rightarrow> wire_table_transition \<Rightarrow> fact_table option" where
  "apply_delta table transition =
     (if wt_mode transition \<noteq> ModeDelta then None
      else
        Option.bind (apply_paths table (wt_paths transition)) (\<lambda>(paths, sources, entities, files).
        map_option (\<lambda>symbols.
          table\<lparr>ft_schema := wt_table_schema transition, ft_generation := wt_target_generation transition,
                ft_paths := paths, ft_symbols := symbols, ft_source_count := sources,
                ft_entity_count := entities, ft_file_count := files\<rparr>)
          (apply_symbols table (wt_symbols transition))))"

section \<open>Comparing and merging symbol rows\<close>

text \<open>
  The two-pointer loop over rows in key order that \<^verbatim>\<open>replace_symbols\<close> and
  \<^verbatim>\<open>symbols_with_moved_declarations\<close> share: the keys on which the two sides do not hold the same row.
\<close>

fun diff_keys :: "('a \<Rightarrow> str) \<Rightarrow> ('a \<Rightarrow> 'a \<Rightarrow> bool) \<Rightarrow> 'a list \<Rightarrow> 'a list \<Rightarrow> str list" where
  "diff_keys key same [] [] = []"
| "diff_keys key same (left # previous) [] = key left # diff_keys key same previous []"
| "diff_keys key same [] (right # successor) = key right # diff_keys key same [] successor"
| "diff_keys key same (left # previous) (right # successor) =
     (if key left = key right
      then (if same left right then [] else [key left]) @ diff_keys key same previous successor
      else if key left < key right then key left # diff_keys key same previous (right # successor)
      else key right # diff_keys key same (left # previous) successor)"

definition replace_symbols :: "fact_table \<Rightarrow> symbol_fact list \<Rightarrow> fact_table \<times> str list" where
  "replace_symbols table symbols =
     (let successor = map ss_from_fact (sort_key sf_id symbols)
      in (table\<lparr>ft_symbols := pi_from_sorted successor\<rparr>,
          diff_keys ss_id ss_eq (pi_rows (ft_symbols table)) successor))"

text \<open>\<^verbatim>\<open>dedup_by\<close> on the id: of consecutive rows with one id, the first stays.\<close>

function dedup_ids :: "stored_symbol list \<Rightarrow> stored_symbol list" where
  "dedup_ids [] = []"
| "dedup_ids (earlier # rows) =
     earlier # dedup_ids (dropWhile (\<lambda>later. ss_id later = ss_id earlier) rows)"
  by pat_completeness auto
termination
  by (relation "measure length") (auto simp: le_imp_less_Suc length_dropWhile_le)

text \<open>The loop of \<^verbatim>\<open>merge_symbols\<close>: the rows of the successor and the ids that changed.\<close>

fun merge_rows ::
    "str set \<Rightarrow> stored_symbol list \<Rightarrow> stored_symbol list \<Rightarrow> stored_symbol list \<times> str list" where
  "merge_rows removed [] [] = ([], [])"
| "merge_rows removed (left # previous) [] =
     (let (rows, changed) = merge_rows removed previous []
      in if ss_id left \<in> removed then (rows, ss_id left # changed) else (left # rows, changed))"
| "merge_rows removed [] (right # successor) =
     (let (rows, changed) = merge_rows removed [] successor in (right # rows, ss_id right # changed))"
| "merge_rows removed (left # previous) (right # successor) =
     (if ss_id left = ss_id right
      then
        let (rows, changed) = merge_rows removed previous successor
        in if ss_eq left right then (left # rows, changed) else (right # rows, ss_id left # changed)
      else if ss_id left < ss_id right
      then
        let (rows, changed) = merge_rows removed previous (right # successor)
        in if ss_id left \<in> removed then (rows, ss_id left # changed) else (left # rows, changed)
      else
        let (rows, changed) = merge_rows removed (left # previous) successor
        in (right # rows, ss_id right # changed))"

definition merge_symbols :: "fact_table \<Rightarrow> symbol_fact list \<Rightarrow> str set \<Rightarrow> fact_table \<times> str list" where
  "merge_symbols table upserts removed =
     (let successor = dedup_ids (sort_key ss_id (map ss_from_fact upserts));
          (rows, changed) = merge_rows removed (pi_rows (ft_symbols table)) successor
      in (if changed = [] then table else table\<lparr>ft_symbols := pi_from_sorted rows\<rparr>, changed))"

text \<open>
  \<^verbatim>\<open>symbols_with_moved_declarations\<close> skips the leaves that two tables share, by address.  The
  addresses of the leaves, which the allocator chose, are the arguments \<^verbatim>\<open>before\<close> and \<^verbatim>\<open>now\<close>.
\<close>

definition same_declarations :: "stored_symbol \<Rightarrow> stored_symbol \<Rightarrow> bool" where
  "same_declarations left right \<longleftrightarrow>
     ss_alias_target left = ss_alias_target right \<and> ss_declarations left = ss_declarations right"

definition unshared :: "nat list \<Rightarrow> stored_symbol packed_index \<Rightarrow> nat set \<Rightarrow> stored_symbol list" where
  "unshared addresses index shared =
     concat (map snd (filter (\<lambda>(address, leaf). address \<notin> shared) (zip addresses (pi_leaves index))))"

definition symbols_with_moved_declarations ::
    "fact_table \<Rightarrow> nat list \<Rightarrow> fact_table \<Rightarrow> nat list \<Rightarrow> str list" where
  "symbols_with_moved_declarations table now previous before =
     (let shared = set now \<inter> set before
      in diff_keys ss_id same_declarations
           (unshared before (ft_symbols previous) shared) (unshared now (ft_symbols table) shared))"

section \<open>Stored symbols keep their references\<close>

definition ss_wf :: "stored_symbol \<Rightarrow> bool" where
  "ss_wf symbol \<longleftrightarrow>
     pi_inv rr_path (ss_references symbol)
     \<and> (\<forall>run\<in>set (pi_rows (ss_references symbol)).
          rr_locations run \<noteq> [] \<and> (\<forall>l\<in>set (rr_locations run). loc_path l = rr_path run))
     \<and> ss_reference_count symbol = length (ss_locations symbol)"

lemma canonical_paths:
  assumes "locations_are_canonical references"
  shows "sorted (map loc_path references)"
proof -
  have "sorted_wrt (\<lambda>a b. loc_key a \<le> loc_key b) references"
    using assms unfolding locations_are_canonical_def
    by (subst (asm) successively_conv_sorted_wrt) (auto intro: transpI order_trans)
  then show ?thesis
    unfolding sorted_map
    by (rule sorted_wrt_mono_rel [rotated]) (auto simp: loc_key_def less_eq_prod_def dest: less_imp_le)
qed

lemma concat_reference_runs [simp]: "concat (map rr_locations (reference_runs references)) = references"
  by (induction references rule: reference_runs.induct) simp_all

lemma reference_runs_paths: "run \<in> set (reference_runs references) \<Longrightarrow> rr_path run \<in> loc_path ` set references"
proof (induction references rule: reference_runs.induct)
  case (2 first references)
  have "set (dropWhile (\<lambda>l. loc_path l = loc_path first) references) \<subseteq> set references"
    by (auto dest: set_dropWhileD)
  with 2 show ?case by (cases "rr_path run = loc_path first") (simp, fastforce)
qed simp

lemma reference_runs_locations:
  "run \<in> set (reference_runs references) \<Longrightarrow>
   rr_locations run \<noteq> [] \<and> (\<forall>l\<in>set (rr_locations run). loc_path l = rr_path run)"
proof (induction references rule: reference_runs.induct)
  case (2 first references)
  show ?case
  proof (cases "run \<in> set (reference_runs (dropWhile (\<lambda>l. loc_path l = loc_path first) references))")
    case True
    then show ?thesis by (rule 2(1))
  next
    case False
    with 2(2) show ?thesis by (auto dest: set_takeWhileD)
  qed
qed simp

lemma reference_runs_ordered:
  "sorted (map loc_path references) \<Longrightarrow> keys_ordered rr_path (reference_runs references)"
proof (induction references rule: reference_runs.induct)
  case (2 first references)
  let ?rest = "dropWhile (\<lambda>l. loc_path l = loc_path first) references"
  have sorted: "sorted (map loc_path references)" and first: "\<forall>l\<in>set references. loc_path first \<le> loc_path l"
    using 2(2) by auto
  have rest: "sorted (map loc_path ?rest)"
    using sorted by (metis dropWhile_eq_drop drop_map sorted_wrt_drop)
  have "loc_path first < loc_path l" if l: "l \<in> set ?rest" for l
  proof -
    obtain x xs where xs: "?rest = x # xs"
      using l by (cases ?rest) auto
    have "loc_path x \<noteq> loc_path first" using xs unfolding dropWhile_eq_Cons_conv by blast
    moreover have "loc_path first \<le> loc_path x" using first xs by (metis list.set_intros(1) set_dropWhileD)
    moreover have "loc_path x \<le> loc_path l" using rest xs l by auto
    ultimately show ?thesis by simp
  qed
  note after = this
  have "loc_path first < rr_path run" if run: "run \<in> set (reference_runs ?rest)" for run
  proof -
    obtain l where "rr_path run = loc_path l" "l \<in> set ?rest" using reference_runs_paths [OF run] by (rule imageE)
    with after show ?thesis by simp
  qed
  then show ?case using 2(1) [OF rest] by simp
qed simp

lemma ss_to_from_fact [simp]: "ss_to_fact (ss_from_fact symbol) = symbol"
  by (cases symbol) (simp add: ss_to_fact_def ss_from_fact_def ss_locations_def)

lemma ss_from_fact_wf:
  "locations_are_canonical (sf_references symbol) \<Longrightarrow> ss_wf (ss_from_fact symbol)"
  using reference_runs_locations [of _ "sf_references symbol"]
  by (simp add: ss_wf_def ss_from_fact_def ss_locations_def pi_inv_from_sorted reference_runs_ordered
      canonical_paths)

text \<open>The references of a symbol with those on one path replaced.\<close>

definition replace_path_references :: "str \<Rightarrow> location list \<Rightarrow> location list \<Rightarrow> location list" where
  "replace_path_references path replacement references =
     filter (\<lambda>l. loc_path l < path) references @ replacement @ filter (\<lambda>l. path < loc_path l) references"

lemma runs_split:
  assumes ordered: "keys_ordered rr_path runs"
    and paths: "\<forall>run\<in>set runs. \<forall>l\<in>set (rr_locations run). loc_path l = rr_path run"
  shows "concat (map rr_locations (takeWhile (\<lambda>run. rr_path run < path) runs))
      = filter (\<lambda>l. loc_path l < path) (concat (map rr_locations runs))"
    and "concat (map rr_locations (dropWhile (\<lambda>run. rr_path run \<le> path) runs))
      = filter (\<lambda>l. path < loc_path l) (concat (map rr_locations runs))"
proof -
  have none: "filter P (rr_locations run) = []" if "run \<in> set runs" "\<And>l. loc_path l = rr_path run \<Longrightarrow> \<not> P l" for P run
    using that paths by (simp add: filter_empty_conv)
  have all: "filter P (rr_locations run) = rr_locations run" if "run \<in> set runs" "\<And>l. loc_path l = rr_path run \<Longrightarrow> P l" for P run
    using that paths by (simp add: filter_id_conv)
  show "concat (map rr_locations (takeWhile (\<lambda>run. rr_path run < path) runs))
      = filter (\<lambda>l. loc_path l < path) (concat (map rr_locations runs))"
    using ordered none all
  proof (induction runs)
    case (Cons run runs)
    show ?case
    proof (cases "rr_path run < path")
      case True
      with Cons show ?thesis by simp
    next
      case False
      have "filter (\<lambda>l. loc_path l < path) (rr_locations r) = []" if "r \<in> set (run # runs)" for r
        by (rule Cons.prems(2) [OF that]) (use that False Cons.prems(1) in \<open>auto dest: less_trans\<close>)
      then have "filter (\<lambda>l. loc_path l < path) (concat (map rr_locations (run # runs))) = []"
        by (simp add: filter_concat) 
      with False show ?thesis by simp
    qed
  qed simp
  show "concat (map rr_locations (dropWhile (\<lambda>run. rr_path run \<le> path) runs))
      = filter (\<lambda>l. path < loc_path l) (concat (map rr_locations runs))"
    using ordered none all
  proof (induction runs)
    case (Cons run runs)
    show ?case
    proof (cases "rr_path run \<le> path")
      case True
      with Cons show ?thesis by (simp add: not_less)
    next
      case False
      have "filter (\<lambda>l. path < loc_path l) (rr_locations r) = rr_locations r" if "r \<in> set (run # runs)" for r
        by (rule Cons.prems(3) [OF that]) (use that False Cons.prems(1) in \<open>auto dest: less_trans simp: not_le\<close>)
      then have "filter (\<lambda>l. path < loc_path l) (concat (map rr_locations (run # runs)))
          = concat (map rr_locations (run # runs))"
        by (simp add: filter_concat cong: map_cong)
      with False show ?thesis by simp
    qed
  qed simp
qed

lemma ss_replace_reference_path_refines:
  assumes wf: "ss_wf symbol" and refs: "list_all (\<lambda>l. loc_path l = path) references"
  shows "\<exists>symbol'. ss_replace_reference_path symbol path references = Some symbol' \<and> ss_wf symbol'
    \<and> ss_to_fact symbol' = (ss_to_fact symbol)
        \<lparr>sf_references := replace_path_references path references (ss_locations symbol)\<rparr>"
proof -
  let ?index = "ss_references symbol"
  let ?runs = "pi_rows ?index"
  let ?x = "if references = [] then None else Some \<lparr>rr_path = path, rr_locations = references\<rparr>"
  let ?old = "case pi_get rr_path ?index path of None \<Rightarrow> 0 | Some run \<Rightarrow> length (rr_locations run)"
  have inv: "pi_inv rr_path ?index" and locs: "\<forall>run\<in>set ?runs. \<forall>l\<in>set (rr_locations run). loc_path l = rr_path run"
    and ne: "\<forall>run\<in>set ?runs. rr_locations run \<noteq> []" and count: "ss_reference_count symbol = length (ss_locations symbol)"
    using wf by (auto simp: ss_wf_def)
  have ordered: "keys_ordered rr_path ?runs" using inv by (rule packed.rows_ordered)
  have x_key: "\<And>r. ?x = Some r \<Longrightarrow> rr_path r = path" by (auto split: if_splits)
  have x_locs: "concat (map rr_locations (option_list ?x)) = references" by simp
  have rows: "pi_rows (pi_updated rr_path ?index path ?x) = upsert rr_path path ?x ?runs"
    by (rule packed.updated_rows [OF inv])
  have new: "concat (map rr_locations (upsert rr_path path ?x ?runs))
      = replace_path_references path references (ss_locations symbol)"
    by (simp add: upsert_def x_locs runs_split [OF ordered locs] replace_path_references_def ss_locations_def)
  have old: "?old = length (concat (map rr_locations (option_list (lookup rr_path ?runs path))))"
    by (simp add: packed.get_lookup [OF inv] split: option.split)
  have total: "length (ss_locations symbol) = length (filter (\<lambda>l. loc_path l < path) (ss_locations symbol))
      + ?old + length (filter (\<lambda>l. path < loc_path l) (ss_locations symbol))"
  proof -
    have "ss_locations symbol = concat (map rr_locations (takeWhile (\<lambda>r. rr_path r < path) ?runs
        @ option_list (lookup rr_path ?runs path) @ dropWhile (\<lambda>r. rr_path r \<le> path) ?runs))"
      using ordered_split [OF ordered, of path] by (simp add: ss_locations_def)
    then have "ss_locations symbol = filter (\<lambda>l. loc_path l < path) (ss_locations symbol)
        @ concat (map rr_locations (option_list (lookup rr_path ?runs path)))
        @ filter (\<lambda>l. path < loc_path l) (ss_locations symbol)"
      using runs_split [OF ordered locs, of path] by (simp add: ss_locations_def)
    from arg_cong [OF this, of length] show ?thesis by (simp only: old length_append)
  qed
  let ?s = "symbol\<lparr>ss_references := pi_updated rr_path ?index path ?x,
    ss_reference_count := ss_reference_count symbol - ?old + length references\<rparr>"
  have "ss_replace_reference_path symbol path references = Some ?s"
    using total count by (simp add: ss_replace_reference_path_def Let_def)
  moreover have locs': "ss_locations ?s = replace_path_references path references (ss_locations symbol)"
    using new by (simp add: ss_locations_def rows)
  moreover have "ss_wf ?s"
  proof -
    have "set (upsert rr_path path ?x ?runs) \<subseteq> set ?runs \<union> set_option ?x"
      by (auto simp: upsert_def dest: set_takeWhileD set_dropWhileD)
    then have "\<forall>run\<in>set (upsert rr_path path ?x ?runs).
        rr_locations run \<noteq> [] \<and> (\<forall>l\<in>set (rr_locations run). loc_path l = rr_path run)"
      using locs ne refs by (fastforce simp: list_all_iff split: if_splits)
    moreover have "pi_inv rr_path (pi_updated rr_path ?index path ?x)"
      using inv x_key by (rule packed.updated_inv)
    moreover have "ss_reference_count ?s = length (ss_locations ?s)"
      unfolding locs' using total count by (simp add: replace_path_references_def)
    ultimately show ?thesis by (simp add: ss_wf_def rows)
  qed
  ultimately show ?thesis by (auto simp: ss_to_fact_def)
qed

lemma ss_replace_reference_path_fields:
  "ss_replace_reference_path symbol path references = Some symbol' \<Longrightarrow>
   ss_id symbol' = ss_id symbol \<and> ss_alias_target symbol' = ss_alias_target symbol"
  by (auto simp: ss_replace_reference_path_def Let_def split: if_splits)

section \<open>The invariant of a table\<close>

definition pe_wf :: "path_entry \<Rightarrow> bool" where
  "pe_wf entry \<longleftrightarrow>
     \<not> pe_is_empty entry
     \<and> (\<forall>source. pe_source entry = Some source \<longrightarrow> sd_path source = pe_path entry)
     \<and> entity_run_is_canonical (pe_path entry) (pe_entities entry)
     \<and> (\<forall>file. pe_file entry = Some file \<longrightarrow> ff_path file = pe_path entry)"

definition ft_inv :: "fact_table \<Rightarrow> bool" where
  "ft_inv table \<longleftrightarrow>
     pi_inv pe_path (ft_paths table) \<and> (\<forall>entry\<in>set (pi_rows (ft_paths table)). pe_wf entry)
     \<and> pi_inv ss_id (ft_symbols table) \<and> (\<forall>symbol\<in>set (pi_rows (ft_symbols table)). ss_wf symbol)
     \<and> ft_source_count table = count_sources (pi_rows (ft_paths table))
     \<and> ft_entity_count table = count_entities (pi_rows (ft_paths table))
     \<and> ft_file_count table = count_files (pi_rows (ft_paths table))"

section \<open>The abstract table\<close>

text \<open>
  What a client can observe of a table: the digest, the entity run and the file row of a path, and
  the row of a symbol.
\<close>

record abstract_table =
  at_schema :: u64
  at_generation :: u64
  at_project_id :: str
  at_sources :: "str \<rightharpoonup> source_hash"
  at_entities :: "str \<rightharpoonup> entity_fact list"
  at_files :: "str \<rightharpoonup> file_fact"
  at_symbols :: "str \<rightharpoonup> symbol_fact"

definition ft_abs :: "fact_table \<Rightarrow> abstract_table" where
  "ft_abs table =
     \<lparr>at_schema = ft_schema table, at_generation = ft_generation table,
      at_project_id = ft_project_id table,
      at_sources = (\<lambda>path. map_option sd_sha256 (ft_source table path)),
      at_entities = (\<lambda>path. let entities = ft_entities_for_path table path in
        if entities = [] then None else Some entities),
      at_files = ft_file table,
      at_symbols = ft_symbol_fact table\<rparr>"

fun slot_after :: "'a slot_op \<Rightarrow> 'a option \<Rightarrow> 'a option" where
  "slot_after SlotUnchanged old = old"
| "slot_after (SlotReplace v) old = Some v"
| "slot_after SlotRemove old = None"

definition spec_path_op :: "path_op \<Rightarrow> abstract_table \<Rightarrow> abstract_table" where
  "spec_path_op op t =
     (let path = po_path op in
      t\<lparr>at_sources := (at_sources t)(path := slot_after (po_source op) (at_sources t path)),
        at_entities := (at_entities t)(path := slot_after (po_entities op) (at_entities t path)),
        at_files := (at_files t)(path := slot_after (po_file op) (at_files t path))\<rparr>)"

fun spec_symbol_op :: "symbol_op \<Rightarrow> (str \<rightharpoonup> symbol_fact) \<Rightarrow> (str \<rightharpoonup> symbol_fact)" where
  "spec_symbol_op (SymReplace symbol) m = m(sf_id symbol \<mapsto> symbol)"
| "spec_symbol_op (SymRemove ident) m = m(ident := None)"
| "spec_symbol_op (SymReplaceReferencePath ident path references) m =
     m(ident := map_option (\<lambda>symbol. symbol
       \<lparr>sf_references := replace_path_references path references (sf_references symbol)\<rparr>) (m ident))"

text \<open>What a transition means.\<close>

definition spec_transition :: "wire_table_transition \<Rightarrow> abstract_table \<Rightarrow> abstract_table" where
  "spec_transition transition t =
     (fold spec_path_op (wt_paths transition) t)
       \<lparr>at_schema := wt_table_schema transition, at_generation := wt_target_generation transition,
        at_symbols := fold spec_symbol_op (wt_symbols transition) (at_symbols t)\<rparr>"

definition abstract_empty :: "str \<Rightarrow> abstract_table" where
  "abstract_empty project =
     \<lparr>at_schema = 0, at_generation = 0, at_project_id = project, at_sources = Map.empty,
      at_entities = Map.empty, at_files = Map.empty, at_symbols = Map.empty\<rparr>"

end
