(* ===== verification/TF_Apply.thy ===== *)
theory TF_Apply
  imports TF_Table
begin

text \<open>
  Applying a transition to a retained table: sparse leaf edits and the linear rebuild have the same
  effect, no panic of the source is reachable for a decoded and validated delta, the table invariant
  is kept, and the result is the one the abstract table prescribes.
\<close>

section \<open>Path operations\<close>

definition path_step :: "path_entry option \<Rightarrow> path_op \<Rightarrow> path_entry option option" where
  "path_step existing operation = Some (pe_apply (entry_or_new existing (po_path operation)) operation)"

abbreviation path_row_step :: "path_op \<Rightarrow> path_entry list \<Rightarrow> path_entry list option" where
  "path_row_step \<equiv> row_step pe_path po_path path_step"

lemma pe_apply_path: "pe_apply entry operation = Some entry' \<Longrightarrow> pe_path entry' = pe_path entry"
  by (auto simp: pe_apply_def Let_def split: if_splits)

lemma entry_or_new_path: "(\<And>x. existing = Some x \<Longrightarrow> pe_path x = path) \<Longrightarrow> pe_path (entry_or_new existing path) = path"
  by (cases existing) (auto simp: entry_or_new_def pe_new_def)

lemma path_step_keyed: "keyed_update pe_path po_path path_step"
  unfolding keyed_update_def path_step_def by (metis entry_or_new_path option.inject pe_apply_path)

lemma count_weights:
  "count_sources rows = sum_list (map source_weight rows)"
  "count_entities rows = sum_list (map entity_weight rows)"
  "count_files rows = sum_list (map file_weight rows)"
  by (induction rows) (auto simp: count_sources_def count_entities_def count_files_def
      source_weight_def entity_weight_def file_weight_def)

lemma recount_upsert:
  assumes "keys_ordered pe_path rows"
  shows "recount w (lookup pe_path rows k) x (sum_list (map w rows))
    = Some (sum_list (map w (upsert pe_path k x rows)))"
proof -
  have "sum_list (map w rows) = sum_list (map w (takeWhile (\<lambda>r. pe_path r < k) rows))
      + (case lookup pe_path rows k of None \<Rightarrow> 0 | Some entry \<Rightarrow> w entry)
      + sum_list (map w (dropWhile (\<lambda>r. pe_path r \<le> k) rows))"
    using arg_cong [OF ordered_split [OF assms, of k], of "\<lambda>rows. sum_list (map w rows)"]
    by (cases "lookup pe_path rows k") simp_all
  then show ?thesis
    by (cases x) (simp_all add: recount_def Let_def upsert_def)
qed

definition path_state_of :: "path_entry packed_index \<Rightarrow> path_state" where
  "path_state_of index =
     (index, count_sources (pi_rows index), count_entities (pi_rows index), count_files (pi_rows index))"

lemma apply_path_operation_edit:
  assumes "pi_inv pe_path index"
  shows "apply_path_operation operation (path_state_of index) = map_option path_state_of
    (map_option (pi_updated pe_path index (po_path operation))
      (path_step (pi_get pe_path index (po_path operation)) operation))"
proof -
  have ordered: "keys_ordered pe_path (pi_rows index)" using assms by (rule packed.rows_ordered)
  show ?thesis
    by (simp add: apply_path_operation_def path_state_of_def path_step_def Let_def count_weights
        packed.get_lookup [OF assms] packed.updated_rows [OF assms] recount_upsert [OF ordered])
qed

lemma fold_path_operations:
  assumes "pi_inv pe_path index"
  shows "fold_opt apply_path_operation operations (path_state_of index) = map_option path_state_of
    (fold_opt (\<lambda>op j. map_option (pi_updated pe_path j (po_path op))
       (path_step (pi_get pe_path j (po_path op)) op)) operations index)"
  using assms
proof (induction operations arbitrary: index)
  case (Cons op ops)
  let ?j = "pi_updated pe_path index (po_path op) (pe_apply (entry_or_new (pi_get pe_path index (po_path op)) (po_path op)) op)"
  have "pi_inv pe_path ?j"
    using packed.edit_wf [OF Cons.prems path_step_keyed] by (simp add: path_step_def)
  from Cons.IH [OF this] show ?case
    by (simp add: apply_path_operation_edit [OF Cons.prems] path_step_def)
qed simp

lemma merge_path_operations_rows:
  assumes "keys_ordered pe_path rows" "successively (\<lambda>a b. po_path a < po_path b) operations"
  shows "fold_opt path_row_step operations rows = Some (merge_path_operations rows operations)"
  using assms
proof (induction operations arbitrary: rows)
  case (Cons op ops)
  obtain before existing rest where point: "merge_point pe_path (po_path op) rows = (before, existing, rest)"
    by (cases "merge_point pe_path (po_path op) rows")
  have later: "po_path op < po_path o'" if "o' \<in> set ops" for o'
    using Cons.prems(2) that
    by (subst (asm) successively_conv_sorted_wrt) (auto intro: transpI less_trans)
  have rest: "keys_ordered pe_path rest"
    using ordered_split [OF Cons.prems(1), of "po_path op"] merge_point_eq [OF Cons.prems(1), of "po_path op"]
      point Cons.prems(1) by (metis keys_ordered_append prod.inject)
  have "fold_opt path_row_step ([op] @ ops) rows =
    Option.bind (fold_opt (\<lambda>op x. path_step x op) [op] existing) (\<lambda>x.
      map_option (\<lambda>rs. before @ option_list x @ rs) (fold_opt path_row_step ops rest))"
    by (rule fold_row_step_merge [OF Cons.prems(1) _ _ later path_step_keyed point]) auto
  also have "fold_opt path_row_step ops rest = Some (merge_path_operations rest ops)"
    using Cons.IH [OF rest] Cons.prems(2) by (auto simp: successively_Cons)
  finally show ?case by (simp add: point path_step_def Let_def)
qed simp

text \<open>Edits of single leaves and the linear rebuild agree on the rows and on the counters.\<close>

lemma apply_paths_rows:
  assumes inv: "ft_inv table" and ops: "successively (\<lambda>a b. po_path a < po_path b) operations"
  shows "\<exists>index. apply_paths table operations = Some (path_state_of index) \<and> pi_inv pe_path index
    \<and> pi_rows index = merge_path_operations (pi_rows (ft_paths table)) operations"
proof -
  have index: "pi_inv pe_path (ft_paths table)" using inv by (simp add: ft_inv_def)
  have ordered: "keys_ordered pe_path (pi_rows (ft_paths table))" using index by (rule packed.rows_ordered)
  let ?rows = "merge_path_operations (pi_rows (ft_paths table)) operations"
  let ?edits = "fold_opt (\<lambda>op j. map_option (pi_updated pe_path j (po_path op))
       (path_step (pi_get pe_path j (po_path op)) op)) operations (ft_paths table)"
  have "map_option pi_rows ?edits = Some ?rows"
    using packed.edits_rows [OF index path_step_keyed] merge_path_operations_rows [OF ordered ops] by simp
  then obtain j where j: "?edits = Some j" "pi_rows j = ?rows" by auto
  have j_inv: "pi_inv pe_path j" using packed.edits_inv [OF index path_step_keyed j(1)] .
  show ?thesis
  proof (cases "linear_rebuild_min_operations \<le> length operations")
    case True
    have "keys_ordered pe_path ?rows" using packed.rows_ordered [OF j_inv] j(2) by simp
    then show ?thesis using True
      by (auto simp: apply_paths_def apply_path_operations_linear_def path_state_of_def Let_def
          pi_inv_from_sorted intro!: exI [of _ "pi_from_sorted ?rows"])
  next
    case False
    have "(ft_paths table, ft_source_count table, ft_entity_count table, ft_file_count table)
        = path_state_of (ft_paths table)"
      using inv by (simp add: path_state_of_def ft_inv_def)
    then show ?thesis using False fold_path_operations [OF index, of operations] j j_inv
      by (auto simp: apply_paths_def apply_path_operations_sparse_def)
  qed
qed

section \<open>What path operations do to the view of a path\<close>

type_synonym path_view = "source_hash option \<times> entity_fact list option \<times> file_fact option"

definition entry_view :: "path_entry option \<Rightarrow> path_view" where
  "entry_view existing =
     (case existing of
        None \<Rightarrow> (None, None, None)
      | Some entry \<Rightarrow>
          (map_option sd_sha256 (pe_source entry),
           if pe_entities entry = [] then None else Some (pe_entities entry), pe_file entry))"

definition view_after :: "path_op \<Rightarrow> path_view \<Rightarrow> path_view" where
  "view_after op = (\<lambda>(source, entities, file).
     (slot_after (po_source op) source, slot_after (po_entities op) entities, slot_after (po_file op) file))"

definition table_view :: "abstract_table \<Rightarrow> str \<Rightarrow> path_view" where
  "table_view t path = (at_sources t path, at_entities t path, at_files t path)"

lemma table_view_abs: "table_view (ft_abs table) path = entry_view (pi_get pe_path (ft_paths table) path)"
  by (simp add: table_view_def ft_abs_def entry_view_def ft_source_def ft_entities_for_path_def ft_file_def
      Let_def split: option.split)

lemma table_view_ext:
  "(\<And>path. table_view t path = table_view u path) \<Longrightarrow> at_schema t = at_schema u \<Longrightarrow>
   at_generation t = at_generation u \<Longrightarrow> at_project_id t = at_project_id u \<Longrightarrow> at_symbols t = at_symbols u
   \<Longrightarrow> t = u"
  by (cases t; cases u) (auto simp: table_view_def)

lemma table_view_spec [simp]:
  "table_view (spec_path_op op t) = (table_view t)(po_path op := view_after op (table_view t (po_path op)))"
  by (auto simp: table_view_def spec_path_op_def view_after_def Let_def fun_eq_iff)

lemma spec_path_op_fields [simp]:
  "at_schema (fold spec_path_op ops t) = at_schema t"
  "at_generation (fold spec_path_op ops t) = at_generation t"
  "at_project_id (fold spec_path_op ops t) = at_project_id t"
  "at_symbols (fold spec_path_op ops t) = at_symbols t"
  by (induction ops arbitrary: t) (auto simp: spec_path_op_def Let_def)

lemma entry_view_apply:
  assumes "\<And>es. po_entities op = SlotReplace es \<Longrightarrow> es \<noteq> []"
  shows "entry_view (pe_apply (entry_or_new existing path) op) = view_after op (entry_view existing)"
  using assms
  by (cases existing; cases "po_source op"; cases "po_entities op"; cases "po_file op")
    (auto simp: entry_view_def pe_apply_def entry_or_new_def pe_new_def view_after_def Let_def pe_is_empty_def)

lemma pe_new_fields [simp]:
  "pe_path (pe_new path) = path" "pe_source (pe_new path) = None" "pe_entities (pe_new path) = []"
  "pe_file (pe_new path) = None"
  by (simp_all add: pe_new_def)

lemma entry_ok:
  "pe_wf entry \<or> entry = pe_new path \<Longrightarrow>
   entity_run_is_canonical (pe_path entry) (pe_entities entry)
   \<and> (\<forall>source. pe_source entry = Some source \<longrightarrow> sd_path source = pe_path entry)
   \<and> (\<forall>file. pe_file entry = Some file \<longrightarrow> ff_path file = pe_path entry)"
  by (auto simp: pe_wf_def entity_run_is_canonical_def)

lemma pe_apply_wf:
  assumes "pe_wf entry \<or> entry = pe_new path" "pe_path entry = path" "path_op_shape mode op" "po_path op = path"
    and "pe_apply entry op = Some entry'"
  shows "pe_wf entry'"
proof -
  have "entity_run_is_canonical path (pe_entities entry)"
    "\<And>source. pe_source entry = Some source \<Longrightarrow> sd_path source = path"
    "\<And>file. pe_file entry = Some file \<Longrightarrow> ff_path file = path"
    using entry_ok [OF assms(1)] assms(2) by auto
  then show ?thesis
    using assms(2-5)
    by (cases "po_source op"; cases "po_entities op"; cases "po_file op")
      (auto simp: pe_apply_def pe_wf_def path_op_shape_def Let_def entity_run_is_canonical_def split: if_splits)
qed

lemma path_rows_refine:
  assumes "keys_ordered pe_path rows" "\<forall>entry\<in>set rows. pe_wf entry"
    and "list_all (path_op_shape mode) ops" "fold_opt path_row_step ops rows = Some rows'"
    and "\<And>path. table_view t path = entry_view (lookup pe_path rows path)"
  shows "(\<forall>entry\<in>set rows'. pe_wf entry)
    \<and> (\<forall>path. table_view (fold spec_path_op ops t) path = entry_view (lookup pe_path rows' path))"
  using assms
proof (induction ops arbitrary: rows t)
  case (Cons op ops)
  let ?path = "po_path op"
  let ?entry = "entry_or_new (lookup pe_path rows ?path) ?path"
  let ?x = "pe_apply ?entry op"
  let ?rows = "upsert pe_path ?path ?x rows"
  have shape: "path_op_shape mode op" using Cons.prems(3) by simp
  have entry: "pe_path ?entry = ?path" by (rule entry_or_new_path) (auto dest: lookup_SomeD)
  have key: "pe_path r = ?path" if "?x = Some r" for r using pe_apply_path [OF that] entry by simp
  have "pe_wf ?entry \<or> ?entry = pe_new ?path"
    using Cons.prems(2) lookup_SomeD [of pe_path rows ?path]
    by (cases "lookup pe_path rows ?path") (auto simp: entry_or_new_def)
  then have x: "pe_wf r" if "?x = Some r" for r using pe_apply_wf [OF _ entry shape refl that] by blast
  have "set ?rows \<subseteq> set rows \<union> set_option ?x"
    by (auto simp: upsert_def dest: set_takeWhileD set_dropWhileD)
  then have wf: "\<forall>entry\<in>set ?rows. pe_wf entry" using x Cons.prems(2) by auto
  have ordered: "keys_ordered pe_path ?rows" using Cons.prems(1) key by (rule upsert_ordered)
  have lookup: "lookup pe_path ?rows = (lookup pe_path rows)(?path := ?x)"
    using Cons.prems(1) key by (rule lookup_upsert)
  have ne: "\<And>es. po_entities op = SlotReplace es \<Longrightarrow> es \<noteq> []" using shape by (auto simp: path_op_shape_def)
  have view: "table_view (spec_path_op op t) path = entry_view (lookup pe_path ?rows path)" for path
    by (simp add: lookup Cons.prems(5) entry_view_apply [OF ne])
  have "path_row_step op rows = Some ?rows" by (simp add: row_step_def path_step_def)
  then have rest: "fold_opt path_row_step ops ?rows = Some rows'" using Cons.prems(4) by simp
  have "list_all (path_op_shape mode) ops" using Cons.prems(3) by simp
  from Cons.IH [OF ordered wf this rest view] show ?case by simp
qed simp

section \<open>Symbol operations\<close>

abbreviation symbol_row_step :: "symbol_op \<Rightarrow> stored_symbol list \<Rightarrow> stored_symbol list option" where
  "symbol_row_step \<equiv> row_step ss_id symbol_op_id apply_one_symbol"

lemma apply_one_symbol_keyed: "keyed_update ss_id symbol_op_id apply_one_symbol"
  unfolding keyed_update_def
proof (intro allI impI)
  fix m op r
  assume m: "\<forall>x. m = Some x \<longrightarrow> ss_id x = symbol_op_id op" and r: "apply_one_symbol m op = Some (Some r)"
  show "ss_id r = symbol_op_id op"
  proof (cases op)
    case (SymReplaceReferencePath ident path references)
    then obtain symbol where "m = Some symbol" "ss_replace_reference_path symbol path references = Some r"
      using r by (auto simp: apply_one_symbol_def split: Option.bind_splits)
    with m SymReplaceReferencePath show ?thesis by (auto dest: ss_replace_reference_path_fields)
  qed (use r in \<open>auto simp: apply_one_symbol_def ss_from_fact_def\<close>)
qed

lemma ids_ordered:
  assumes "successively (\<lambda>a b. symbol_op_key a < symbol_op_key b) operations"
  shows "sorted_wrt (\<lambda>a b. symbol_op_id a \<le> symbol_op_id b) operations"
proof -
  have fst: "fst (symbol_op_key op) = symbol_op_id op" for op by (cases op) simp_all
  have "sorted_wrt (\<lambda>a b. symbol_op_key a < symbol_op_key b) operations"
    using assms by (subst (asm) successively_conv_sorted_wrt) (auto intro: transpI less_trans)
  then show ?thesis
    by (rule sorted_wrt_mono_rel [rotated]) (auto simp: less_prod_def fst less_imp_le)
qed

lemma merge_symbol_operations_rows:
  assumes "keys_ordered ss_id rows" "sorted_wrt (\<lambda>a b. symbol_op_id a \<le> symbol_op_id b) operations"
  shows "fold_opt symbol_row_step operations rows = merge_symbol_operations rows operations"
  using assms
proof (induction rows operations rule: merge_symbol_operations.induct)
  case (2 rows op ops)
  let ?id = "symbol_op_id op"
  let ?batch = "op # takeWhile (\<lambda>op. symbol_op_id op = ?id) ops"
  let ?later = "dropWhile (\<lambda>op. symbol_op_id op = ?id) ops"
  obtain before symbol rest where point: "merge_point ss_id ?id rows = (before, symbol, rest)"
    by (cases "merge_point ss_id ?id rows")
  have rest: "keys_ordered ss_id rest"
    using ordered_split [OF 2(2), of ?id] merge_point_eq [OF 2(2), of ?id] point 2(2)
    by (metis keys_ordered_append prod.inject)
  have sorted: "sorted_wrt (\<lambda>a b. symbol_op_id a \<le> symbol_op_id b) ?later"
    using 2(3) by (simp add: dropWhile_eq_drop sorted_wrt_drop)
  have later: "?id < symbol_op_id o'" if o': "o' \<in> set ?later" for o'
  proof -
    obtain x xs where x: "?later = x # xs" using o' by (cases ?later) auto
    then have "symbol_op_id x \<noteq> ?id" "x \<in> set ops"
      unfolding dropWhile_eq_Cons_conv by (blast, metis in_set_conv_decomp)
    then have "?id < symbol_op_id x" using 2(3) by (auto simp: less_le)
    also have "symbol_op_id x \<le> symbol_op_id o'" using sorted x o' by auto
    finally show ?thesis .
  qed
  have merge: "fold_opt symbol_row_step (?batch @ ?later) rows =
    Option.bind (fold_opt (\<lambda>op x. apply_one_symbol x op) ?batch symbol) (\<lambda>x.
      map_option (\<lambda>rs. before @ option_list x @ rs) (fold_opt symbol_row_step ?later rest))"
    by (rule fold_row_step_merge [OF 2(2) _ _ later apply_one_symbol_keyed point]) (auto dest: set_takeWhileD)
  have merge': "fold_opt symbol_row_step (op # ops) rows =
    Option.bind (fold_opt (\<lambda>op x. apply_one_symbol x op) ?batch symbol) (\<lambda>x.
      map_option (\<lambda>rs. before @ option_list x @ rs) (fold_opt symbol_row_step ?later rest))"
    using merge by (simp only: append_Cons takeWhile_dropWhile_id)
  have unfold: "merge_symbol_operations rows (op # ops) =
    Option.bind (fold_opt (\<lambda>op x. apply_one_symbol x op) ?batch symbol) (\<lambda>x.
      map_option (\<lambda>rs. before @ option_list x @ rs) (merge_symbol_operations rest ?later))"
    by (simp only: merge_symbol_operations.simps Let_def point prod.case)
  show ?case
  proof (cases "fold_opt (\<lambda>op x. apply_one_symbol x op) ?batch symbol")
    case None
    then show ?thesis by (simp only: merge' unfold Option.bind.simps)
  next
    case (Some x)
    have "fold_opt symbol_row_step ?later rest = merge_symbol_operations rest ?later"
      by (rule 2(1) [OF refl refl point [symmetric] refl refl Some rest sorted])
    then show ?thesis by (simp only: merge' unfold)
  qed
qed simp

lemma apply_symbols_rows:
  assumes inv: "ft_inv table"
    and ops: "successively (\<lambda>a b. symbol_op_key a < symbol_op_key b) operations"
    and rows: "fold_opt symbol_row_step operations (pi_rows (ft_symbols table)) = Some rows"
  shows "\<exists>index. apply_symbols table operations = Some index \<and> pi_inv ss_id index \<and> pi_rows index = rows"
proof -
  have index: "pi_inv ss_id (ft_symbols table)" using inv by (simp add: ft_inv_def)
  have ordered: "keys_ordered ss_id (pi_rows (ft_symbols table))" using index by (rule packed.rows_ordered)
  let ?edits = "apply_symbol_operations_sparse (ft_symbols table) operations"
  have "map_option pi_rows ?edits = Some rows"
    using packed.edits_rows [OF index apply_one_symbol_keyed] rows
    by (simp add: apply_symbol_operations_sparse_def)
  then obtain j where j: "?edits = Some j" "pi_rows j = rows" by auto
  then have j_inv: "pi_inv ss_id j"
    using packed.edits_inv [OF index apply_one_symbol_keyed] by (simp add: apply_symbol_operations_sparse_def)
  show ?thesis
  proof (cases "linear_rebuild_min_operations \<le> length operations")
    case True
    have "keys_ordered ss_id rows" using packed.rows_ordered [OF j_inv] j(2) by simp
    with True rows merge_symbol_operations_rows [OF ordered ids_ordered [OF ops]] show ?thesis
      by (auto simp: apply_symbols_def apply_symbol_operations_linear_def pi_inv_from_sorted)
  next
    case False
    with j j_inv show ?thesis by (auto simp: apply_symbols_def)
  qed
qed

text \<open>A validated sequence of operations finds every symbol it refers to.\<close>

definition facts_of :: "stored_symbol list \<Rightarrow> str \<rightharpoonup> symbol_fact" where
  "facts_of rows ident = map_option ss_to_fact (lookup ss_id rows ident)"

lemma ss_from_fact_id [simp]: "ss_id (ss_from_fact symbol) = sf_id symbol"
  by (simp add: ss_from_fact_def)

lemma apply_one_symbol_refines:
  assumes rows: "keys_ordered ss_id rows" "\<forall>symbol\<in>set rows. ss_wf symbol"
    and shape: "symbol_op_shape mode op"
    and found: "\<And>ident path references. op = SymReplaceReferencePath ident path references \<Longrightarrow>
      lookup ss_id rows ident \<noteq> None"
  shows "\<exists>x. apply_one_symbol (lookup ss_id rows (symbol_op_id op)) op = Some x
    \<and> (\<forall>symbol. x = Some symbol \<longrightarrow> ss_wf symbol \<and> ss_id symbol = symbol_op_id op)
    \<and> (facts_of rows)(symbol_op_id op := map_option ss_to_fact x) = spec_symbol_op op (facts_of rows)"
proof (cases op)
  case (SymReplace symbol)
  then show ?thesis using shape
    by (simp add: apply_one_symbol_def ss_from_fact_wf)
next
  case (SymRemove ident)
  then show ?thesis by (simp add: apply_one_symbol_def)
next
  case (SymReplaceReferencePath ident path references)
  then obtain symbol where symbol: "lookup ss_id rows ident = Some symbol" using found by blast
  then have "ss_wf symbol" "ss_id symbol = ident" using rows(2) lookup_SomeD [OF symbol] by auto
  moreover have "list_all (\<lambda>l. loc_path l = path) references" using shape SymReplaceReferencePath by simp
  ultimately obtain symbol' where "ss_replace_reference_path symbol path references = Some symbol'" "ss_wf symbol'"
    "ss_to_fact symbol' = (ss_to_fact symbol)
        \<lparr>sf_references := replace_path_references path references (ss_locations symbol)\<rparr>"
    using ss_replace_reference_path_refines by blast
  with SymReplaceReferencePath symbol \<open>ss_id symbol = ident\<close> show ?thesis
    by (auto simp: apply_one_symbol_def facts_of_def fun_eq_iff ss_to_fact_def
        dest: ss_replace_reference_path_fields)
qed

lemma validated_symbols_apply:
  assumes "validate_symbols retained current exists aliased operations = Inr ()"
    and "pi_inv ss_id retained" "keys_ordered ss_id rows" "\<forall>symbol\<in>set rows. ss_wf symbol"
    and "list_all (symbol_op_shape mode) operations"
    and "sorted_wrt (\<lambda>a b. symbol_op_id a \<le> symbol_op_id b) operations"
    and "\<forall>op\<in>set operations. current \<le> symbol_op_id op"
    and "\<And>ident. current < ident \<Longrightarrow> lookup ss_id rows ident = pi_get ss_id retained ident"
    and "current \<noteq> [] \<Longrightarrow> exists = (lookup ss_id rows current \<noteq> None)"
  shows "\<exists>rows'. fold_opt symbol_row_step operations rows = Some rows' \<and> keys_ordered ss_id rows'
    \<and> (\<forall>symbol\<in>set rows'. ss_wf symbol) \<and> facts_of rows' = fold spec_symbol_op operations (facts_of rows)"
  using assms
proof (induction operations arbitrary: current exists aliased rows)
  case (Cons op ops)
  let ?id = "symbol_op_id op"
  have shape: "symbol_op_shape mode op" and shapes: "list_all (symbol_op_shape mode) ops" using Cons.prems(5) by auto
  have id_ne: "?id \<noteq> []" using shape by (cases op) auto
  have le: "current \<le> ?id" using Cons.prems(7) by simp
  define found where "found = (lookup ss_id rows ?id \<noteq> None)"
  have found: "found = (if ?id \<noteq> current then pi_get ss_id retained ?id \<noteq> None else exists)"
    using Cons.prems(8) [of ?id] Cons.prems(9) le id_ne by (auto simp: found_def less_le)
  have named: "lookup ss_id rows ident \<noteq> None" if "op = SymReplaceReferencePath ident path references" for ident path references
    using Cons.prems(1) found that unfolding found_def
    by (auto simp: Let_def split: if_splits option.splits)
  have "\<exists>x. apply_one_symbol (lookup ss_id rows ?id) op = Some x
    \<and> (\<forall>symbol. x = Some symbol \<longrightarrow> ss_wf symbol \<and> ss_id symbol = ?id)
    \<and> (facts_of rows)(?id := map_option ss_to_fact x) = spec_symbol_op op (facts_of rows)"
    by (rule apply_one_symbol_refines [OF Cons.prems(3,4) shape]) (rule named)
  then obtain x where x: "apply_one_symbol (lookup ss_id rows ?id) op = Some x"
    "\<And>symbol. x = Some symbol \<Longrightarrow> ss_wf symbol" "\<And>symbol. x = Some symbol \<Longrightarrow> ss_id symbol = ?id"
    "(facts_of rows)(?id := map_option ss_to_fact x) = spec_symbol_op op (facts_of rows)"
    by blast
  let ?rows = "upsert ss_id ?id x rows"
  have step: "symbol_row_step op rows = Some ?rows" using x(1) by (simp add: row_step_def)
  have ordered: "keys_ordered ss_id ?rows" using Cons.prems(3) x(3) by (rule upsert_ordered)
  have look: "lookup ss_id ?rows = (lookup ss_id rows)(?id := x)" using Cons.prems(3) x(3) by (rule lookup_upsert)
  have facts: "facts_of ?rows = spec_symbol_op op (facts_of rows)"
    unfolding x(4) [symmetric] by (auto simp: facts_of_def look)
  have "set ?rows \<subseteq> set rows \<union> set_option x" by (auto simp: upsert_def dest: set_takeWhileD set_dropWhileD)
  then have wf: "\<forall>symbol\<in>set ?rows. ss_wf symbol" using x(2) Cons.prems(4) by auto
  have valid: "\<exists>exists' aliased'. validate_symbols retained ?id exists' aliased' ops = Inr () \<and> exists' = (x \<noteq> None)"
  proof (cases op)
    case (SymReplaceReferencePath ident path references)
    then have "validate_symbols retained ?id found (if ?id \<noteq> current then (case pi_get ss_id retained ?id of
        None \<Rightarrow> False | Some symbol \<Rightarrow> ss_alias_target symbol \<noteq> []) else aliased) ops = Inr ()"
      using Cons.prems(1) found by (auto simp: Let_def split: if_splits option.splits)
    moreover have "x \<noteq> None" "found" using x(1) SymReplaceReferencePath named [OF SymReplaceReferencePath]
      by (auto simp: apply_one_symbol_def found_def split: Option.bind_splits)
    ultimately show ?thesis by auto
  qed (use Cons.prems(1) x(1) in \<open>auto simp: apply_one_symbol_def Let_def split: prod.splits\<close>)
  then obtain exists' aliased' where valid: "validate_symbols retained ?id exists' aliased' ops = Inr ()" "exists' = (x \<noteq> None)"
    by blast
  have "\<exists>rows'. fold_opt symbol_row_step ops ?rows = Some rows' \<and> keys_ordered ss_id rows'
    \<and> (\<forall>symbol\<in>set rows'. ss_wf symbol) \<and> facts_of rows' = fold spec_symbol_op ops (facts_of ?rows)"
  proof (rule Cons.IH [OF valid(1) Cons.prems(2) ordered wf shapes])
    show "sorted_wrt (\<lambda>a b. symbol_op_id a \<le> symbol_op_id b) ops" "\<forall>op\<in>set ops. ?id \<le> symbol_op_id op"
      using Cons.prems(6) by auto
    show "lookup ss_id ?rows ident = pi_get ss_id retained ident" if "?id < ident" for ident
      using Cons.prems(8) [of ident] le that by (auto simp: look)
    show "exists' = (lookup ss_id ?rows ?id \<noteq> None)" by (simp add: look valid(2))
  qed
  then show ?case using step facts by simp
qed simp

section \<open>Whole transitions\<close>

lemma facts_of_table: "ft_inv table \<Longrightarrow> at_symbols (ft_abs table) = facts_of (pi_rows (ft_symbols table))"
  by (auto simp: ft_abs_def ft_symbol_fact_def facts_of_def packed.get_lookup ft_inv_def)

lemma table_view_transition:
  "table_view (spec_transition t a) path = table_view (fold spec_path_op (wt_paths t) a) path"
  by (simp add: table_view_def spec_transition_def)

lemma apply_delta_refines:
  assumes inv: "ft_inv table" and shape: "transition_shape t" and mode: "wt_mode t = ModeDelta"
    and valid: "validate_delta table t = Inr ()"
  shows "\<exists>table'. apply_delta table t = Some table' \<and> ft_inv table'
    \<and> ft_abs table' = spec_transition t (ft_abs table)
    \<and> ft_project_id table' = ft_project_id table \<and> ft_strict_null_checks table' = ft_strict_null_checks table"
proof -
  have paths: "pi_inv pe_path (ft_paths table)" "\<forall>entry\<in>set (pi_rows (ft_paths table)). pe_wf entry"
    and symbols: "pi_inv ss_id (ft_symbols table)" "\<forall>symbol\<in>set (pi_rows (ft_symbols table)). ss_wf symbol"
    using inv by (auto simp: ft_inv_def)
  have ops: "list_all (path_op_shape ModeDelta) (wt_paths t)" "successively (\<lambda>a b. po_path a < po_path b) (wt_paths t)"
    "list_all (symbol_op_shape ModeDelta) (wt_symbols t)" "successively (\<lambda>a b. symbol_op_key a < symbol_op_key b) (wt_symbols t)"
    using shape mode by (auto simp: transition_shape_def)
  have path_rows: "keys_ordered pe_path (pi_rows (ft_paths table))" and symbol_rows: "keys_ordered ss_id (pi_rows (ft_symbols table))"
    using paths(1) symbols(1) by (simp_all add: packed.rows_ordered)
  obtain index where index: "apply_paths table (wt_paths t) = Some (path_state_of index)" "pi_inv pe_path index"
    "pi_rows index = merge_path_operations (pi_rows (ft_paths table)) (wt_paths t)"
    using apply_paths_rows [OF inv ops(2)] by blast
  have view: "table_view (ft_abs table) path = entry_view (lookup pe_path (pi_rows (ft_paths table)) path)" for path
    by (simp add: table_view_abs packed.get_lookup [OF paths(1)])
  have new_paths: "(\<forall>entry\<in>set (pi_rows index). pe_wf entry)
      \<and> (\<forall>path. table_view (fold spec_path_op (wt_paths t) (ft_abs table)) path = entry_view (lookup pe_path (pi_rows index) path))"
    unfolding index(3)
    by (rule path_rows_refine [OF path_rows paths(2) ops(1) merge_path_operations_rows [OF path_rows ops(2)] view])
  have "\<exists>rows'. fold_opt symbol_row_step (wt_symbols t) (pi_rows (ft_symbols table)) = Some rows' \<and> keys_ordered ss_id rows'
    \<and> (\<forall>symbol\<in>set rows'. ss_wf symbol)
    \<and> facts_of rows' = fold spec_symbol_op (wt_symbols t) (facts_of (pi_rows (ft_symbols table)))"
  proof (rule validated_symbols_apply [OF _ symbols(1) symbol_rows symbols(2) ops(3) ids_ordered [OF ops(4)]])
    show "validate_symbols (ft_symbols table) [] False False (wt_symbols t) = Inr ()"
      using valid by (simp add: validate_delta_def)
  qed (simp_all add: packed.get_lookup [OF symbols(1)])
  then obtain rows' where rows': "fold_opt symbol_row_step (wt_symbols t) (pi_rows (ft_symbols table)) = Some rows'"
    "\<forall>symbol\<in>set rows'. ss_wf symbol"
    "facts_of rows' = fold spec_symbol_op (wt_symbols t) (facts_of (pi_rows (ft_symbols table)))" by blast
  obtain sindex where sindex: "apply_symbols table (wt_symbols t) = Some sindex" "pi_inv ss_id sindex" "pi_rows sindex = rows'"
    using apply_symbols_rows [OF inv ops(4) rows'(1)] by blast
  let ?table = "table\<lparr>ft_schema := wt_table_schema t, ft_generation := wt_target_generation t,
    ft_paths := index, ft_symbols := sindex, ft_source_count := count_sources (pi_rows index),
    ft_entity_count := count_entities (pi_rows index), ft_file_count := count_files (pi_rows index)\<rparr>"
  have "apply_delta table t = Some ?table"
    using mode index(1) sindex(1) by (simp add: apply_delta_def path_state_of_def)
  moreover have inv': "ft_inv ?table"
    using new_paths rows'(2) index(2) sindex(2,3) by (simp add: ft_inv_def)
  moreover have "ft_abs ?table = spec_transition t (ft_abs table)"
  proof (rule table_view_ext)
    show "table_view (ft_abs ?table) path = table_view (spec_transition t (ft_abs table)) path" for path
      using new_paths by (simp add: table_view_abs packed.get_lookup index(2) table_view_transition)
    show "at_symbols (ft_abs ?table) = at_symbols (spec_transition t (ft_abs table))"
      using rows'(3) sindex(3) facts_of_table [OF inv'] facts_of_table [OF inv] by (simp add: spec_transition_def)
  qed (simp_all add: spec_transition_def ft_abs_def)
  ultimately show ?thesis by auto
qed

text \<open>A full transition is a delta on the empty table.\<close>

lemma full_entry_apply:
  "path_op_shape ModeFull op \<Longrightarrow> pe_apply (pe_new (po_path op)) op = Some (full_entry op)"
  by (cases "po_source op"; cases "po_entities op"; cases "po_file op")
    (auto simp: path_op_shape_def pe_apply_def full_entry_def Let_def pe_is_empty_def)

lemma full_entries_rows:
  assumes "list_all (path_op_shape ModeFull) ops" "successively (\<lambda>a b. po_path a < po_path b) ops"
  shows "merge_path_operations [] ops = map full_entry ops"
  using assms
  by (induction ops)
    (auto simp: merge_point_def entry_or_new_def full_entry_apply successively_Cons Let_def)

lemma full_entry_not_empty: "path_op_shape ModeFull op \<Longrightarrow> \<not> pe_is_empty (full_entry op)"
  by (cases "po_source op"; cases "po_entities op"; cases "po_file op")
    (auto simp: path_op_shape_def full_entry_def pe_is_empty_def)

lemma full_symbols_rows:
  assumes "list_all (symbol_op_shape ModeFull) ops" "successively (\<lambda>a b. symbol_op_key a < symbol_op_key b) ops"
  shows "\<exists>rows. full_symbols ops = Some rows \<and> map ss_id rows = map symbol_op_id ops
    \<and> keys_ordered ss_id rows \<and> (\<forall>symbol\<in>set rows. ss_wf symbol)
    \<and> facts_of rows = fold spec_symbol_op ops Map.empty"
proof -
  have rep: "\<exists>symbol. op = SymReplace symbol" if "op \<in> set ops" for op
    using assms(1) that by (cases op) (auto simp: list_all_iff)
  then obtain syms where syms: "ops = map SymReplace syms"
    by (metis ex_map_conv)
  have full: "full_symbols (map SymReplace syms) = Some (map ss_from_fact syms)" for syms
    by (induction syms) auto
  have "sorted_wrt (\<lambda>a b. symbol_op_key a < symbol_op_key b) ops"
    using assms(2) by (subst (asm) successively_conv_sorted_wrt) (auto intro: transpI less_trans)
  then have sorted: "sorted_wrt (\<lambda>a b. sf_id a < sf_id b) syms"
    unfolding syms sorted_wrt_map by (simp add: less_prod_def)
  have facts: "sorted_wrt (\<lambda>a b. sf_id a < sf_id b) syms \<Longrightarrow>
      fold spec_symbol_op (map SymReplace syms) m k
        = (case facts_of (map ss_from_fact syms) k of None \<Rightarrow> m k | Some v \<Rightarrow> Some v)" for syms m k
  proof (induction syms arbitrary: m)
    case (Cons s syms)
    have "facts_of (map ss_from_fact syms) (sf_id s) = None"
      using Cons.prems by (auto simp: facts_of_def lookup_None_iff)
    with Cons show ?case by (auto simp: facts_of_def split: option.split)
  qed (simp add: facts_of_def)
  have "facts_of (map ss_from_fact syms) = fold spec_symbol_op ops Map.empty"
    by (rule ext) (simp add: syms facts [OF sorted] split: option.split)
  moreover have "keys_ordered ss_id (map ss_from_fact syms)"
    using sorted by (simp add: keys_ordered_def sorted_wrt_map comp_def)
  moreover have "\<forall>symbol\<in>set (map ss_from_fact syms). ss_wf symbol"
    using assms(1) by (auto simp: syms list_all_iff ss_from_fact_wf)
  ultimately show ?thesis using full by (auto simp: syms)
qed

lemma materialize_full_refines:
  assumes shape: "transition_shape t" and mode: "wt_mode t = ModeFull"
  shows "\<exists>table. materialize_full t = Some table \<and> ft_inv table
    \<and> ft_abs table = spec_transition t (abstract_empty (wt_project_id t)) \<and> ft_strict_null_checks table = None"
proof -
  have ops: "list_all (path_op_shape ModeFull) (wt_paths t)" "successively (\<lambda>a b. po_path a < po_path b) (wt_paths t)"
    "list_all (symbol_op_shape ModeFull) (wt_symbols t)" "successively (\<lambda>a b. symbol_op_key a < symbol_op_key b) (wt_symbols t)"
    using shape mode by (auto simp: transition_shape_def)
  let ?entries = "map full_entry (wt_paths t)"
  have entries: "filter (\<lambda>entry. \<not> pe_is_empty entry) ?entries = ?entries"
    using ops(1) by (auto simp: filter_id_conv list_all_iff full_entry_not_empty)
  have merged: "fold_opt path_row_step (wt_paths t) [] = Some ?entries"
    using merge_path_operations_rows [of "[]" "wt_paths t"] full_entries_rows [OF ops(1,2)] ops(2) by simp
  have "table_view (abstract_empty (wt_project_id t)) path = entry_view (lookup pe_path [] path)" for path
    by (simp add: table_view_def abstract_empty_def entry_view_def)
  from path_rows_refine [OF _ _ ops(1) merged this]
  have new_paths: "\<forall>entry\<in>set ?entries. pe_wf entry"
    "\<And>path. table_view (fold spec_path_op (wt_paths t) (abstract_empty (wt_project_id t))) path
       = entry_view (lookup pe_path ?entries path)" by auto
  have "sorted_wrt (\<lambda>a b. po_path a < po_path b) (wt_paths t)"
    using ops(2) by (subst (asm) successively_conv_sorted_wrt) (auto intro: transpI less_trans)
  then have ordered: "keys_ordered pe_path ?entries"
    by (simp add: keys_ordered_def sorted_wrt_map full_entry_def comp_def)
  obtain rows where rows: "full_symbols (wt_symbols t) = Some rows" "keys_ordered ss_id rows"
    "\<forall>symbol\<in>set rows. ss_wf symbol" "facts_of rows = fold spec_symbol_op (wt_symbols t) Map.empty"
    using full_symbols_rows [OF ops(3,4)] by blast
  let ?table = "\<lparr>ft_schema = wt_table_schema t, ft_generation = wt_target_generation t,
    ft_project_id = wt_project_id t, ft_paths = pi_from_sorted ?entries, ft_symbols = pi_from_sorted rows,
    ft_source_count = count_sources ?entries, ft_entity_count = count_entities ?entries,
    ft_file_count = count_files ?entries, ft_strict_null_checks = None\<rparr>"
  have "materialize_full t = Some ?table"
    using mode rows(1) entries by (simp add: materialize_full_def Let_def)
  moreover have inv: "ft_inv ?table"
    using new_paths(1) rows(2,3) ordered by (simp add: ft_inv_def pi_inv_from_sorted)
  moreover have "ft_abs ?table = spec_transition t (abstract_empty (wt_project_id t))"
  proof (rule table_view_ext)
    show "table_view (ft_abs ?table) path = table_view (spec_transition t (abstract_empty (wt_project_id t))) path" for path
      using new_paths(2) [of path]
      by (simp add: table_view_abs packed.get_from_sorted [OF ordered] table_view_transition)
    show "at_symbols (ft_abs ?table) = at_symbols (spec_transition t (abstract_empty (wt_project_id t)))"
      using rows(4) facts_of_table [OF inv] by (simp add: spec_transition_def abstract_empty_def)
  qed (simp_all add: spec_transition_def ft_abs_def abstract_empty_def)
  ultimately show ?thesis by auto
qed

end
