(* ===== verification/TF_Symbols.thy ===== *)
theory TF_Symbols
  imports TF_Apply
begin

text \<open>
  Replacing, merging and comparing the symbol rows of a table: the ids a table reports as changed
  are exactly those whose row changed, the ordered merge agrees with a replacement by the successor
  set, and the comparison that skips shared leaves misses nothing.
\<close>

section \<open>The two-pointer comparison\<close>

lemma diff_keys_mem: "k \<in> set (diff_keys key same xs ys) \<Longrightarrow> k \<in> key ` set xs \<union> key ` set ys"
  by (induction key same xs ys rule: diff_keys.induct) (auto split: if_splits)

lemma lookup_tail_None:
  assumes "keys_ordered key (r # rows)" "k \<le> key r"
  shows "lookup key rows k = None"
proof -
  have "k < key x" if "x \<in> set rows" for x
    using assms that by (intro le_less_trans [OF assms(2)]) simp
  then show ?thesis by (auto simp: lookup_None_iff)
qed

lemma ordered_above:
  assumes "keys_ordered key (r # rows)" "k < key r"
  shows "\<forall>x\<in>set (r # rows). k < key x"
  using assms(1) less_trans [OF assms(2)] assms(2) by simp

lemma lookup_above_None: "keys_ordered key (r # rows) \<Longrightarrow> k < key r \<Longrightarrow> lookup key (r # rows) k = None"
  using lookup_tail_None [of key r rows k] by simp

lemma diff_keys_above:
  "k \<in> set (diff_keys key same xs ys) \<Longrightarrow> \<forall>x\<in>set xs. k0 < key x \<Longrightarrow> \<forall>y\<in>set ys. k0 < key y \<Longrightarrow> k0 < k"
  using diff_keys_mem [of k key same xs ys] by auto

lemma diff_keys_iff:
  assumes "keys_ordered key xs" "keys_ordered key ys"
  shows "k \<in> set (diff_keys key same xs ys) \<longleftrightarrow> \<not> rel_option same (lookup key xs k) (lookup key ys k)"
  using assms
proof (induction key same xs ys rule: diff_keys.induct)
  case (4 key same left previous right successor)
  have prev: "keys_ordered key previous" and succ: "keys_ordered key successor" using 4(4,5) by auto
  consider "key left = key right" | "key left < key right" | "key right < key left" by (metis linorder_neqE)
  then show ?case
  proof cases
    case 1
    then show ?thesis
      using 4(1) [OF 1 prev succ] lookup_tail_None [OF 4(4), of "key left"] lookup_tail_None [OF 4(5), of "key right"]
      by (cases "k = key left") auto
  next
    case 2
    then have "k \<in> set (diff_keys key same (left # previous) (right # successor))
        \<longleftrightarrow> k = key left \<or> k \<in> set (diff_keys key same previous (right # successor))" by auto
    also have "\<dots> \<longleftrightarrow> k = key left \<or> \<not> rel_option same (lookup key previous k) (lookup key (right # successor) k)"
      using 4(2) [OF _ 2 prev 4(5)] 2 by simp
    also have "\<dots> \<longleftrightarrow> \<not> rel_option same (lookup key (left # previous) k) (lookup key (right # successor) k)"
      using lookup_above_None [OF 4(5) 2] by (cases "k = key left") (auto simp del: lookup_Cons simp: lookup_Cons [of key left])
    finally show ?thesis .
  next
    case 3
    then have "k \<in> set (diff_keys key same (left # previous) (right # successor))
        \<longleftrightarrow> k = key right \<or> k \<in> set (diff_keys key same (left # previous) successor)" by auto
    also have "\<dots> \<longleftrightarrow> k = key right \<or> \<not> rel_option same (lookup key (left # previous) k) (lookup key successor k)"
      using 4(3) [OF _ _ 4(4) succ] 3 by auto
    also have "\<dots> \<longleftrightarrow> \<not> rel_option same (lookup key (left # previous) k) (lookup key (right # successor) k)"
      using lookup_above_None [OF 4(4) 3] by (cases "k = key right") (auto simp del: lookup_Cons simp: lookup_Cons [of key right])
    finally show ?thesis .
  qed
next
  case (2 key same left previous)
  have "keys_ordered key previous" using 2(2) by simp
  from 2(1) [OF this] lookup_tail_None [OF 2(2), of "key left"] show ?case by (cases "k = key left") auto
next
  case (3 key same right successor)
  have "keys_ordered key successor" using 3(3) by simp
  from 3(1) [OF _ this] lookup_tail_None [OF 3(3), of "key right"] show ?case by (cases "k = key right") auto
qed simp

lemma diff_keys_sorted:
  assumes "keys_ordered key xs" "keys_ordered key ys"
  shows "sorted_wrt (<) (diff_keys key same xs ys)"
  using assms
proof (induction key same xs ys rule: diff_keys.induct)
  case (2 key same left previous)
  then show ?case using diff_keys_above [of _ key same previous "[]" "key left"] by simp
next
  case (3 key same right successor)
  then show ?case using diff_keys_above [of _ key same "[]" successor "key right"] by simp
next
  case (4 key same left previous right successor)
  have prev: "keys_ordered key previous" "\<forall>x\<in>set previous. key left < key x"
    and succ: "keys_ordered key successor" "\<forall>x\<in>set successor. key right < key x"
    using 4(4,5) by auto
  consider "key left = key right" | "key left < key right" | "key right < key left" by (metis linorder_neqE)
  then show ?case
  proof cases
    case 1
    then have "\<forall>x\<in>set successor. key left < key x" using succ(2) by simp
    with 1 4(1) [OF 1 prev(1) succ(1)] diff_keys_above [OF _ prev(2)] show ?thesis by (simp add: sorted_wrt_append)
  next
    case 2
    then have ne: "key left \<noteq> key right" by simp
    with 2 4(2) [OF ne 2 prev(1) 4(5)] diff_keys_above [OF _ prev(2) ordered_above [OF 4(5) 2]] show ?thesis by simp
  next
    case 3
    then have ne: "key left \<noteq> key right" "\<not> key left < key right" by auto
    with 4(3) [OF ne 4(4) succ(1)] diff_keys_above [OF _ ordered_above [OF 4(4) 3] succ(2)] show ?thesis by simp
  qed
qed simp

section \<open>Equality of stored symbols\<close>

lemma reference_runs_concat:
  assumes "keys_ordered rr_path runs"
    and "\<forall>run\<in>set runs. rr_locations run \<noteq> [] \<and> (\<forall>l\<in>set (rr_locations run). loc_path l = rr_path run)"
  shows "reference_runs (concat (map rr_locations runs)) = runs"
  using assms
proof (induction runs)
  case (Cons run runs)
  obtain first rest where run: "rr_locations run = first # rest"
    using Cons.prems(2) by (cases "rr_locations run") auto
  let ?later = "concat (map rr_locations runs)"
  have path: "loc_path first = rr_path run" and same: "\<forall>l\<in>set rest. loc_path l = loc_path first"
    using Cons.prems(2) run by auto
  have other: "loc_path l \<noteq> loc_path first" if "l \<in> set ?later" for l
    using that Cons.prems path by (auto simp: less_le)
  have skip: "takeWhile P ls = []" "dropWhile P ls = ls" if "\<And>l. l \<in> set ls \<Longrightarrow> \<not> P l" for P and ls :: "location list"
    using that by (cases ls; simp)+
  have none: "takeWhile (\<lambda>l. loc_path l = loc_path first) ?later = []"
    "dropWhile (\<lambda>l. loc_path l = loc_path first) ?later = ?later"
    by (rule skip, drule other, assumption)+
  have "takeWhile (\<lambda>l. loc_path l = loc_path first) (rest @ ?later) = rest"
    using same none(1) by (simp add: takeWhile_append)
  moreover have "dropWhile (\<lambda>l. loc_path l = loc_path first) (rest @ ?later) = ?later"
    using same none(2) by (simp add: dropWhile_append)
  ultimately show ?case
    using Cons run path by (cases run) simp
qed simp

lemma ss_eq_iff:
  assumes "ss_wf a" "ss_wf b"
  shows "ss_eq a b \<longleftrightarrow> ss_to_fact a = ss_to_fact b"
proof -
  have runs: "pi_rows (ss_references s) = reference_runs (ss_locations s)"
    and count: "ss_reference_count s = length (ss_locations s)" if "ss_wf s" for s
    using that reference_runs_concat [of "pi_rows (ss_references s)"] packed.rows_ordered [of rr_path "ss_references s"]
    by (auto simp: ss_wf_def ss_locations_def)
  show ?thesis
    using runs [OF assms(1)] runs [OF assms(2)] count [OF assms(1)] count [OF assms(2)]
    by (auto simp: ss_eq_def ss_to_fact_def ss_locations_def)
qed

lemma rel_option_ss_eq:
  assumes "\<forall>s\<in>set xs. ss_wf s" "\<forall>s\<in>set ys. ss_wf s"
  shows "rel_option ss_eq (lookup ss_id xs k) (lookup ss_id ys k) \<longleftrightarrow> facts_of xs k = facts_of ys k"
proof -
  have "ss_wf x" if "lookup ss_id xs k = Some x" for x using lookup_SomeD [OF that] assms(1) by blast
  moreover have "ss_wf y" if "lookup ss_id ys k = Some y" for y using lookup_SomeD [OF that] assms(2) by blast
  ultimately show ?thesis
    by (cases "lookup ss_id xs k"; cases "lookup ss_id ys k") (simp_all add: facts_of_def ss_eq_iff)
qed

section \<open>Replacing the symbols of a table\<close>

lemma lookup_filter: "lookup key rows k = (case filter (\<lambda>r. key r = k) rows of [] \<Rightarrow> None | r # _ \<Rightarrow> Some r)"
  by (induction rows) auto

lemma lookup_sort: "lookup key (sort_key key rows) k = lookup key rows k"
  by (simp add: lookup_filter sort_key_stable)

lemma facts_of_from_facts: "facts_of (map ss_from_fact symbols) k = lookup sf_id symbols k"
  by (induction symbols) (auto simp: facts_of_def)

lemma sorted_distinct_ordered: "sorted (map key rows) \<Longrightarrow> distinct (map key rows) \<Longrightarrow> keys_ordered key rows"
  by (simp add: keys_ordered_def strict_sorted_iff)

lemma ft_inv_symbols:
  assumes "ft_inv table" "keys_ordered ss_id rows" "\<forall>symbol\<in>set rows. ss_wf symbol"
  shows "ft_inv (table\<lparr>ft_symbols := pi_from_sorted rows\<rparr>)"
    and "at_symbols (ft_abs (table\<lparr>ft_symbols := pi_from_sorted rows\<rparr>)) = facts_of rows"
proof -
  show inv: "ft_inv (table\<lparr>ft_symbols := pi_from_sorted rows\<rparr>)"
    using assms by (simp add: ft_inv_def pi_inv_from_sorted)
  show "at_symbols (ft_abs (table\<lparr>ft_symbols := pi_from_sorted rows\<rparr>)) = facts_of rows"
    using facts_of_table [OF inv] by simp
qed

lemma ft_inv_rows:
  "ft_inv table \<Longrightarrow> keys_ordered ss_id (pi_rows (ft_symbols table)) \<and> (\<forall>symbol\<in>set (pi_rows (ft_symbols table)). ss_wf symbol)"
  by (simp add: ft_inv_def packed.rows_ordered)

lemma diff_symbols:
  assumes "keys_ordered ss_id xs" "\<forall>s\<in>set xs. ss_wf s" "keys_ordered ss_id ys" "\<forall>s\<in>set ys. ss_wf s"
  shows "set (diff_keys ss_id ss_eq xs ys) = {k. facts_of xs k \<noteq> facts_of ys k}"
    and "sorted_wrt (<) (diff_keys ss_id ss_eq xs ys)"
  using diff_keys_iff [OF assms(1,3), of _ ss_eq] rel_option_ss_eq [OF assms(2,4)] diff_keys_sorted [OF assms(1,3)]
  by auto

lemma replace_symbols_spec:
  assumes inv: "ft_inv table" and ids: "distinct (map sf_id symbols)"
    and refs: "\<forall>symbol\<in>set symbols. locations_are_canonical (sf_references symbol)"
    and result: "replace_symbols table symbols = (table', changed)"
  shows "ft_inv table' \<and> at_symbols (ft_abs table') = lookup sf_id symbols
    \<and> set changed = {k. at_symbols (ft_abs table) k \<noteq> at_symbols (ft_abs table') k} \<and> sorted_wrt (<) changed"
proof -
  let ?rows = "map ss_from_fact (sort_key sf_id symbols)"
  have "distinct (map sf_id (sort_key sf_id symbols))"
    using ids by (simp add: distinct_map)
  then have "keys_ordered sf_id (sort_key sf_id symbols)"
    by (intro sorted_distinct_ordered) simp_all
  then have ordered: "keys_ordered ss_id ?rows"
    by (simp add: keys_ordered_def comp_def)
  have wf: "\<forall>symbol\<in>set ?rows. ss_wf symbol" using refs by (simp add: ss_from_fact_wf)
  have table': "table' = table\<lparr>ft_symbols := pi_from_sorted ?rows\<rparr>"
    and changed: "changed = diff_keys ss_id ss_eq (pi_rows (ft_symbols table)) ?rows"
    using result by (auto simp: replace_symbols_def Let_def)
  have abs: "at_symbols (ft_abs table') = lookup sf_id symbols"
    using ft_inv_symbols(2) [OF inv ordered wf] by (auto simp: table' facts_of_from_facts lookup_sort)
  have rows: "keys_ordered ss_id (pi_rows (ft_symbols table))" "\<forall>symbol\<in>set (pi_rows (ft_symbols table)). ss_wf symbol"
    using ft_inv_rows [OF inv] by auto
  show ?thesis
    using ft_inv_symbols [OF inv ordered wf] diff_symbols [OF rows ordered wf] abs facts_of_table [OF inv]
    unfolding changed table' by simp
qed

section \<open>Merging symbols into a table\<close>

lemma lookup_dropWhile_id:
  "k \<noteq> ident \<Longrightarrow> lookup ss_id (dropWhile (\<lambda>later. ss_id later = ident) rows) k = lookup ss_id rows k"
  by (induction rows) auto

lemma lookup_dedup: "lookup ss_id (dedup_ids rows) k = lookup ss_id rows k"
  by (induction rows rule: dedup_ids.induct) (auto simp: lookup_dropWhile_id)

lemma dedup_subset: "set (dedup_ids rows) \<subseteq> set rows"
proof (induction rows rule: dedup_ids.induct)
  case (2 earlier rows)
  have "set (dropWhile (\<lambda>later. ss_id later = ss_id earlier) rows) \<subseteq> set rows" by (auto dest: set_dropWhileD)
  with 2 show ?case by auto
qed simp

lemma dedup_ordered: "sorted (map ss_id rows) \<Longrightarrow> keys_ordered ss_id (dedup_ids rows)"
proof (induction rows rule: dedup_ids.induct)
  case (2 earlier rows)
  let ?rest = "dropWhile (\<lambda>later. ss_id later = ss_id earlier) rows"
  have sorted: "sorted (map ss_id rows)" and ge: "\<forall>x\<in>set rows. ss_id earlier \<le> ss_id x" using 2(2) by auto
  have rest: "sorted (map ss_id ?rest)" using sorted by (metis dropWhile_eq_drop drop_map sorted_wrt_drop)
  have "ss_id earlier < ss_id x" if x: "x \<in> set ?rest" for x
  proof -
    obtain y ys where y: "?rest = y # ys" using x by (cases ?rest) auto
    have "ss_id y \<noteq> ss_id earlier" using y unfolding dropWhile_eq_Cons_conv by blast
    moreover have "ss_id earlier \<le> ss_id y" using ge y by (metis list.set_intros(1) set_dropWhileD)
    moreover have "ss_id y \<le> ss_id x" using rest y x by auto
    ultimately show ?thesis by simp
  qed
  then have "\<forall>x\<in>set (dedup_ids ?rest). ss_id earlier < ss_id x" using dedup_subset [of ?rest] by auto
  with 2(1) [OF rest] show ?case by simp
qed simp

lemma ss_eq_refl [simp]: "ss_eq s s"
  by (simp add: ss_eq_def)

lemma merge_rows_mem:
  "merge_rows removed prev succ = (rows, changed) \<Longrightarrow> set rows \<subseteq> set prev \<union> set succ"
proof (induction removed prev succ arbitrary: rows changed rule: merge_rows.induct)
qed (fastforce simp: Let_def split: prod.splits if_splits)+

lemma diff_keys_skip:
  "\<forall>y\<in>set ys. key left < key y \<Longrightarrow> diff_keys key same (left # xs) ys = key left # diff_keys key same xs ys"
  by (cases ys) auto

lemma ss_eq_fact: "ss_eq a b \<Longrightarrow> ss_to_fact a = ss_to_fact b"
  by (simp add: ss_eq_def ss_to_fact_def ss_locations_def)

definition merged_fact :: "str set \<Rightarrow> stored_symbol list \<Rightarrow> stored_symbol list \<Rightarrow> str \<rightharpoonup> symbol_fact" where
  "merged_fact removed prev succ k =
     (case lookup ss_id succ k of
        Some s \<Rightarrow> Some (ss_to_fact s)
      | None \<Rightarrow> if k \<in> removed then None else facts_of prev k)"

lemma facts_of_Cons: "facts_of (s # rows) k = (if ss_id s = k then Some (ss_to_fact s) else facts_of rows k)"
  by (simp add: facts_of_def)

lemma merge_rows_spec:
  assumes "keys_ordered ss_id prev" "keys_ordered ss_id succ" "merge_rows removed prev succ = (rows, changed)"
  shows "keys_ordered ss_id rows \<and> changed = diff_keys ss_id ss_eq prev rows \<and> facts_of rows = merged_fact removed prev succ"
  using assms
proof (induction removed prev succ arbitrary: rows changed rule: merge_rows.induct)
  case (1 removed)
  then show ?case by (auto simp: merged_fact_def facts_of_def)
next
  case (2 removed left prev)
  obtain rows' changed' where m: "merge_rows removed prev [] = (rows', changed')" by fastforce
  have prev: "keys_ordered ss_id prev" "\<forall>x\<in>set prev. ss_id left < ss_id x" using 2(2) by auto
  have above: "\<forall>x\<in>set rows'. ss_id left < ss_id x" using merge_rows_mem [OF m] prev(2) by auto
  have ih: "keys_ordered ss_id rows'" "changed' = diff_keys ss_id ss_eq prev rows'"
    "\<And>k. facts_of rows' k = merged_fact removed prev [] k" using 2(1) [OF prev(1) _ m] by auto
  have "facts_of prev (ss_id left) = None" using prev(2) by (auto simp: facts_of_def lookup_None_iff)
  with 2(4) m ih above show ?case
    by (auto simp: fun_eq_iff merged_fact_def facts_of_Cons diff_keys_skip split: if_splits)
next
  case (3 removed right succ)
  obtain rows' changed' where m: "merge_rows removed [] succ = (rows', changed')" by fastforce
  have succ: "keys_ordered ss_id succ" "\<forall>x\<in>set succ. ss_id right < ss_id x" using 3(3) by auto
  have above: "\<forall>x\<in>set rows'. ss_id right < ss_id x" using merge_rows_mem [OF m] succ(2) by auto
  have ih: "keys_ordered ss_id rows'" "changed' = diff_keys ss_id ss_eq [] rows'"
    "\<And>k. facts_of rows' k = merged_fact removed [] succ k" using 3(1) [OF _ succ(1) m] by auto
  with 3(4) m above show ?case
    by (auto simp: fun_eq_iff merged_fact_def facts_of_Cons)
next
  case (4 removed left prev right succ)
  have prev: "keys_ordered ss_id prev" "\<forall>x\<in>set prev. ss_id left < ss_id x"
    and succ: "keys_ordered ss_id succ" "\<forall>x\<in>set succ. ss_id right < ss_id x"
    using 4(4,5) by auto
  have none: "facts_of prev (ss_id left) = None" "lookup ss_id succ (ss_id right) = None"
    using prev(2) succ(2) by (auto simp: facts_of_def lookup_None_iff)
  consider "ss_id left = ss_id right" | "ss_id left < ss_id right" | "ss_id right < ss_id left" by (metis linorder_neqE)
  then show ?case
  proof cases
    case 1
    obtain rows' changed' where m: "merge_rows removed prev succ = (rows', changed')" by fastforce
    have above: "\<forall>x\<in>set rows'. ss_id right < ss_id x" using merge_rows_mem [OF m] prev(2) succ(2) 1 by auto
    have ih: "keys_ordered ss_id rows'" "changed' = diff_keys ss_id ss_eq prev rows'"
      "\<And>k. facts_of rows' k = merged_fact removed prev succ k" using 4(1) [OF 1 prev(1) succ(1) m] by auto
    have res: "(rows, changed) = (if ss_eq left right then (left # rows', changed') else (right # rows', ss_id left # changed'))"
      using 4(6) m 1 by simp
    have facts: "facts_of (s # rows') = merged_fact removed (left # prev) (right # succ)"
      if "ss_id s = ss_id right" "ss_to_fact s = ss_to_fact right" for s
      using that 1 by (auto simp: fun_eq_iff merged_fact_def facts_of_Cons ih(3) none split: option.split)
    show ?thesis
    proof (cases "ss_eq left right")
      case True
      then show ?thesis using res ih(1,2) above 1 facts [of left] ss_eq_fact [OF True] by simp
    next
      case False
      then show ?thesis using res ih(1,2) above 1 facts [of right] by simp
    qed
  next
    case 2
    obtain rows' changed' where m: "merge_rows removed prev (right # succ) = (rows', changed')" by fastforce
    have above: "\<forall>x\<in>set rows'. ss_id left < ss_id x"
      using merge_rows_mem [OF m] prev(2) ordered_above [OF 4(5) 2] by blast
    have ne: "ss_id left \<noteq> ss_id right" using 2 by simp
    have ih: "keys_ordered ss_id rows'" "changed' = diff_keys ss_id ss_eq prev rows'"
      "\<And>k. facts_of rows' k = merged_fact removed prev (right # succ) k" using 4(2) [OF ne 2 prev(1) 4(5) m] by auto
    have look: "lookup ss_id (right # succ) (ss_id left) = None" by (rule lookup_above_None [OF 4(5) 2])
    have res: "(rows, changed) = (if ss_id left \<in> removed then (rows', ss_id left # changed') else (left # rows', changed'))"
      using 4(6) m 2 ne by simp
    show ?thesis
    proof (cases "ss_id left \<in> removed")
      case True
      have "facts_of rows' = merged_fact removed (left # prev) (right # succ)"
        using True by (auto simp: fun_eq_iff ih(3) merged_fact_def facts_of_Cons split: option.split)
      with res True ih(1,2) diff_keys_skip [OF above] show ?thesis by simp
    next
      case False
      have "facts_of (left # rows') = merged_fact removed (left # prev) (right # succ)"
        using False look by (auto simp: fun_eq_iff ih(3) merged_fact_def facts_of_Cons simp del: lookup_Cons split: option.split)
      with res False ih(1,2) above show ?thesis by simp
    qed
  next
    case 3
    obtain rows' changed' where m: "merge_rows removed (left # prev) succ = (rows', changed')" by fastforce
    have above: "\<forall>x\<in>set rows'. ss_id right < ss_id x"
      using merge_rows_mem [OF m] succ(2) ordered_above [OF 4(4) 3] by blast
    have ne: "ss_id left \<noteq> ss_id right" "\<not> ss_id left < ss_id right" using 3 by auto
    have ih: "keys_ordered ss_id rows'" "changed' = diff_keys ss_id ss_eq (left # prev) rows'"
      "\<And>k. facts_of rows' k = merged_fact removed (left # prev) succ k" using 4(3) [OF ne 4(4) succ(1) m] by auto
    have res: "rows = right # rows'" "changed = ss_id right # changed'" using 4(6) m ne by auto
    have "facts_of (right # rows') = merged_fact removed (left # prev) (right # succ)"
      by (auto simp: fun_eq_iff facts_of_Cons [of right] ih(3) merged_fact_def)
    with res ih(1,2) above ne show ?thesis by simp
  qed
qed

lemma merge_symbols_spec:
  assumes inv: "ft_inv table"
    and refs: "\<forall>symbol\<in>set upserts. locations_are_canonical (sf_references symbol)"
    and result: "merge_symbols table upserts removed = (table', changed)"
  shows "ft_inv table' \<and> at_symbols (ft_abs table') = (\<lambda>k. case lookup sf_id upserts k of
      Some symbol \<Rightarrow> Some symbol | None \<Rightarrow> if k \<in> removed then None else at_symbols (ft_abs table) k)
    \<and> set changed = {k. at_symbols (ft_abs table) k \<noteq> at_symbols (ft_abs table') k} \<and> sorted_wrt (<) changed"
proof -
  let ?prev = "pi_rows (ft_symbols table)" and ?succ = "dedup_ids (sort_key ss_id (map ss_from_fact upserts))"
  obtain rows ch where m: "merge_rows removed ?prev ?succ = (rows, ch)" by fastforce
  have prev: "keys_ordered ss_id ?prev" "\<forall>symbol\<in>set ?prev. ss_wf symbol" using ft_inv_rows [OF inv] by auto
  have succ: "keys_ordered ss_id ?succ" by (rule dedup_ordered) simp
  have "\<forall>symbol\<in>set ?succ. ss_wf symbol"
    using refs dedup_subset [of "sort_key ss_id (map ss_from_fact upserts)"] by (auto simp: ss_from_fact_wf)
  with prev(2) merge_rows_mem [OF m] have wf: "\<forall>symbol\<in>set rows. ss_wf symbol" by auto
  note spec = merge_rows_spec [OF prev(1) succ m]
  have ordered: "keys_ordered ss_id rows" and changed: "ch = diff_keys ss_id ss_eq ?prev rows" using spec by auto
  have look: "lookup ss_id ?succ k = map_option ss_from_fact (lookup sf_id upserts k)" for k
    unfolding lookup_dedup lookup_sort by (induction upserts) auto
  have facts: "facts_of rows = (\<lambda>k. case lookup sf_id upserts k of
      Some symbol \<Rightarrow> Some symbol | None \<Rightarrow> if k \<in> removed then None else at_symbols (ft_abs table) k)"
    using spec by (auto simp: fun_eq_iff merged_fact_def look facts_of_table [OF inv] split: option.split)
  have table': "table' = (if ch = [] then table else table\<lparr>ft_symbols := pi_from_sorted rows\<rparr>)" "changed = ch"
    using result m by (auto simp: merge_symbols_def Let_def)
  have diff: "set ch = {k. at_symbols (ft_abs table) k \<noteq> facts_of rows k}" "sorted_wrt (<) ch"
    using diff_symbols [OF prev ordered wf] unfolding changed facts_of_table [OF inv] by auto
  have abs: "ft_inv table' \<and> at_symbols (ft_abs table') = facts_of rows"
  proof (cases "ch = []")
    case True
    with diff(1) have "at_symbols (ft_abs table) = facts_of rows" by auto
    with True inv table' show ?thesis by simp
  next
    case False
    with ft_inv_symbols [OF inv ordered wf] table' show ?thesis by simp
  qed
  with diff table'(2) facts show ?thesis by simp
qed

section \<open>Skipping shared leaves\<close>

lemma leaf_keys_disjoint:
  assumes "keys_ordered key (concat leaves)" "i < length leaves" "j < length leaves"
    and "r \<in> set (leaves ! i)" "s \<in> set (leaves ! j)" "key r = key s"
  shows "i = j"
proof -
  have before: "key x < key y" if "m < n" "n < length leaves" "x \<in> set (leaves ! m)" "y \<in> set (leaves ! n)" for m n x y
  proof -
    have "leaves ! m \<in> set (take n leaves)" using that(1,2) by (auto simp: in_set_conv_nth)
    then have "x \<in> set (concat (take n leaves))" using that(3) by auto
    moreover have "leaves = take n leaves @ leaves ! n # drop (Suc n) leaves" using that(2) by (rule id_take_nth_drop)
    then have "concat leaves = concat (take n leaves) @ leaves ! n @ concat (drop (Suc n) leaves)"
      by (metis concat.simps(2) concat_append)
    ultimately show ?thesis using assms(1) that(4) by (auto simp: keys_ordered_append)
  qed
  show ?thesis
    using before [of i j r s] before [of j i s r] assms by (cases i j rule: linorder_cases) auto
qed

lemma unshared_mem:
  assumes "length addresses = length (pi_leaves index)"
  shows "r \<in> set (unshared addresses index shared) \<longleftrightarrow>
    (\<exists>i<length (pi_leaves index). addresses ! i \<notin> shared \<and> r \<in> set (pi_leaves index ! i))"
  using assms by (auto simp: unshared_def set_zip)

lemma unshared_ordered:
  assumes "pi_inv ss_id index"
  shows "keys_ordered ss_id (unshared addresses index shared)"
proof -
  have "keys_ordered ss_id (concat (map snd (filter P (zip as ls))))" if "keys_ordered ss_id (concat ls)"
    for P and as :: "nat list" and ls :: "stored_symbol list list"
    using that
  proof (induction as arbitrary: ls)
    case (Cons a as)
    show ?case
    proof (cases ls)
      case (Cons leaf rest)
      then show ?thesis using Cons.IH [of rest] Cons.prems by (auto simp: keys_ordered_append dest: set_zip_rightD)
    qed (simp add: keys_ordered_def)
  qed (simp add: keys_ordered_def)
  then show ?thesis using packed.rows_ordered [OF assms] by (simp add: pi_rows_def unshared_def)
qed

lemma lookup_iff: "keys_ordered key rows \<Longrightarrow> lookup key rows k = Some r \<longleftrightarrow> r \<in> set rows \<and> key r = k"
  using lookup_member [of key rows r] lookup_SomeD [of key rows k r] by auto

text \<open>Two leaves at one address are one leaf.\<close>

definition shared_by_address :: "nat list \<Rightarrow> 'a list list \<Rightarrow> nat list \<Rightarrow> 'a list list \<Rightarrow> bool" where
  "shared_by_address as xs bs ys \<longleftrightarrow>
     length as = length xs \<and> length bs = length ys
     \<and> (\<forall>i<length xs. \<forall>j<length ys. as ! i = bs ! j \<longrightarrow> xs ! i = ys ! j)"

lemma shared_row:
  assumes "shared_by_address as (pi_leaves x) bs (pi_leaves y)" "pi_inv ss_id x" "pi_inv ss_id y"
    and "i < length (pi_leaves x)" "as ! i \<in> set as \<inter> set bs" "r \<in> set (pi_leaves x ! i)"
  shows "lookup ss_id (pi_rows x) (ss_id r) = Some r" "lookup ss_id (pi_rows y) (ss_id r) = Some r"
    and "lookup ss_id (unshared as x (set as \<inter> set bs)) (ss_id r) = None"
    and "lookup ss_id (unshared bs y (set as \<inter> set bs)) (ss_id r) = None"
proof -
  obtain j where j: "j < length (pi_leaves y)" "bs ! j = as ! i"
    using assms(1,5) by (auto simp: shared_by_address_def in_set_conv_nth)
  then have leaf: "pi_leaves y ! j = pi_leaves x ! i"
    using assms(1,4) unfolding shared_by_address_def by metis
  have ordered: "keys_ordered ss_id (concat (pi_leaves x))" "keys_ordered ss_id (concat (pi_leaves y))"
    using packed.rows_ordered [OF assms(2)] packed.rows_ordered [OF assms(3)] by (simp_all add: pi_rows_def)
  have lengths: "length as = length (pi_leaves x)" "length bs = length (pi_leaves y)"
    using assms(1) by (simp_all add: shared_by_address_def)
  have "r \<in> set (pi_rows x)" "r \<in> set (pi_rows y)"
    using nth_mem [OF assms(4)] nth_mem [OF j(1)] assms(6) leaf by (auto simp: pi_rows_def)
  then show "lookup ss_id (pi_rows x) (ss_id r) = Some r" "lookup ss_id (pi_rows y) (ss_id r) = Some r"
    using ordered by (simp_all add: lookup_iff pi_rows_def)
  have "s \<notin> set (unshared as x (set as \<inter> set bs))" if "ss_id r = ss_id s" for s
    using leaf_keys_disjoint [OF ordered(1) assms(4) _ assms(6) _ that] assms(5) unshared_mem [OF lengths(1)] by blast
  then show "lookup ss_id (unshared as x (set as \<inter> set bs)) (ss_id r) = None"
    unfolding lookup_None_iff by blast
  have "s \<notin> set (unshared bs y (set as \<inter> set bs))" if "ss_id r = ss_id s" for s
    using leaf_keys_disjoint [OF ordered(2) j(1) _ assms(6) [folded leaf] _ that] assms(5) [folded j(2)]
      unshared_mem [OF lengths(2)] by blast
  then show "lookup ss_id (unshared bs y (set as \<inter> set bs)) (ss_id r) = None"
    unfolding lookup_None_iff by blast
qed

lemma unshared_lookup:
  assumes "pi_inv ss_id x" "length as = length (pi_leaves x)"
    and "\<And>i r. i < length (pi_leaves x) \<Longrightarrow> as ! i \<in> shared \<Longrightarrow> r \<in> set (pi_leaves x ! i) \<Longrightarrow> ss_id r \<noteq> k"
  shows "lookup ss_id (unshared as x shared) k = lookup ss_id (pi_rows x) k"
proof -
  have rows: "keys_ordered ss_id (pi_rows x)" using packed.rows_ordered [OF assms(1)] .
  note U = unshared_ordered [OF assms(1), of as shared]
  have "r \<in> set (unshared as x shared) \<and> ss_id r = k \<longleftrightarrow> r \<in> set (pi_rows x) \<and> ss_id r = k" for r
  proof -
    have "r \<in> set (pi_rows x) \<longleftrightarrow> (\<exists>i<length (pi_leaves x). r \<in> set (pi_leaves x ! i))"
      by (metis (no_types, lifting) pi_rows_def UN_iff in_set_conv_nth set_concat)
    then show ?thesis using assms(3) unfolding unshared_mem [OF assms(2)] by blast
  qed
  then have "lookup ss_id (unshared as x shared) k = Some r \<longleftrightarrow> lookup ss_id (pi_rows x) k = Some r" for r
    using lookup_iff [OF U] lookup_iff [OF rows] by simp
  then show ?thesis by (metis not_None_eq)
qed

lemma moved_declarations_spec:
  assumes inv: "ft_inv table" "ft_inv previous"
    and shared: "shared_by_address now (pi_leaves (ft_symbols table)) before (pi_leaves (ft_symbols previous))"
  shows "set (symbols_with_moved_declarations table now previous before)
      = {k. \<not> rel_option same_declarations (ft_symbol previous k) (ft_symbol table k)}
    \<and> sorted_wrt (<) (symbols_with_moved_declarations table now previous before)"
proof -
  let ?x = "ft_symbols table" and ?y = "ft_symbols previous" and ?S = "set now \<inter> set before"
  have x: "pi_inv ss_id ?x" and y: "pi_inv ss_id ?y" using inv by (simp_all add: ft_inv_def)
  have sym: "shared_by_address before (pi_leaves ?y) now (pi_leaves ?x)"
    using shared unfolding shared_by_address_def by metis
  have lengths: "length now = length (pi_leaves ?x)" "length before = length (pi_leaves ?y)"
    using shared by (simp_all add: shared_by_address_def)
  have S: "set before \<inter> set now = ?S" by blast
  have key: "rel_option same_declarations (lookup ss_id (unshared before ?y ?S) k) (lookup ss_id (unshared now ?x ?S) k)
      \<longleftrightarrow> rel_option same_declarations (lookup ss_id (pi_rows ?y) k) (lookup ss_id (pi_rows ?x) k)" for k
  proof (cases "(\<exists>i<length (pi_leaves ?x). now ! i \<in> ?S \<and> (\<exists>r\<in>set (pi_leaves ?x ! i). ss_id r = k))
      \<or> (\<exists>i<length (pi_leaves ?y). before ! i \<in> ?S \<and> (\<exists>r\<in>set (pi_leaves ?y ! i). ss_id r = k))")
    case True
    then obtain r where "lookup ss_id (pi_rows ?x) k = Some r" "lookup ss_id (pi_rows ?y) k = Some r"
      "lookup ss_id (unshared now ?x ?S) k = None" "lookup ss_id (unshared before ?y ?S) k = None"
      using shared_row [OF shared x y] shared_row [OF sym y x, unfolded S] by blast
    then show ?thesis by (simp add: same_declarations_def)
  next
    case False
    then have "lookup ss_id (unshared now ?x ?S) k = lookup ss_id (pi_rows ?x) k"
      "lookup ss_id (unshared before ?y ?S) k = lookup ss_id (pi_rows ?y) k"
      by (auto intro!: unshared_lookup [OF x lengths(1)] unshared_lookup [OF y lengths(2)])
    then show ?thesis by simp
  qed
  have "set (symbols_with_moved_declarations table now previous before)
      = {k. \<not> rel_option same_declarations (lookup ss_id (pi_rows ?y) k) (lookup ss_id (pi_rows ?x) k)}"
    using diff_keys_iff [OF unshared_ordered [OF y] unshared_ordered [OF x]] key
    by (auto simp: symbols_with_moved_declarations_def Let_def)
  then show ?thesis
    using diff_keys_sorted [OF unshared_ordered [OF y] unshared_ordered [OF x]]
    by (simp add: ft_symbol_def packed.get_lookup x y symbols_with_moved_declarations_def Let_def)
qed

end
