(* ===== verification/TF_Retained.thy ===== *)
theory TF_Retained
  imports TF_Codec TF_Symbols
begin

text \<open>
  The properties of the retained table: its packed index, the application of full and delta
  transitions, the check that guards a delta, and the bookkeeping of symbol rows, each with a
  concrete table on which its side conditions hold.
\<close>

section \<open>What the check of a delta decides\<close>

text \<open>The first reference operation that names a symbol which the operations before it left absent, or
  left as an alias.\<close>

fun spec_validate :: "symbol_op list \<Rightarrow> (str \<rightharpoonup> symbol_fact) \<Rightarrow> delta_error + unit" where
  "spec_validate [] m = Inr ()"
| "spec_validate (op # ops) m =
     (case op of
        SymReplaceReferencePath ident path references \<Rightarrow>
          (case m ident of
             None \<Rightarrow> Inl (ReferenceNamesMissingSymbol ident)
           | Some symbol \<Rightarrow>
               if sf_alias_target symbol \<noteq> [] then Inl (ReferenceNamesAliasSymbol ident)
               else spec_validate ops (spec_symbol_op op m))
      | _ \<Rightarrow> spec_validate ops (spec_symbol_op op m))"

lemma spec_symbol_op_other: "ident \<noteq> symbol_op_id op \<Longrightarrow> spec_symbol_op op m ident = m ident"
  by (cases op) auto

lemma validate_symbols_spec:
  assumes "list_all (symbol_op_shape mode) ops" "sorted_wrt (\<lambda>a b. symbol_op_id a \<le> symbol_op_id b) ops"
    and "\<forall>op\<in>set ops. current \<le> symbol_op_id op"
    and "\<forall>ident. current < ident \<longrightarrow> m ident = map_option ss_to_fact (pi_get ss_id retained ident)"
    and "current \<noteq> [] \<longrightarrow> exists = (m current \<noteq> None)
      \<and> aliased = (case m current of None \<Rightarrow> False | Some s \<Rightarrow> sf_alias_target s \<noteq> [])"
  shows "validate_symbols retained current exists aliased ops = spec_validate ops m"
  using assms
proof (induction ops arbitrary: current exists aliased m)
  case (Cons op ops)
  let ?id = "symbol_op_id op"
  have ne: "?id \<noteq> []" using Cons.prems(1) by (cases op) auto
  have le: "current \<le> ?id" using Cons.prems(3) by simp
  have later: "\<forall>o'\<in>set ops. ?id \<le> symbol_op_id o'" using Cons.prems(2) by simp
  obtain e a where ea: "(if ?id \<noteq> current then case pi_get ss_id retained ?id of
      None \<Rightarrow> (False, False) | Some symbol \<Rightarrow> (True, ss_alias_target symbol \<noteq> []) else (exists, aliased)) = (e, a)"
    by fastforce
  have m: "e = (m ?id \<noteq> None) \<and> a = (case m ?id of None \<Rightarrow> False | Some s \<Rightarrow> sf_alias_target s \<noteq> [])"
  proof (cases "?id = current")
    case True
    with ea Cons.prems(5) ne show ?thesis by simp
  next
    case False
    with le Cons.prems(4) have "m ?id = map_option ss_to_fact (pi_get ss_id retained ?id)" by simp
    with False ea show ?thesis by (auto simp: ss_to_fact_def split: option.splits)
  qed
  have rest: "validate_symbols retained ?id e' a' ops = spec_validate ops (spec_symbol_op op m)"
    if "e' = (spec_symbol_op op m ?id \<noteq> None)"
      "a' = (case spec_symbol_op op m ?id of None \<Rightarrow> False | Some s \<Rightarrow> sf_alias_target s \<noteq> [])" for e' a'
  proof (rule Cons.IH)
    show "\<forall>ident. ?id < ident \<longrightarrow> spec_symbol_op op m ident = map_option ss_to_fact (pi_get ss_id retained ident)"
      using Cons.prems(4) le by (auto simp: spec_symbol_op_other)
  qed (use that Cons.prems later in auto)
  have step: "validate_symbols retained current exists aliased (op # ops) = (case op of
       SymReplace symbol \<Rightarrow> validate_symbols retained ?id True (sf_alias_target symbol \<noteq> []) ops
     | SymRemove _ \<Rightarrow> validate_symbols retained ?id False False ops
     | SymReplaceReferencePath _ _ _ \<Rightarrow>
         if \<not> e then Inl (ReferenceNamesMissingSymbol ?id)
         else if a then Inl (ReferenceNamesAliasSymbol ?id)
         else validate_symbols retained ?id e a ops)"
    by (simp only: validate_symbols.simps Let_def ea prod.case)
  show ?case
  proof (cases op)
    case (SymReplaceReferencePath ident path references)
    with m have "validate_symbols retained ?id True False ops = spec_validate ops (spec_symbol_op op m)"
      if "m ident = Some s" "sf_alias_target s = []" for s
      using that by (intro rest) simp_all
    with SymReplaceReferencePath m step show ?thesis by (cases "m ident") simp_all
  qed (use step rest [OF refl refl] in simp_all)
qed simp

section \<open>Sparse and linear application\<close>

lemma path_sparse_linear:
  assumes inv: "ft_inv table" and ops: "successively (\<lambda>a b. po_path a < po_path b) ops"
  shows "\<exists>index. apply_path_operations_sparse table ops = Some (path_state_of index)
    \<and> pi_rows index = pi_rows (apply_path_operations_linear (ft_paths table) ops)"
proof -
  have index: "pi_inv pe_path (ft_paths table)" using inv by (simp add: ft_inv_def)
  note ordered = packed.rows_ordered [OF index]
  let ?edits = "fold_opt (\<lambda>op j. map_option (pi_updated pe_path j (po_path op))
    (path_step (pi_get pe_path j (po_path op)) op)) ops (ft_paths table)"
  have "map_option pi_rows ?edits = Some (merge_path_operations (pi_rows (ft_paths table)) ops)"
    using packed.edits_rows [OF index path_step_keyed] merge_path_operations_rows [OF ordered ops] by simp
  then obtain index where "?edits = Some index"
    "pi_rows index = merge_path_operations (pi_rows (ft_paths table)) ops" by auto
  moreover have "apply_path_operations_sparse table ops = map_option path_state_of ?edits"
    using fold_path_operations [OF index] inv
    by (simp add: apply_path_operations_sparse_def path_state_of_def ft_inv_def)
  ultimately show ?thesis by (auto simp: apply_path_operations_linear_def)
qed

lemma symbol_sparse_linear:
  assumes inv: "ft_inv table" and ops: "successively (\<lambda>a b. symbol_op_key a < symbol_op_key b) ops"
  shows "map_option pi_rows (apply_symbol_operations_sparse (ft_symbols table) ops)
    = map_option pi_rows (apply_symbol_operations_linear (ft_symbols table) ops)"
proof -
  have index: "pi_inv ss_id (ft_symbols table)" using inv by (simp add: ft_inv_def)
  have "map_option pi_rows (apply_symbol_operations_sparse (ft_symbols table) ops)
      = fold_opt symbol_row_step ops (pi_rows (ft_symbols table))"
    unfolding apply_symbol_operations_sparse_def
    by (rule packed.edits_rows [OF index apply_one_symbol_keyed])
  then show ?thesis
    by (simp add: merge_symbol_operations_rows [OF packed.rows_ordered [OF index] ids_ordered [OF ops]]
        apply_symbol_operations_linear_def option.map_comp comp_def option.map_ident)
qed

lemma validate_delta_spec:
  assumes "ft_inv table" "transition_shape t"
  shows "validate_delta table t = spec_validate (wt_symbols t) (at_symbols (ft_abs table))"
proof -
  have "list_all (symbol_op_shape (wt_mode t)) (wt_symbols t)"
    "successively (\<lambda>a b. symbol_op_key a < symbol_op_key b) (wt_symbols t)"
    using assms(2) by (auto simp: transition_shape_def)
  then show ?thesis
    unfolding validate_delta_def
    by (intro validate_symbols_spec [of "wt_mode t"]) (simp_all add: ids_ordered ft_abs_def ft_symbol_fact_def)
qed

section \<open>Tables to evaluate\<close>

definition ex_reference :: "str \<Rightarrow> u64 \<Rightarrow> location" where
  "ex_reference path start = \<lparr>loc_path = path, loc_end_byte = start + 5, loc_start_byte = start\<rparr>"

definition ex_symbol :: symbol_fact where
  "ex_symbol = \<lparr>sf_id = ''s'', sf_references = [ex_reference ''a.ts'' 4, ex_reference ''b.ts'' 1],
     sf_alias_target = [], sf_declarations = []\<rparr>"

definition ex_alias :: symbol_fact where
  "ex_alias = \<lparr>sf_id = ''t'', sf_references = [], sf_alias_target = ''s'', sf_declarations = []\<rparr>"

definition ex_file :: file_fact where
  "ex_file = \<lparr>ff_path = ''b.ts'', ff_calls = [], ff_bindings = [], ff_functions = [], ff_async_functions = []\<rparr>"

definition ex_full :: wire_table_transition where
  "ex_full = \<lparr>wt_mode = ModeFull, wt_table_schema = 24, wt_base_generation = 0, wt_target_generation = 1,
     wt_project_id = ''p'', wt_base_state_token = [],
     wt_paths = [\<lparr>po_path = ''a.ts'', po_source = SlotUnchanged, po_entities = SlotReplace [ex_entity],
                   po_file = SlotUnchanged\<rparr>,
                 \<lparr>po_path = ''b.ts'', po_source = SlotUnchanged, po_entities = SlotUnchanged,
                   po_file = SlotReplace ex_file\<rparr>],
     wt_symbols = [SymReplace ex_symbol, SymReplace ex_alias]\<rparr>"

definition ex_delta :: wire_table_transition where
  "ex_delta = \<lparr>wt_mode = ModeDelta, wt_table_schema = 24, wt_base_generation = 1, wt_target_generation = 2,
     wt_project_id = ''p'', wt_base_state_token = ''t'',
     wt_paths = [\<lparr>po_path = ''b.ts'', po_source = SlotUnchanged, po_entities = SlotUnchanged,
                   po_file = SlotRemove\<rparr>],
     wt_symbols = [SymReplaceReferencePath ''s'' ''b.ts'' [], SymRemove ''t'']\<rparr>"

text \<open>A delta that the check refuses: its reference operation names an alias.\<close>

definition ex_bad_delta :: wire_table_transition where
  "ex_bad_delta = ex_delta\<lparr>wt_symbols := [SymReplaceReferencePath ''t'' ''b.ts'' []]\<rparr>"

definition ex_table :: fact_table where
  "ex_table = the (materialize_full ex_full)"

lemma ex_shapes: "transition_shape ex_full" "transition_shape ex_delta" "transition_shape ex_bad_delta"
  by code_simp+

lemma ex_modes [simp]: "wt_mode ex_full = ModeFull" "wt_mode ex_delta = ModeDelta" "wt_mode ex_bad_delta = ModeDelta"
  by (simp_all add: ex_full_def ex_delta_def ex_bad_delta_def)

lemma ex_table_inv: "ft_inv ex_table"
  using materialize_full_refines [OF ex_shapes(1)] by (auto simp: ex_table_def)

lemma ex_delta_valid: "validate_delta ex_table ex_delta = Inr ()"
  by code_simp

lemma ex_ops_ordered:
  "successively (\<lambda>a b. po_path a < po_path b) (wt_paths ex_delta)"
  "successively (\<lambda>a b. symbol_op_key a < symbol_op_key b) (wt_symbols ex_delta)"
  by code_simp+

section \<open>Properties\<close>

text \<open>C2. A delta whose operations have the shape the decoder guarantees, and which the check against the
  retained table passed, is applied without a panic: the result keeps every invariant of the table
  (ordered indexes, canonical runs, exact counters), keeps the project and its compiler option, and
  shows a client exactly what the operations, applied one after another, mean.\<close>

theorem apply_delta_correct:
  assumes "ft_inv table" "transition_shape t" "wt_mode t = ModeDelta" "validate_delta table t = Inr ()"
  shows "\<exists>table'. apply_delta table t = Some table' \<and> ft_inv table'
    \<and> ft_abs table' = spec_transition t (ft_abs table)
    \<and> ft_project_id table' = ft_project_id table \<and> ft_strict_null_checks table' = ft_strict_null_checks table"
  using assms by (rule apply_delta_refines)

theorem apply_delta_correct_witness:
  "\<exists>table'. apply_delta ex_table ex_delta = Some table' \<and> ft_inv table'
    \<and> ft_abs table' = spec_transition ex_delta (ft_abs ex_table) \<and> ft_symbol_count table' = 1"
proof -
  have "\<exists>table'. apply_delta ex_table ex_delta = Some table' \<and> ft_inv table'
      \<and> ft_abs table' = spec_transition ex_delta (ft_abs ex_table)"
    using apply_delta_correct [OF ex_table_inv ex_shapes(2) ex_modes(2) ex_delta_valid] by blast
  moreover have "map_option ft_symbol_count (apply_delta ex_table ex_delta) = Some 1" by code_simp
  ultimately show ?thesis by auto
qed

text \<open>C3. A full transition of the shape the decoder guarantees always builds a table: it satisfies
  every invariant and shows exactly the rows of the transition.\<close>

theorem materialize_full_correct:
  assumes "transition_shape t" "wt_mode t = ModeFull"
  shows "\<exists>table. materialize_full t = Some table \<and> ft_inv table
    \<and> ft_abs table = spec_transition t (abstract_empty (wt_project_id t)) \<and> ft_strict_null_checks table = None"
  using assms by (rule materialize_full_refines)

theorem materialize_full_correct_witness:
  "\<exists>table. materialize_full ex_full = Some table \<and> ft_inv table
    \<and> ft_abs table = spec_transition ex_full (abstract_empty ''p'')"
  using materialize_full_correct [OF ex_shapes(1) ex_modes(1)] by (auto simp: ex_full_def)

text \<open>C4. Every byte string the decoder accepts yields a transition of that shape: a supported schema, a
  base identity that fits the mode, path operations in strictly increasing path order, none empty,
  symbol operations in strictly increasing key order, canonical runs and references, and neither
  removals nor reference operations in a full transition.\<close>

theorem decode_accepts_only_shaped:
  assumes "decode_table_transition input = Inr t"
  shows "transition_shape t"
  using assms by (rule decode_shape)

theorem decode_accepts_only_shaped_witness:
  "decode_table_transition ex_frame = Inr (wire_transition ex_plan) \<and> transition_shape (wire_transition ex_plan)"
proof -
  have "decode_table_transition ex_frame = Inr (wire_transition ex_plan)"
    by (rule decode_write [OF ex_plan_ok ex_frame_written ex_strings_ok ex_frame_length])
  then show ?thesis using decode_accepts_only_shaped [of ex_frame] by blast
qed

text \<open>C5. The linear rebuild that large batches take and the sparse edits that small batches take agree on
  every table and every ordered batch: the same entries and counters, and the same symbol rows or
  the same panic.\<close>

theorem sparse_equals_linear:
  assumes "ft_inv table"
    and "successively (\<lambda>a b. po_path a < po_path b) path_ops"
    and "successively (\<lambda>a b. symbol_op_key a < symbol_op_key b) symbol_ops"
  shows "map_option (\<lambda>(index, counts). (pi_rows index, counts)) (apply_path_operations_sparse table path_ops)
      = (let index = apply_path_operations_linear (ft_paths table) path_ops in
         Some (pi_rows index, count_sources (pi_rows index), count_entities (pi_rows index), count_files (pi_rows index)))
    \<and> map_option pi_rows (apply_symbol_operations_sparse (ft_symbols table) symbol_ops)
      = map_option pi_rows (apply_symbol_operations_linear (ft_symbols table) symbol_ops)"
  using path_sparse_linear [OF assms(1,2)] symbol_sparse_linear [OF assms(1,3)]
  by (auto simp: path_state_of_def Let_def)

theorem sparse_equals_linear_witness:
  "map_option pi_rows (apply_symbol_operations_sparse (ft_symbols ex_table) (wt_symbols ex_delta))
     = map_option pi_rows (apply_symbol_operations_linear (ft_symbols ex_table) (wt_symbols ex_delta))
   \<and> apply_symbol_operations_linear (ft_symbols ex_table) (wt_symbols ex_delta) \<noteq> None"
proof -
  have "apply_symbol_operations_linear (ft_symbols ex_table) (wt_symbols ex_delta) \<noteq> None" by code_simp
  with sparse_equals_linear [OF ex_table_inv ex_ops_ordered] show ?thesis by blast
qed

text \<open>C6. The check that guards a delta decides exactly whether its reference operations can apply: it
  reports the first one whose symbol is absent, or is an alias, once the operations before it have
  been applied, and passes when there is none.\<close>

theorem validate_delta_exact:
  assumes "ft_inv table" "transition_shape t"
  shows "validate_delta table t = spec_validate (wt_symbols t) (at_symbols (ft_abs table))"
  using assms by (rule validate_delta_spec)

theorem validate_delta_exact_witness:
  "validate_delta ex_table ex_bad_delta = spec_validate (wt_symbols ex_bad_delta) (at_symbols (ft_abs ex_table))
   \<and> validate_delta ex_table ex_bad_delta = Inl (ReferenceNamesAliasSymbol ''t'')"
proof -
  have "validate_delta ex_table ex_bad_delta = Inl (ReferenceNamesAliasSymbol ''t'')" by code_simp
  with validate_delta_exact [OF ex_table_inv ex_shapes(3)] show ?thesis by simp
qed

text \<open>C7. Copy-on-write updates of the packed index are the updates of a finite map: after setting or
  removing one key every lookup answers as before except on that key, the rows stay in key order in
  non-empty leaves of bounded size, and the stored length stays exact.\<close>

theorem index_update:
  assumes "pi_inv key index" "\<And>row. replacement = Some row \<Longrightarrow> key row = k"
  shows "pi_get key (pi_updated key index k replacement) = (pi_get key index)(k := replacement)
    \<and> pi_inv key (pi_updated key index k replacement)
    \<and> pi_len (pi_updated key index k replacement) = length (upsert key k replacement (pi_rows index))"
  using packed.get_updated [OF assms] packed.updated_inv [OF assms] packed.updated_rows [OF assms(1)]
  by (simp add: pi_inv_def)

theorem index_update_witness:
  "pi_get sf_id (pi_updated sf_id (pi_from_sorted [ex_symbol, ex_alias]) ''s'' None)
     = (pi_get sf_id (pi_from_sorted [ex_symbol, ex_alias]))(''s'' := None)
   \<and> pi_get sf_id (pi_from_sorted [ex_symbol, ex_alias]) ''s'' = Some ex_symbol"
proof -
  have "pi_inv sf_id (pi_from_sorted [ex_symbol, ex_alias])" by code_simp
  moreover have "pi_get sf_id (pi_from_sorted [ex_symbol, ex_alias]) ''s'' = Some ex_symbol" by code_simp
  ultimately show ?thesis
    using index_update [of sf_id "pi_from_sorted [ex_symbol, ex_alias]" None "''s''"] by simp
qed

text \<open>C8. Iterating an index ends, never panics, and yields every row exactly once in key order, with
  its length hint exact; a search finds a row exactly when iteration yields it.\<close>

theorem index_iteration:
  assumes "pi_inv key index"
  shows "\<exists>rows. it_collect (pi_iter index) = Some rows \<and> sorted_wrt (<) (map key rows)
    \<and> length rows = pi_len index
    \<and> (\<forall>k row. pi_get key index k = Some row \<longleftrightarrow> row \<in> set rows \<and> key row = k)"
  using pi_iter_rows [OF assms] packed.rows_ordered [OF assms] packed.get_lookup [OF assms] assms
  by (auto simp: lookup_iff keys_ordered_def pi_inv_def)

theorem index_iteration_witness:
  "\<exists>rows. it_collect (pi_iter (ft_symbols ex_table)) = Some rows \<and> sorted_wrt (<) (map ss_id rows)
    \<and> length rows = 2"
proof -
  have "pi_inv ss_id (ft_symbols ex_table)" using ex_table_inv by (simp add: ft_inv_def)
  moreover have "pi_len (ft_symbols ex_table) = 2" by code_simp
  ultimately show ?thesis using index_iteration by metis
qed

text \<open>C9. Storing a symbol with its references grouped by path and reading it back gives the symbol, and
  replacing the references on one path never underflows the count and changes exactly the
  references on that path.\<close>

theorem stored_references:
  assumes "locations_are_canonical (sf_references symbol)" "list_all (\<lambda>l. loc_path l = path) references"
  shows "ss_to_fact (ss_from_fact symbol) = symbol
    \<and> (\<exists>stored. ss_replace_reference_path (ss_from_fact symbol) path references = Some stored
        \<and> ss_to_fact stored = symbol
            \<lparr>sf_references := replace_path_references path references (sf_references symbol)\<rparr>
        \<and> ss_reference_count stored = length (sf_references (ss_to_fact stored)))"
proof -
  have "ss_locations (ss_from_fact symbol) = sf_references symbol"
    using ss_to_from_fact [of symbol] by (metis ss_to_fact_def symbol_fact.select_convs(2))
  with ss_replace_reference_path_refines [OF ss_from_fact_wf [OF assms(1)] assms(2)]
  obtain stored where stored: "ss_replace_reference_path (ss_from_fact symbol) path references = Some stored" "ss_wf stored"
    "ss_to_fact stored = symbol\<lparr>sf_references := replace_path_references path references (sf_references symbol)\<rparr>"
    by auto
  moreover have "ss_reference_count stored = length (sf_references (ss_to_fact stored))"
    using stored(2) by (simp add: ss_wf_def ss_to_fact_def)
  ultimately show ?thesis by simp
qed

theorem stored_references_witness:
  "map_option ss_to_fact (ss_replace_reference_path (ss_from_fact ex_symbol) ''a.ts'' [ex_reference ''a.ts'' 7])
     = Some (ex_symbol\<lparr>sf_references := [ex_reference ''a.ts'' 7, ex_reference ''b.ts'' 1]\<rparr>)"
proof -
  have 1: "locations_are_canonical (sf_references ex_symbol)"
    and 2: "list_all (\<lambda>l. loc_path l = ''a.ts'') [ex_reference ''a.ts'' 7]"
    and 3: "replace_path_references ''a.ts'' [ex_reference ''a.ts'' 7] (sf_references ex_symbol)
      = [ex_reference ''a.ts'' 7, ex_reference ''b.ts'' 1]" by code_simp+
  from stored_references [OF 1 2] 3 show ?thesis by auto
qed

text \<open>C13. Replacing all symbol rows stores exactly the given rows and reports, in order and without
  repetition, exactly the ids whose row was added, removed or changed.\<close>

theorem replace_symbols_correct:
  assumes "ft_inv table" "distinct (map sf_id symbols)"
    and "\<forall>symbol\<in>set symbols. locations_are_canonical (sf_references symbol)"
    and "replace_symbols table symbols = (table', changed)"
  shows "ft_inv table' \<and> at_symbols (ft_abs table') = lookup sf_id symbols
    \<and> set changed = {k. at_symbols (ft_abs table) k \<noteq> at_symbols (ft_abs table') k} \<and> sorted_wrt (<) changed"
  using assms by (rule replace_symbols_spec)

theorem replace_symbols_correct_witness:
  "snd (replace_symbols ex_table [ex_symbol]) = [''t'']
   \<and> {''t''} = {k. at_symbols (ft_abs ex_table) k \<noteq> lookup sf_id [ex_symbol] k}"
proof -
  have 1: "distinct (map sf_id [ex_symbol])"
    and 2: "\<forall>symbol\<in>set [ex_symbol]. locations_are_canonical (sf_references symbol)"
    and 3: "snd (replace_symbols ex_table [ex_symbol]) = [''t'']" by code_simp+
  obtain table' changed where r: "replace_symbols ex_table [ex_symbol] = (table', changed)" by fastforce
  from replace_symbols_correct [OF ex_table_inv 1 2 r] 3 show ?thesis by (auto simp: r)
qed

text \<open>C12. Merging upserts and removals into the symbol rows leaves the rows of the upserts, no row of a
  removed id that is not upserted, and every other row as it was; the reported ids are exactly the
  ids whose row changed, in order.\<close>

theorem merge_symbols_correct:
  assumes "ft_inv table"
    and "\<forall>symbol\<in>set upserts. locations_are_canonical (sf_references symbol)"
    and "merge_symbols table upserts removed = (table', changed)"
  shows "ft_inv table' \<and> at_symbols (ft_abs table') = (\<lambda>k. case lookup sf_id upserts k of
      Some symbol \<Rightarrow> Some symbol | None \<Rightarrow> if k \<in> removed then None else at_symbols (ft_abs table) k)
    \<and> set changed = {k. at_symbols (ft_abs table) k \<noteq> at_symbols (ft_abs table') k} \<and> sorted_wrt (<) changed"
  using assms by (rule merge_symbols_spec)

theorem merge_symbols_correct_witness:
  "snd (merge_symbols ex_table [ex_symbol] {''t''}) = [''t'']
   \<and> at_symbols (ft_abs (fst (merge_symbols ex_table [ex_symbol] {''t''}))) ''t'' = None"
proof -
  have 1: "\<forall>symbol\<in>set [ex_symbol]. locations_are_canonical (sf_references symbol)"
    and 2: "snd (merge_symbols ex_table [ex_symbol] {''t''}) = [''t'']"
    and 3: "lookup sf_id [ex_symbol] ''t'' = None" by code_simp+
  obtain table' changed where r: "merge_symbols ex_table [ex_symbol] {''t''} = (table', changed)" by fastforce
  have "at_symbols (ft_abs table') = (\<lambda>k. case lookup sf_id [ex_symbol] k of
      Some symbol \<Rightarrow> Some symbol | None \<Rightarrow> if k \<in> {''t''} then None else at_symbols (ft_abs ex_table) k)"
    using merge_symbols_correct [OF ex_table_inv 1 r] by blast
  from fun_cong [OF this, of "''t''"] 2 3 show ?thesis by (simp add: r)
qed

text \<open>C10. Merging is replacing: for every successor set that upserts and removals describe, the ordered
  merge returns the very list of changed ids that a whole replacement by that set returns, and the
  two tables show a client the same symbols.\<close>

theorem merge_equals_replace:
  assumes inv: "ft_inv table"
    and upserts: "\<forall>symbol\<in>set upserts. locations_are_canonical (sf_references symbol)"
    and successor: "distinct (map sf_id successor)"
      "\<forall>symbol\<in>set successor. locations_are_canonical (sf_references symbol)"
      "lookup sf_id successor = (\<lambda>k. case lookup sf_id upserts k of
         Some symbol \<Rightarrow> Some symbol | None \<Rightarrow> if k \<in> removed then None else ft_symbol_fact table k)"
  shows "snd (merge_symbols table upserts removed) = snd (replace_symbols table successor)
    \<and> ft_symbol_fact (fst (merge_symbols table upserts removed)) = ft_symbol_fact (fst (replace_symbols table successor))"
proof -
  have facts: "at_symbols (ft_abs t) = ft_symbol_fact t" for t by (simp add: ft_abs_def)
  obtain m cm where m: "merge_symbols table upserts removed = (m, cm)" by fastforce
  obtain r cr where r: "replace_symbols table successor = (r, cr)" by fastforce
  note M = merge_symbols_spec [OF inv upserts m, unfolded facts]
  note R = replace_symbols_spec [OF inv successor(1,2) r, unfolded facts]
  have same: "ft_symbol_fact m = ft_symbol_fact r" using M R successor(3) by simp
  have "cm = cr"
    using M R same by (intro sorted_distinct_set_unique) (simp_all add: strict_sorted_iff)
  with same show ?thesis by (simp add: m r)
qed

theorem merge_equals_replace_witness:
  "snd (merge_symbols ex_table [ex_alias] {''s''}) = snd (replace_symbols ex_table [ex_alias])
   \<and> snd (replace_symbols ex_table [ex_alias]) = [''s'']"
proof -
  have 1: "\<forall>symbol\<in>set [ex_alias]. locations_are_canonical (sf_references symbol)"
    and 2: "distinct (map sf_id [ex_alias])"
    and 3: "snd (replace_symbols ex_table [ex_alias]) = [''s'']"
    and ids: "ft_symbol_ids ex_table = [''s'', ''t'']" "sf_id ex_alias = ''t''" by code_simp+
  have "ft_symbol_fact ex_table k = None" if "k \<noteq> ''s''" "k \<noteq> ''t''" for k
    using ids(1) that ex_table_inv
    by (auto simp: ft_symbol_fact_def ft_symbol_ids_def packed.get_lookup ft_inv_def lookup_None_iff simp flip: set_map)
  then have 4: "lookup sf_id [ex_alias] = (\<lambda>k. case lookup sf_id [ex_alias] k of
      Some symbol \<Rightarrow> Some symbol | None \<Rightarrow> if k \<in> {''s''} then None else ft_symbol_fact ex_table k)"
    using ids(2) by (auto simp: fun_eq_iff)
  from merge_equals_replace [OF ex_table_inv 1 2 1 4] 3 show ?thesis by simp
qed

text \<open>C11. Comparing two tables while skipping the leaves they share by address misses nothing: it reports,
  in order and without repetition, exactly the ids whose alias target or declarations differ
  between the tables or that only one of them has.\<close>

theorem moved_declarations:
  assumes "ft_inv table" "ft_inv previous"
    and "shared_by_address now (pi_leaves (ft_symbols table)) before (pi_leaves (ft_symbols previous))"
  shows "set (symbols_with_moved_declarations table now previous before)
      = {k. \<not> rel_option same_declarations (ft_symbol previous k) (ft_symbol table k)}
    \<and> sorted_wrt (<) (symbols_with_moved_declarations table now previous before)"
  using assms by (rule moved_declarations_spec)

definition ex_leaves :: "stored_symbol list list \<Rightarrow> fact_table" where
  "ex_leaves leaves = ex_table\<lparr>ft_symbols := \<lparr>pi_leaves = leaves, pi_len = length (concat leaves)\<rparr>\<rparr>"

definition ex_moved :: symbol_fact where
  "ex_moved = ex_alias\<lparr>sf_alias_target := ''u''\<rparr>"

lemma ex_leaves_inv:
  assumes "pi_inv ss_id \<lparr>pi_leaves = leaves, pi_len = length (concat leaves)\<rparr>" "list_all ss_wf (concat leaves)"
  shows "ft_inv (ex_leaves leaves)"
  using assms ex_table_inv by (simp add: ft_inv_def ex_leaves_def pi_rows_def list_all_iff)

theorem moved_declarations_witness:
  "set (symbols_with_moved_declarations
      (ex_leaves [[ss_from_fact ex_symbol], [ss_from_fact ex_moved]]) [1, 3]
      (ex_leaves [[ss_from_fact ex_symbol], [ss_from_fact ex_alias]]) [1, 2])
    = {k. \<not> rel_option same_declarations
        (ft_symbol (ex_leaves [[ss_from_fact ex_symbol], [ss_from_fact ex_alias]]) k)
        (ft_symbol (ex_leaves [[ss_from_fact ex_symbol], [ss_from_fact ex_moved]]) k)}
   \<and> symbols_with_moved_declarations
      (ex_leaves [[ss_from_fact ex_symbol], [ss_from_fact ex_moved]]) [1, 3]
      (ex_leaves [[ss_from_fact ex_symbol], [ss_from_fact ex_alias]]) [1, 2] = [''t'']"
proof -
  have 1: "ft_inv (ex_leaves [[ss_from_fact ex_symbol], [ss_from_fact ex_moved]])"
    by (rule ex_leaves_inv; code_simp)
  have 2: "ft_inv (ex_leaves [[ss_from_fact ex_symbol], [ss_from_fact ex_alias]])"
    by (rule ex_leaves_inv; code_simp)
  have 3: "shared_by_address [1, 3]
      (pi_leaves (ft_symbols (ex_leaves [[ss_from_fact ex_symbol], [ss_from_fact ex_moved]]))) [1, 2]
      (pi_leaves (ft_symbols (ex_leaves [[ss_from_fact ex_symbol], [ss_from_fact ex_alias]])))"
    by code_simp
  have 4: "symbols_with_moved_declarations
      (ex_leaves [[ss_from_fact ex_symbol], [ss_from_fact ex_moved]]) [1, 3]
      (ex_leaves [[ss_from_fact ex_symbol], [ss_from_fact ex_alias]]) [1, 2] = [''t'']"
    by code_simp
  from moved_declarations [OF 1 2 3] 4 show ?thesis by blast
qed

end
