(* ===== verification/TF_Session.thy ===== *)
theory TF_Session
  imports TF_Retained
begin

text \<open>
  The pure part of \<^verbatim>\<open>session.rs\<close> that stands between the producer's answers and the retained table:
  the checks on a handshake and on a response, the preparation of the next table from an analyze
  response, and the lists of what changed.
\<close>

section \<open>Responses and errors\<close>

record service_error =
  se_code :: str
  se_message :: str

text \<open>The fields of a response that the session reads.\<close>

record response =
  rs_ok :: bool
  rs_error :: "service_error option"
  rs_schema :: u64
  rs_graph_kept :: bool
  rs_project_id :: str
  rs_request_id :: u64
  rs_generation :: u64
  rs_state_token :: str
  rs_symbol_evidence :: "symbol_fact list"
  rs_table_transition :: "u8 list"
  rs_strict_null_checks :: "bool option"

text \<open>Why a response is invalid; the source carries the same cases as messages.\<close>

datatype invalid_response =
    ResponseSchema u64
  | ResponseIdentity str u64
  | NoStateToken
  | ReuseWithoutTable
  | RetainedIdentity
  | TransitionUndecodable decode_error
  | TransitionIdentity
  | DeltaWithoutTable
  | DeltaBaseIdentity
  | DeltaRefused delta_error
  | RequestIdentityMismatch
  | ErrorWithoutBody
  | AnswerIdentity u64 str u64
  | PackedSymbolIdentity
  | PackedSymbolDelta
  | DuplicateGroup str
  | ForeignLocation str str
  | OtherInvalid str

datatype session_error =
    TypeFactsIo
  | TypeFactsCodec
  | SpawnFailed
  | HandshakeFailed u64 str str
  | ProcessFailed str
  | Service str str
  | Closed
  | InvalidResponse invalid_response
  | ProducerProvenance str

fun is_transport_failure :: "session_error \<Rightarrow> bool" where
  "is_transport_failure (ProcessFailed _) = True"
| "is_transport_failure TypeFactsIo = True"
| "is_transport_failure _ = False"

record handshake =
  hs_protocol :: u64
  hs_schema_hash :: str
  hs_build_id :: str

definition type_facts_schema_v1 :: u64 where
  "type_facts_schema_v1 = 1"

definition type_facts_table_schema_v24 :: u64 where
  "type_facts_table_schema_v24 = 24"

definition type_facts_handshake_protocol :: u64 where
  "type_facts_handshake_protocol = 88"

definition type_facts_schema_sha256 :: str where
  "type_facts_schema_sha256 = ''sha256:3a373545fd152a6b98bb36d7f04980075f55a606e67583f0e762c41837ff673d''"

text \<open>The build id is fixed when the client is compiled: an argument.\<close>

definition check_handshake :: "str \<Rightarrow> handshake \<Rightarrow> session_error + unit" where
  "check_handshake type_facts_build_id handshake =
     (let expected = (type_facts_handshake_protocol, type_facts_schema_sha256, type_facts_build_id);
          actual = (hs_protocol handshake, hs_schema_hash handshake, hs_build_id handshake)
      in if actual = expected then Inr ()
         else Inl (HandshakeFailed (hs_protocol handshake) (hs_schema_hash handshake) (hs_build_id handshake)))"

text \<open>The identity and service checks of \<^verbatim>\<open>complete_response\<close>; its timing fields are not modelled.\<close>

definition complete_response :: "session_error + response \<Rightarrow> u64 \<Rightarrow> session_error + response" where
  "complete_response response sent_request_id =
     rbind response (\<lambda>response.
       if rs_request_id response \<noteq> sent_request_id then Inl (InvalidResponse RequestIdentityMismatch)
       else if \<not> rs_ok response then
         (case rs_error response of
            None \<Rightarrow> Inl (InvalidResponse ErrorWithoutBody)
          | Some error \<Rightarrow> Inl (Service (se_code error) (se_message error)))
       else Inr response)"

definition validate_response_identity :: "response \<Rightarrow> str \<Rightarrow> u64 \<Rightarrow> session_error + unit" where
  "validate_response_identity response project_id generation =
     (if rs_schema response \<noteq> type_facts_schema_v1 \<or> rs_project_id response \<noteq> project_id
         \<or> rs_generation response \<noteq> generation
      then Inl (InvalidResponse (AnswerIdentity (rs_schema response) (rs_project_id response) (rs_generation response)))
      else Inr ())"

section \<open>What a transition changes\<close>

record table_changes_row =
  tc_unchanged :: bool
  tc_full :: bool
  tc_entity_paths :: "str list"
  tc_symbol_ids :: "str list"
  tc_file_paths :: "str list"

definition table_changes_default :: table_changes_row where
  "table_changes_default =
     \<lparr>tc_unchanged = False, tc_full = False, tc_entity_paths = [], tc_symbol_ids = [], tc_file_paths = []\<rparr>"

definition table_changes :: "wire_table_transition \<Rightarrow> table_changes_row" where
  "table_changes transition =
     (let entity_paths = map po_path (filter (\<lambda>path. po_entities path \<noteq> SlotUnchanged) (wt_paths transition));
          file_paths = map po_path (filter (\<lambda>path. po_file path \<noteq> SlotUnchanged) (wt_paths transition));
          symbol_ids = remdups_adj (map symbol_op_id (wt_symbols transition));
          unchanged = wt_mode transition = ModeDelta \<and> entity_paths = [] \<and> symbol_ids = [] \<and> file_paths = []
      in \<lparr>tc_unchanged = unchanged, tc_full = False, tc_entity_paths = entity_paths,
          tc_symbol_ids = symbol_ids, tc_file_paths = file_paths\<rparr>)"

definition entities_changed :: "fact_table \<Rightarrow> path_op \<Rightarrow> bool" where
  "entities_changed table path =
     (case po_entities path of
        SlotUnchanged \<Rightarrow> False
      | SlotReplace entities \<Rightarrow> \<not> entities_eq (ft_entities_for_path table (po_path path)) entities
      | SlotRemove \<Rightarrow> ft_entities_for_path table (po_path path) \<noteq> [])"

definition file_changed :: "fact_table \<Rightarrow> path_op \<Rightarrow> bool" where
  "file_changed table path =
     (case po_file path of
        SlotUnchanged \<Rightarrow> False
      | SlotReplace file \<Rightarrow> ft_file table (po_path path) \<noteq> Some file
      | SlotRemove \<Rightarrow> ft_file table (po_path path) \<noteq> None)"

definition table_changes_against :: "fact_table \<Rightarrow> wire_table_transition \<Rightarrow> table_changes_row" where
  "table_changes_against table transition =
     (let entity_paths = map po_path (filter (entities_changed table) (wt_paths transition));
          file_paths = map po_path (filter (file_changed table) (wt_paths transition));
          symbol_ids = remdups_adj (map symbol_op_id (wt_symbols transition));
          unchanged = entity_paths = [] \<and> symbol_ids = [] \<and> file_paths = []
      in \<lparr>tc_unchanged = unchanged, tc_full = False, tc_entity_paths = entity_paths,
          tc_symbol_ids = symbol_ids, tc_file_paths = file_paths\<rparr>)"

section \<open>From a response to the next table\<close>

definition validate_table_transition_application ::
    "fact_table \<Rightarrow> wire_table_transition \<Rightarrow> session_error + unit" where
  "validate_table_transition_application table transition =
     (case validate_delta table transition of
        Inl error \<Rightarrow> Inl (InvalidResponse (DeltaRefused error))
      | Inr _ \<Rightarrow> Inr ())"

definition materialize_full_transition ::
    "wire_table_transition \<Rightarrow> (fact_table \<times> table_changes_row) option" where
  "materialize_full_transition transition =
     (let changes = (table_changes transition)\<lparr>tc_full := True, tc_unchanged := False\<rparr>
      in map_option (\<lambda>table. (table, changes)) (materialize_full transition))"

text \<open>
  The last branch of \<^verbatim>\<open>prepare_analyze_response_mode\<close>, which has a decoded transition in hand.  The
  outer option is a panic of the table code.
\<close>

definition prepare_transition ::
    "wire_table_transition \<Rightarrow> fact_table option \<Rightarrow> str
     \<Rightarrow> (session_error + fact_table \<times> table_changes_row \<times> bool) option" where
  "prepare_transition transition retained retained_state_token =
     (case wt_mode transition of
        ModeFull \<Rightarrow>
          map_option (\<lambda>(table, changes). Inr (table, changes, False)) (materialize_full_transition transition)
      | ModeDelta \<Rightarrow>
          (case retained of
             None \<Rightarrow> Some (Inl (InvalidResponse DeltaWithoutTable))
           | Some retained_table \<Rightarrow>
               if ft_schema retained_table \<noteq> wt_table_schema transition
                  \<or> ft_generation retained_table \<noteq> wt_base_generation transition
                  \<or> ft_project_id retained_table \<noteq> wt_project_id transition
                  \<or> retained_state_token \<noteq> wt_base_state_token transition
               then Some (Inl (InvalidResponse DeltaBaseIdentity))
               else
                 (case validate_table_transition_application retained_table transition of
                    Inl error \<Rightarrow> Some (Inl error)
                  | Inr _ \<Rightarrow>
                      map_option (\<lambda>candidate.
                        Inr (candidate, table_changes_against retained_table transition, True))
                        (apply_delta retained_table transition))))"

definition prepare_analyze_response_mode ::
    "response \<Rightarrow> str \<Rightarrow> u64 \<Rightarrow> fact_table option \<Rightarrow> str
     \<Rightarrow> (session_error + fact_table \<times> table_changes_row \<times> bool) option" where
  "prepare_analyze_response_mode response expected_project expected_generation retained retained_state_token =
     (if rs_schema response \<noteq> type_facts_schema_v1
      then Some (Inl (InvalidResponse (ResponseSchema (rs_schema response))))
      else if rs_project_id response \<noteq> expected_project \<or> rs_generation response \<noteq> expected_generation
      then Some (Inl (InvalidResponse (ResponseIdentity (rs_project_id response) (rs_generation response))))
      else if rs_state_token response = []
      then Some (Inl (InvalidResponse NoStateToken))
      else if rs_table_transition response = [] then
        (case retained of
           None \<Rightarrow> Some (Inl (InvalidResponse ReuseWithoutTable))
         | Some candidate \<Rightarrow>
             if ft_schema candidate \<noteq> type_facts_table_schema_v24 \<or> ft_project_id candidate \<noteq> expected_project
                \<or> ft_generation candidate \<noteq> rs_generation response
             then Some (Inl (InvalidResponse RetainedIdentity))
             else Some (Inr (candidate, table_changes_default\<lparr>tc_unchanged := True\<rparr>, True)))
      else
        (case decode_table_transition (rs_table_transition response) of
           Inl error \<Rightarrow> Some (Inl (InvalidResponse (TransitionUndecodable error)))
         | Inr transition \<Rightarrow>
             if wt_project_id transition \<noteq> rs_project_id response
                \<or> wt_target_generation transition \<noteq> rs_generation response
                \<or> wt_table_schema transition \<noteq> type_facts_table_schema_v24
             then Some (Inl (InvalidResponse TransitionIdentity))
             else prepare_transition transition retained retained_state_token))"

section \<open>Preparing a table\<close>

text \<open>What a transition means beside the retained table.\<close>

definition transition_meaning :: "wire_table_transition \<Rightarrow> fact_table option \<Rightarrow> abstract_table option" where
  "transition_meaning t retained =
     (case wt_mode t of
        ModeFull \<Rightarrow> Some (spec_transition t (abstract_empty (wt_project_id t)))
      | ModeDelta \<Rightarrow> map_option (\<lambda>base. spec_transition t (ft_abs base)) retained)"

definition base_matches :: "wire_table_transition \<Rightarrow> fact_table option \<Rightarrow> str \<Rightarrow> bool" where
  "base_matches t retained token \<longleftrightarrow>
     (case wt_mode t of
        ModeFull \<Rightarrow> True
      | ModeDelta \<Rightarrow> \<exists>base. retained = Some base \<and> ft_schema base = wt_table_schema t
          \<and> ft_generation base = wt_base_generation t \<and> ft_project_id base = wt_project_id t
          \<and> token = wt_base_state_token t \<and> validate_delta base t = Inr ())"

abbreviation retained_inv :: "fact_table option \<Rightarrow> bool" where
  "retained_inv \<equiv> pred_option ft_inv"

lemma ft_abs_fields [simp]:
  "at_schema (ft_abs table) = ft_schema table" "at_generation (ft_abs table) = ft_generation table"
  "at_project_id (ft_abs table) = ft_project_id table"
  by (simp_all add: ft_abs_def)

lemma spec_transition_fields [simp]:
  "at_schema (spec_transition t a) = wt_table_schema t"
  "at_generation (spec_transition t a) = wt_target_generation t"
  "at_project_id (spec_transition t a) = at_project_id a"
  by (simp_all add: spec_transition_def)

lemma abstract_identity:
  assumes "ft_abs table = spec_transition t a"
  shows "ft_schema table = wt_table_schema t \<and> ft_generation table = wt_target_generation t
    \<and> ft_project_id table = at_project_id a"
  using arg_cong [OF assms, of at_schema] arg_cong [OF assms, of at_generation]
    arg_cong [OF assms, of at_project_id] by simp

lemma prepare_transition_total:
  assumes shape: "transition_shape t" and inv: "retained_inv retained"
  shows "\<exists>r. prepare_transition t retained token = Some r"
proof (cases "wt_mode t")
  case ModeFull
  with materialize_full_refines [OF shape] show ?thesis
    by (auto simp: prepare_transition_def materialize_full_transition_def Let_def)
next
  case ModeDelta
  show ?thesis
  proof (cases retained)
    case (Some base)
    then have "ft_inv base" using inv by simp
    with apply_delta_refines [OF _ shape ModeDelta, of base] Some ModeDelta show ?thesis
      by (auto simp: prepare_transition_def validate_table_transition_application_def split: sum.split)
  qed (simp add: prepare_transition_def ModeDelta)
qed

lemma prepare_transition_ok:
  assumes shape: "transition_shape t" and inv: "retained_inv retained"
    and ok: "prepare_transition t retained token = Some (Inr (table, changes, derived))"
  shows "ft_inv table \<and> Some (ft_abs table) = transition_meaning t retained \<and> base_matches t retained token
    \<and> derived = (wt_mode t = ModeDelta) \<and> ft_project_id table = wt_project_id t
    \<and> ft_schema table = wt_table_schema t \<and> ft_generation table = wt_target_generation t"
proof (cases "wt_mode t")
  case ModeFull
  with materialize_full_refines [OF shape ModeFull] ok show ?thesis
    using abstract_identity [of table t "abstract_empty (wt_project_id t)"]
    by (auto simp: prepare_transition_def materialize_full_transition_def Let_def transition_meaning_def
        base_matches_def abstract_empty_def)
next
  case ModeDelta
  then obtain base where base: "retained = Some base"
    using ok by (cases retained) (auto simp: prepare_transition_def)
  then have base_inv: "ft_inv base" using inv by simp
  have valid: "validate_delta base t = Inr ()" and applied: "apply_delta base t = Some table"
    and fields: "derived" "ft_schema base = wt_table_schema t" "ft_generation base = wt_base_generation t"
      "ft_project_id base = wt_project_id t" "token = wt_base_state_token t"
    using ok base ModeDelta
    by (auto simp: prepare_transition_def validate_table_transition_application_def split: if_splits sum.splits)
  have abs: "ft_inv table" "ft_abs table = spec_transition t (ft_abs base)" "ft_project_id table = ft_project_id base"
    using apply_delta_refines [OF base_inv shape ModeDelta valid] applied by auto
  show ?thesis
    using abs fields valid base ModeDelta abstract_identity [OF abs(2)]
    by (simp add: transition_meaning_def base_matches_def)
qed

lemma prepare_cases:
  assumes "prepare_analyze_response_mode response project generation retained token = Some (Inr (table, changes, derived))"
  shows "rs_table_transition response = [] \<and> retained = Some table \<and> derived
      \<and> changes = table_changes_default\<lparr>tc_unchanged := True\<rparr>
      \<and> ft_schema table = type_facts_table_schema_v24 \<and> ft_project_id table = project \<and> ft_generation table = generation
    \<or> (\<exists>t. decode_table_transition (rs_table_transition response) = Inr t
        \<and> wt_project_id t = project \<and> wt_target_generation t = generation
        \<and> wt_table_schema t = type_facts_table_schema_v24
        \<and> prepare_transition t retained token = Some (Inr (table, changes, derived)))"
  using assms
  by (auto simp: prepare_analyze_response_mode_def split: if_splits option.splits sum.splits)

section \<open>Which paths and symbols a delta moves\<close>

lemma spec_path_ops_at:
  assumes "successively (\<lambda>a b. po_path a < po_path b) ops"
  shows "at_entities (fold spec_path_op ops a) path = (case List.find (\<lambda>op. po_path op = path) ops of
        None \<Rightarrow> at_entities a path | Some op \<Rightarrow> slot_after (po_entities op) (at_entities a path))
    \<and> at_files (fold spec_path_op ops a) path = (case List.find (\<lambda>op. po_path op = path) ops of
        None \<Rightarrow> at_files a path | Some op \<Rightarrow> slot_after (po_file op) (at_files a path))"
proof -
  have "sorted_wrt (\<lambda>x y. po_path x < po_path y) ops"
    using assms by (subst (asm) successively_conv_sorted_wrt) (auto intro: transpI less_trans)
  then show ?thesis
  proof (induction ops arbitrary: a)
    case (Cons op ops)
    have "List.find (\<lambda>op. po_path op = path) ops = None" if "po_path op = path"
      using Cons.prems that by (force simp: find_None_iff)
    with Cons show ?case by (auto simp: spec_path_op_def Let_def split: option.split)
  qed simp
qed

lemma spec_symbol_ops_other:
  "ident \<notin> symbol_op_id ` set ops \<Longrightarrow> fold spec_symbol_op ops m ident = m ident"
  by (induction ops arbitrary: m) (auto simp: spec_symbol_op_other)

lemma ft_entities_abs:
  "ft_entities_for_path table path = (case at_entities (ft_abs table) path of None \<Rightarrow> [] | Some es \<Rightarrow> es)"
  by (simp add: ft_abs_def Let_def)

lemma ft_file_abs: "ft_file table = at_files (ft_abs table)"
  by (simp add: ft_abs_def)

lemma delta_paths:
  assumes shape: "transition_shape t" and abs: "ft_abs table = spec_transition t (ft_abs base)"
  shows "ft_entities_for_path table path = (case List.find (\<lambda>op. po_path op = path) (wt_paths t) of
      None \<Rightarrow> ft_entities_for_path base path
    | Some op \<Rightarrow> (case po_entities op of SlotUnchanged \<Rightarrow> ft_entities_for_path base path
        | SlotReplace es \<Rightarrow> es | SlotRemove \<Rightarrow> []))"
    and "ft_file table path = (case List.find (\<lambda>op. po_path op = path) (wt_paths t) of
      None \<Rightarrow> ft_file base path | Some op \<Rightarrow> slot_after (po_file op) (ft_file base path))"
    and "ft_symbol_fact table ident \<noteq> ft_symbol_fact base ident \<Longrightarrow> ident \<in> symbol_op_id ` set (wt_symbols t)"
proof -
  have ops: "successively (\<lambda>a b. po_path a < po_path b) (wt_paths t)" using shape by (simp add: transition_shape_def)
  note at = spec_path_ops_at [OF ops, of "ft_abs base" path]
  have "at_entities (ft_abs table) = at_entities (fold spec_path_op (wt_paths t) (ft_abs base))"
    "at_files (ft_abs table) = at_files (fold spec_path_op (wt_paths t) (ft_abs base))"
    "at_symbols (ft_abs table) = fold spec_symbol_op (wt_symbols t) (at_symbols (ft_abs base))"
    unfolding abs by (simp_all add: spec_transition_def)
  note fields = this
  show "ft_entities_for_path table path = (case List.find (\<lambda>op. po_path op = path) (wt_paths t) of
      None \<Rightarrow> ft_entities_for_path base path
    | Some op \<Rightarrow> (case po_entities op of SlotUnchanged \<Rightarrow> ft_entities_for_path base path
        | SlotReplace es \<Rightarrow> es | SlotRemove \<Rightarrow> []))"
    unfolding ft_entities_abs fields using at by (simp split: option.split slot_op.split)
  show "ft_file table path = (case List.find (\<lambda>op. po_path op = path) (wt_paths t) of
      None \<Rightarrow> ft_file base path | Some op \<Rightarrow> slot_after (po_file op) (ft_file base path))"
    unfolding ft_file_abs fields using at by simp
  show "ident \<in> symbol_op_id ` set (wt_symbols t)" if "ft_symbol_fact table ident \<noteq> ft_symbol_fact base ident"
  proof (rule ccontr)
    assume "ident \<notin> symbol_op_id ` set (wt_symbols t)"
    with fields(3) have "at_symbols (ft_abs table) ident = at_symbols (ft_abs base) ident"
      by (simp add: spec_symbol_ops_other)
    with that show False by (simp add: ft_abs_def)
  qed
qed

lemma remdups_adj_strict: "sorted xs \<Longrightarrow> sorted_wrt (<) (remdups_adj xs)" for xs :: "str list"
proof (induction xs rule: remdups_adj.induct)
  case (3 x y xs)
  have "x < z" if "x \<noteq> y" "z \<in> set (y # xs)" for z
    using 3(3) that by (auto simp: order.strict_iff_order dest: antisym)
  with 3 show ?case by (auto simp del: remdups_adj_Cons)
qed simp_all

lemma delta_op:
  assumes "successively (\<lambda>a b. po_path a < po_path b) ops" "op \<in> set ops"
  shows "List.find (\<lambda>o'. po_path o' = po_path op) ops = Some op"
proof -
  have "sorted_wrt (\<lambda>x y. po_path x < po_path y) ops"
    using assms(1) by (subst (asm) successively_conv_sorted_wrt) (auto intro: transpI less_trans)
  then show ?thesis using assms(2) by (induction ops) auto
qed

lemma ops_paths_sorted:
  assumes "successively (\<lambda>a b. po_path a < po_path b) ops"
  shows "sorted_wrt (<) (map po_path (filter P ops))"
proof -
  have "sorted_wrt (\<lambda>x y. po_path x < po_path y) ops"
    using assms by (subst (asm) successively_conv_sorted_wrt) (auto intro: transpI less_trans)
  then show ?thesis by (simp add: sorted_wrt_map sorted_wrt_filter)
qed

lemma changed_path_iff:
  assumes "successively (\<lambda>a b. po_path a < po_path b) ops"
  shows "path \<in> set (map po_path (filter P ops)) \<longleftrightarrow>
    (case List.find (\<lambda>op. po_path op = path) ops of None \<Rightarrow> False | Some op \<Rightarrow> P op)"
proof (cases "List.find (\<lambda>op. po_path op = path) ops")
  case None
  then have "\<forall>op\<in>set ops. po_path op \<noteq> path" by (auto simp: find_None_iff)
  with None show ?thesis by auto
next
  case (Some op)
  then have op: "op \<in> set ops" "po_path op = path" by (auto simp: find_Some_iff)
  have "\<forall>o'\<in>set ops. po_path o' = path \<longrightarrow> o' = op"
    using delta_op [OF assms] Some by fastforce
  then have "path \<in> po_path ` {o' \<in> set ops. P o'} \<longleftrightarrow> P op" using op by blast
  then show ?thesis by (simp add: Some)
qed

lemma delta_changes:
  assumes shape: "transition_shape t" and abs: "ft_abs table = spec_transition t (ft_abs base)"
    and changes: "changes = table_changes_against base t"
  shows "path \<in> set (tc_entity_paths changes) \<Longrightarrow>
      \<not> entities_eq (ft_entities_for_path base path) (ft_entities_for_path table path)"
    and "path \<notin> set (tc_entity_paths changes) \<Longrightarrow> ft_entities_for_path table path = ft_entities_for_path base path
      \<or> entities_eq (ft_entities_for_path base path) (ft_entities_for_path table path)"
    and "set (tc_file_paths changes) = {path. ft_file base path \<noteq> ft_file table path}"
    and "{ident. ft_symbol_fact base ident \<noteq> ft_symbol_fact table ident} \<subseteq> set (tc_symbol_ids changes)"
    and "sorted_wrt (<) (tc_entity_paths changes)" "sorted_wrt (<) (tc_file_paths changes)"
      "sorted_wrt (<) (tc_symbol_ids changes)"
proof -
  have ops: "successively (\<lambda>a b. po_path a < po_path b) (wt_paths t)"
    and syms: "successively (\<lambda>a b. symbol_op_key a < symbol_op_key b) (wt_symbols t)"
    using shape by (auto simp: transition_shape_def)
  have lists: "tc_entity_paths changes = map po_path (filter (entities_changed base) (wt_paths t))"
    "tc_file_paths changes = map po_path (filter (file_changed base) (wt_paths t))"
    "tc_symbol_ids changes = remdups_adj (map symbol_op_id (wt_symbols t))"
    by (simp_all add: changes table_changes_against_def Let_def)
  note moved = delta_paths [OF shape abs]
  have empty: "\<not> entities_eq (e # es) []" for e es by (simp add: entities_eq_def)
  have path: "po_path op = path" if "List.find (\<lambda>op. po_path op = path) (wt_paths t) = Some op" for op path
    using that by (auto simp: find_Some_iff)
  show "\<not> entities_eq (ft_entities_for_path base path) (ft_entities_for_path table path)"
    if "path \<in> set (tc_entity_paths changes)"
    using that unfolding lists changed_path_iff [OF ops] moved(1)
    by (auto simp: entities_changed_def entities_eq_def dest!: path split: option.splits slot_op.splits)
  show "ft_entities_for_path table path = ft_entities_for_path base path
      \<or> entities_eq (ft_entities_for_path base path) (ft_entities_for_path table path)"
    if "path \<notin> set (tc_entity_paths changes)"
    using that unfolding lists changed_path_iff [OF ops] moved(1)
    by (auto simp: entities_changed_def dest!: path split: option.splits slot_op.splits)
  show "set (tc_file_paths changes) = {path. ft_file base path \<noteq> ft_file table path}"
  proof (intro set_eqI iffI CollectI)
    fix path
    assume "path \<in> set (tc_file_paths changes)"
    then show "ft_file base path \<noteq> ft_file table path"
      unfolding lists changed_path_iff [OF ops] moved(2)
      by (auto simp: file_changed_def dest!: path split: option.splits slot_op.splits)
  next
    fix path
    assume "path \<in> {path. ft_file base path \<noteq> ft_file table path}"
    then show "path \<in> set (tc_file_paths changes)"
      unfolding lists changed_path_iff [OF ops] mem_Collect_eq moved(2)
      by (auto simp: file_changed_def dest!: path split: option.splits slot_op.splits)
  qed
  show "{ident. ft_symbol_fact base ident \<noteq> ft_symbol_fact table ident} \<subseteq> set (tc_symbol_ids changes)"
    unfolding lists using moved(3) by auto
  show "sorted_wrt (<) (tc_entity_paths changes)" "sorted_wrt (<) (tc_file_paths changes)"
    unfolding lists by (rule ops_paths_sorted [OF ops])+
  have "sorted (map symbol_op_id (wt_symbols t))" using ids_ordered [OF syms] by (simp add: sorted_map)
  then show "sorted_wrt (<) (tc_symbol_ids changes)"
    unfolding lists by (rule remdups_adj_strict)
qed

lemma frame_accepted:
  assumes plan: "plan_ok plan" "transition_frame plan = Inr bytes" "strings_ok (transition_strings plan)"
      "length bytes < 2 ^ 64" "wp_table_schema plan = type_facts_table_schema_v24"
    and response: "rs_schema response = type_facts_schema_v1" "rs_state_token response \<noteq> []"
      "rs_table_transition response = bytes" "rs_project_id response = wp_project_id plan"
      "rs_generation response = wp_target_generation plan"
    and retained: "retained_inv retained" "base_matches (wire_transition plan) retained token"
  shows "\<exists>table changes derived.
    prepare_analyze_response_mode response (wp_project_id plan) (wp_target_generation plan) retained token
      = Some (Inr (table, changes, derived))
    \<and> ft_inv table \<and> Some (ft_abs table) = transition_meaning (wire_transition plan) retained"
proof -
  let ?t = "wire_transition plan"
  have decoded: "decode_table_transition bytes = Inr ?t" using plan(1-4) by (rule decode_write)
  have "decode_table_transition [] \<noteq> Inr t" for t by code_simp
  then have ne: "bytes \<noteq> []" using decoded by metis
  have shape: "transition_shape ?t" using decoded by (rule decode_shape)
  obtain r where r: "prepare_transition ?t retained token = Some r"
    using prepare_transition_total [OF shape retained(1)] by blast
  have ok: "\<exists>x. r = Inr x"
  proof (cases "wt_mode ?t")
    case ModeFull
    with r show ?thesis by (auto simp: prepare_transition_def)
  next
    case ModeDelta
    then obtain base where "retained = Some base" "ft_schema base = wt_table_schema ?t"
      "ft_generation base = wt_base_generation ?t" "ft_project_id base = wt_project_id ?t"
      "token = wt_base_state_token ?t" "validate_delta base ?t = Inr ()"
      using retained(2) by (auto simp: base_matches_def)
    with r ModeDelta show ?thesis
      by (auto simp: prepare_transition_def validate_table_transition_application_def)
  qed
  then obtain table changes derived where r': "r = Inr (table, changes, derived)" by auto
  have "wt_project_id ?t = wp_project_id plan" "wt_target_generation ?t = wp_target_generation plan"
    "wt_table_schema ?t = wp_table_schema plan"
    by (simp_all add: wire_transition_def)
  then have "prepare_analyze_response_mode response (wp_project_id plan) (wp_target_generation plan) retained token
      = Some (Inr (table, changes, derived))"
    using response plan(5) ne decoded r r' by (simp add: prepare_analyze_response_mode_def)
  with prepare_transition_ok [OF shape retained(1), of token table changes derived] r r' show ?thesis by blast
qed

section \<open>A response to evaluate\<close>

definition ex_response :: response where
  "ex_response = \<lparr>rs_ok = True, rs_error = None, rs_schema = 1, rs_graph_kept = False, rs_project_id = ''p'',
     rs_request_id = 7, rs_generation = 2, rs_state_token = ''u'', rs_symbol_evidence = [],
     rs_table_transition = ex_frame, rs_strict_null_checks = Some True\<rparr>"

lemma ex_frame_decodes: "decode_table_transition ex_frame = Inr (wire_transition ex_plan)"
  by (rule decode_write [OF ex_plan_ok ex_frame_written ex_strings_ok ex_frame_length])

lemma ex_retained_inv: "retained_inv (Some ex_table)"
  by (simp add: ex_table_inv)

lemma ex_prepared_transition:
  "\<exists>table changes. prepare_transition (wire_transition ex_plan) (Some ex_table) ''t'' = Some (Inr (table, changes, True))
     \<and> tc_entity_paths changes = [] \<and> tc_symbol_ids changes = [''s'']"
proof -
  have "(case prepare_transition (wire_transition ex_plan) (Some ex_table) ''t'' of
      Some (Inr (table, changes, True)) \<Rightarrow> tc_entity_paths changes = [] \<and> tc_symbol_ids changes = [''s''] | _ \<Rightarrow> False)" by code_simp
  then show ?thesis by (auto split: option.splits sum.splits bool.splits)
qed

lemma ex_prepared:
  "\<exists>table changes. prepare_analyze_response_mode ex_response ''p'' 2 (Some ex_table) ''t'' = Some (Inr (table, changes, True))
     \<and> tc_entity_paths changes = [] \<and> tc_symbol_ids changes = [''s'']"
proof -
  have "rs_table_transition ex_response = ex_frame" "rs_schema ex_response = 1" "rs_project_id ex_response = ''p''"
    "rs_generation ex_response = 2" "rs_state_token ex_response = ''u''" "ex_frame \<noteq> []"
    by (simp_all add: ex_response_def ex_frame_def)
  moreover have "wt_project_id (wire_transition ex_plan) = ''p''" "wt_target_generation (wire_transition ex_plan) = 2"
    "wt_table_schema (wire_transition ex_plan) = type_facts_table_schema_v24" by code_simp+
  ultimately show ?thesis
    using ex_prepared_transition
    by (simp add: prepare_analyze_response_mode_def type_facts_schema_v1_def ex_frame_decodes)
qed

section \<open>Properties\<close>

text \<open>C17. Whatever bytes a response carries, and whatever table the session retains, preparing the next
  table ends without a panic; a table it returns satisfies every invariant and has exactly the schema,
  the project and the generation that were asked for.\<close>

theorem prepare_safe:
  assumes "retained_inv retained"
  shows "\<exists>r. prepare_analyze_response_mode response project generation retained token = Some r
    \<and> (\<forall>table changes derived. r = Inr (table, changes, derived) \<longrightarrow>
         ft_inv table \<and> ft_schema table = type_facts_table_schema_v24
         \<and> ft_project_id table = project \<and> ft_generation table = generation)"
proof -
  have total: "\<exists>r. prepare_transition t retained token = Some r"
    if "decode_table_transition (rs_table_transition response) = Inr t" for t
    using prepare_transition_total [OF decode_shape [OF that] assms] .
  have "\<exists>r. prepare_analyze_response_mode response project generation retained token = Some r"
    using total by (auto simp: prepare_analyze_response_mode_def split: option.split sum.split)
  moreover have "ft_inv table \<and> ft_schema table = type_facts_table_schema_v24
      \<and> ft_project_id table = project \<and> ft_generation table = generation"
    if ok: "prepare_analyze_response_mode response project generation retained token = Some (Inr (table, changes, derived))"
    for table changes derived
    using prepare_cases [OF ok]
  proof (elim disjE exE conjE)
    fix t
    assume t: "decode_table_transition (rs_table_transition response) = Inr t" "wt_project_id t = project"
      "wt_target_generation t = generation" "wt_table_schema t = type_facts_table_schema_v24"
      "prepare_transition t retained token = Some (Inr (table, changes, derived))"
    from prepare_transition_ok [OF decode_shape [OF t(1)] assms t(5)] t(2-4) show ?thesis by simp
  qed (use assms in auto)
  ultimately show ?thesis by auto
qed

theorem prepare_safe_witness:
  "\<exists>table changes. prepare_analyze_response_mode ex_response ''p'' 2 (Some ex_table) ''t'' = Some (Inr (table, changes, True))
     \<and> ft_inv table \<and> ft_generation table = 2"
proof -
  obtain table changes where
    ok: "prepare_analyze_response_mode ex_response ''p'' 2 (Some ex_table) ''t'' = Some (Inr (table, changes, True))"
    using ex_prepared by blast
  with prepare_safe [OF ex_retained_inv, of ex_response "''p''" 2 "''t''"] show ?thesis by auto
qed

text \<open>C18. The table prepared from a response means what the response says: with no transition it is the
  retained table, reported unchanged; with a full transition it is exactly that transition's rows;
  and a delta is accepted only on the base it names (schema, generation, project, state token) and
  only if the check passes, and then means its operations applied to that base.\<close>

theorem prepare_correct:
  assumes inv: "retained_inv retained"
    and ok: "prepare_analyze_response_mode response project generation retained token = Some (Inr (table, changes, derived))"
  shows "if rs_table_transition response = [] then retained = Some table \<and> derived \<and> tc_unchanged changes
    else \<exists>t. decode_table_transition (rs_table_transition response) = Inr t
      \<and> Some (ft_abs table) = transition_meaning t retained \<and> base_matches t retained token
      \<and> derived = (wt_mode t = ModeDelta)"
proof -
  have "decode_table_transition [] \<noteq> Inr t" for t by code_simp
  then show ?thesis
    using prepare_cases [OF ok] prepare_transition_ok [OF decode_shape inv] by auto
qed

theorem prepare_correct_witness:
  "\<exists>table changes. prepare_analyze_response_mode ex_response ''p'' 2 (Some ex_table) ''t'' = Some (Inr (table, changes, True))
     \<and> ft_abs table = spec_transition (wire_transition ex_plan) (ft_abs ex_table)"
proof -
  obtain table changes where
    ok: "prepare_analyze_response_mode ex_response ''p'' 2 (Some ex_table) ''t'' = Some (Inr (table, changes, True))"
    using ex_prepared by blast
  have frame: "rs_table_transition ex_response = ex_frame" "ex_frame \<noteq> []" "wt_mode (wire_transition ex_plan) = ModeDelta"
    by (simp_all add: ex_response_def ex_frame_def wire_transition_def ex_plan_def)
  with prepare_correct [OF ex_retained_inv ok] ok show ?thesis
    by (auto simp: ex_frame_decodes transition_meaning_def)
qed

text \<open>C19. The change lists of a delta are right: a path is named among the entity paths exactly when its run
  changed (equality of runs is the derived one, under which the two zeros are equal and a
  not-a-number differs from itself), among the file paths exactly when its file row changed, every
  symbol whose row changed is named, and each list is in order without repetition.\<close>

theorem prepare_changes:
  assumes inv: "ft_inv base"
    and ok: "prepare_analyze_response_mode response project generation (Some base) token = Some (Inr (table, changes, True))"
  shows "(\<forall>path. path \<in> set (tc_entity_paths changes) \<longrightarrow>
        \<not> entities_eq (ft_entities_for_path base path) (ft_entities_for_path table path))
    \<and> (\<forall>path. path \<notin> set (tc_entity_paths changes) \<longrightarrow>
        ft_entities_for_path table path = ft_entities_for_path base path
        \<or> entities_eq (ft_entities_for_path base path) (ft_entities_for_path table path))
    \<and> set (tc_file_paths changes) = {path. ft_file base path \<noteq> ft_file table path}
    \<and> {ident. ft_symbol_fact base ident \<noteq> ft_symbol_fact table ident} \<subseteq> set (tc_symbol_ids changes)
    \<and> sorted_wrt (<) (tc_entity_paths changes) \<and> sorted_wrt (<) (tc_file_paths changes)
    \<and> sorted_wrt (<) (tc_symbol_ids changes)"
  using prepare_cases [OF ok]
proof (elim disjE exE conjE)
  fix t
  assume t: "decode_table_transition (rs_table_transition response) = Inr t"
    "prepare_transition t (Some base) token = Some (Inr (table, changes, True))"
  have shape: "transition_shape t" using t(1) by (rule decode_shape)
  from prepare_transition_ok [OF shape _ t(2)] inv
  have abs: "Some (ft_abs table) = transition_meaning t (Some base)" and mode: "wt_mode t = ModeDelta" by auto
  have "ft_abs table = spec_transition t (ft_abs base)" using abs mode by (simp add: transition_meaning_def)
  moreover have "changes = table_changes_against base t"
    using t(2) mode by (auto simp: prepare_transition_def split: if_splits sum.splits)
  ultimately show ?thesis
    using delta_changes [OF shape, of table base changes] by blast
qed (simp add: table_changes_default_def)

theorem prepare_changes_witness:
  "\<exists>table changes. prepare_analyze_response_mode ex_response ''p'' 2 (Some ex_table) ''t'' = Some (Inr (table, changes, True))
     \<and> tc_symbol_ids changes = [''s'']
     \<and> {ident. ft_symbol_fact ex_table ident \<noteq> ft_symbol_fact table ident} \<subseteq> {''s''}"
proof -
  obtain table changes where
    ok: "prepare_analyze_response_mode ex_response ''p'' 2 (Some ex_table) ''t'' = Some (Inr (table, changes, True))"
    and ids: "tc_symbol_ids changes = [''s'']"
    using ex_prepared by blast
  have "{ident. ft_symbol_fact ex_table ident \<noteq> ft_symbol_fact table ident} \<subseteq> set (tc_symbol_ids changes)"
    using prepare_changes [OF ex_table_inv ok] by blast
  with ok ids show ?thesis by auto
qed



end
