(* ===== verification/TF_Demands.thy ===== *)
theory TF_Demands
  imports TF_Writer
begin

unbundle bit_operations_syntax

text \<open>
  Demands, the request direction: the compact snapshot that the client packs (\<^verbatim>\<open>compact_demands\<close> of
  \<^verbatim>\<open>v3.rs\<close>) and the producer expands (\<^verbatim>\<open>producer/compact.rs\<close>), and the grouping of a flat demand list
  by path (\<^verbatim>\<open>group_demands\<close> of \<^verbatim>\<open>session.rs\<close>).
\<close>

section \<open>Demands\<close>

record entity_demand =
  ed_async :: bool
  ed_symbol :: bool
  ed_location :: location
  ed_references :: bool
  ed_resolved_call :: bool
  ed_query_location :: "location option"
  ed_type_descriptor :: bool
  ed_structural_accessor :: bool
  ed_callability :: bool
  ed_constructability :: bool
  ed_runtime_value_domain :: bool
  ed_primitive_value_domain :: bool
  ed_primitive_literal_candidates :: bool
  ed_parameter_object_shape :: bool
  ed_call_result_domain :: bool
  ed_constant_value :: bool
  ed_array_shape :: bool
  ed_tuple_shape :: bool
  ed_library_types :: bool
  ed_reference_space :: bool
  ed_runtime_identity :: bool
  ed_declared_keys :: bool
  ed_writable_optional_property :: bool

text \<open>\<^verbatim>\<open>CompactDemandGroup\<close>: a path index and the packed rows.\<close>

type_synonym compact_demand_group = "u64 \<times> u8 list"

record compact_demands_row =
  cd_groups :: "compact_demand_group list"
  cd_strings :: "str list"

section \<open>Packing\<close>

text \<open>The bits \<^verbatim>\<open>DEMAND_FLAG_*\<close>.\<close>

definition demand_flags :: "entity_demand \<Rightarrow> u64" where
  "demand_flags demand =
     flag (ed_symbol demand) 0 OR flag (ed_references demand) 1 OR flag (ed_type_descriptor demand) 2
     OR flag (ed_resolved_call demand) 3 OR flag (ed_async demand) 4
     OR flag (ed_structural_accessor demand) 5 OR flag (ed_callability demand) 6
     OR flag (ed_reference_space demand) 7 OR flag (ed_runtime_identity demand) 8
     OR flag (ed_runtime_value_domain demand) 9 OR flag (ed_call_result_domain demand) 10
     OR flag (ed_constant_value demand) 11 OR flag (ed_array_shape demand) 12
     OR flag (ed_tuple_shape demand) 13 OR flag (ed_library_types demand) 14
     OR flag (ed_primitive_value_domain demand) 15 OR flag (ed_primitive_literal_candidates demand) 17
     OR flag (ed_parameter_object_shape demand) 18 OR flag (ed_constructability demand) 16
     OR flag (ed_declared_keys demand) 19 OR flag (ed_writable_optional_property demand) 20"

definition demand_header :: "entity_demand \<Rightarrow> u64" where
  "demand_header demand = push_bit 1 (demand_flags demand) OR of_bool (ed_query_location demand \<noteq> None)"

text \<open>The client's interning table; it behaves as the producer's dictionary does.\<close>

definition string_table_new :: dictionary where
  "string_table_new = \<lparr>dict_indexes = [[] \<mapsto> 0], dict_values = [[]]\<rparr>"

definition string_table_intern :: "str \<Rightarrow> dictionary \<Rightarrow> u64 \<times> dictionary" where
  "string_table_intern value table =
     (case dict_indexes table value of
        Some index \<Rightarrow> (index, table)
      | None \<Rightarrow>
          let index = of_nat (length (dict_values table)) in
          (index, \<lparr>dict_indexes = (dict_indexes table)(value \<mapsto> index),
                   dict_values = dict_values table @ [value]\<rparr>))"

text \<open>What one round of the loop of \<^verbatim>\<open>compact_demands\<close> appends to the open group.\<close>

definition push_demand :: "entity_demand \<Rightarrow> u64 \<Rightarrow> u8 list \<Rightarrow> dictionary \<Rightarrow> u8 list \<times> dictionary" where
  "push_demand demand previous_start out strings =
     (let location = ed_location demand;
          out = push_uvarint out (demand_header demand);
          out = push_uvarint out (saturating_sub (loc_start_byte location) previous_start);
          out = push_uvarint out (saturating_sub (loc_end_byte location) (loc_start_byte location))
      in case ed_query_location demand of
           None \<Rightarrow> (out, strings)
         | Some query \<Rightarrow>
             let (index, strings) = string_table_intern (loc_path query) strings;
                 out = push_uvarint out index;
                 out = push_uvarint out (loc_start_byte query);
                 out = push_uvarint out (saturating_sub (loc_end_byte query) (loc_start_byte query))
             in (out, strings))"

type_synonym compact_state = "dictionary \<times> compact_demand_group list \<times> u64"

definition compact_step :: "entity_demand \<Rightarrow> compact_state \<Rightarrow> compact_state" where
  "compact_step demand = (\<lambda>(strings, groups, previous_start).
     let start = loc_start_byte (ed_location demand);
         (path, strings) = string_table_intern (loc_path (ed_location demand)) strings;
         (groups, previous_start) =
           (if groups = [] \<or> fst (last groups) \<noteq> path \<or> start < previous_start
            then (groups @ [(path, [])], 0) else (groups, previous_start));
         (out, strings) = push_demand demand previous_start (snd (last groups)) strings
     in (strings, butlast groups @ [(fst (last groups), out)], start))"

definition compact_demands :: "entity_demand list \<Rightarrow> compact_demands_row" where
  "compact_demands demands =
     (let (strings, groups, _) = fold compact_step demands (string_table_new, [], 0)
      in \<lparr>cd_groups = groups, cd_strings = dict_values strings\<rparr>)"

section \<open>Expanding\<close>

datatype demand_error =
    OverflowingVarint
  | TruncatedVarint
  | StringIndexOutOfRange u64 nat
  | DemandLocationOverflow
  | QueryLocationOverflow

text \<open>The loop of \<^verbatim>\<open>take_uvarint\<close>, over the whole input's length \<^verbatim>\<open>n\<close>.\<close>

fun take_uvarint_loop :: "nat \<Rightarrow> nat \<Rightarrow> u64 \<Rightarrow> u8 list \<Rightarrow> demand_error + u64 \<times> u8 list" where
  "take_uvarint_loop n index value [] = Inl (if 10 \<le> n then OverflowingVarint else TruncatedVarint)"
| "take_uvarint_loop n index value (byte # rest) =
     (if index = 10 then Inl (if 10 \<le> n then OverflowingVarint else TruncatedVarint)
      else if index = 9 \<and> 1 < byte then Inl OverflowingVarint
      else
        let value = value OR push_bit (7 * index) (ucast (byte AND 0x7F))
        in if byte AND 0x80 = 0 then Inr (value, rest)
           else take_uvarint_loop n (index + 1) value rest)"

definition take_uvarint :: "u8 list \<Rightarrow> demand_error + u64 \<times> u8 list" where
  "take_uvarint input = take_uvarint_loop (length input) 0 0 input"

definition demand_lookup :: "str list \<Rightarrow> u64 \<Rightarrow> demand_error + str" where
  "demand_lookup strings index =
     ok_or (StringIndexOutOfRange index (length strings)) (get_at strings (unat index))"

text \<open>One row as \<^verbatim>\<open>visit_group\<close> reads it: the flags word, the location and the query.\<close>

record packed_row =
  pr_flags :: u64
  pr_start :: u64
  pr_len :: u64
  pr_query :: "(u64 \<times> u64 \<times> u64) option"

definition take_row :: "u64 \<Rightarrow> u8 list \<Rightarrow> demand_error + packed_row \<times> u8 list" where
  "take_row previous_start packed =
     rbind (take_uvarint packed) (\<lambda>(header, rest).
     rbind (take_uvarint rest) (\<lambda>(start_delta, rest).
     rbind (take_uvarint rest) (\<lambda>(len, rest).
     rbind (ok_or DemandLocationOverflow (checked_add previous_start start_delta)) (\<lambda>start.
     rbind (ok_or DemandLocationOverflow (checked_add start len)) (\<lambda>_.
     if header AND 1 \<noteq> 0 then
       rbind (take_uvarint rest) (\<lambda>(query_path, rest).
       rbind (take_uvarint rest) (\<lambda>(query_start, rest).
       rbind (take_uvarint rest) (\<lambda>(query_length, rest).
       rbind (ok_or QueryLocationOverflow (checked_add query_start query_length)) (\<lambda>_.
       Inr (\<lparr>pr_flags = drop_bit 1 header, pr_start = start, pr_len = len,
              pr_query = Some (query_path, query_start, query_length)\<rparr>, rest)))))
     else Inr (\<lparr>pr_flags = drop_bit 1 header, pr_start = start, pr_len = len, pr_query = None\<rparr>, rest))))))"

lemma take_uvarint_loop_shrinks:
  "take_uvarint_loop n index acc input = Inr (v, rest) \<Longrightarrow> length rest < length input"
  by (induction n index acc input rule: take_uvarint_loop.induct) (auto simp: Let_def split: if_splits)

lemma take_uvarint_shrinks: "take_uvarint input = Inr (v, rest) \<Longrightarrow> length rest < length input"
  unfolding take_uvarint_def by (rule take_uvarint_loop_shrinks)

lemma take_row_shrinks: "take_row previous packed = Inr (row, rest) \<Longrightarrow> length rest < length packed"
  unfolding take_row_def rbind_Inr_iff
  by (auto simp: rbind_Inr_iff dest!: take_uvarint_shrinks split: if_splits)

text \<open>The loop of \<^verbatim>\<open>visit_group\<close>; \<^verbatim>\<open>visit\<close> updates what the closure captured, or fails.\<close>

function visit_rows ::
    "(u64 \<Rightarrow> u64 \<Rightarrow> u64 \<Rightarrow> (u64 \<times> u64 \<times> u64) option \<Rightarrow> 's \<Rightarrow> demand_error + 's)
     \<Rightarrow> u64 \<Rightarrow> u8 list \<Rightarrow> 's \<Rightarrow> demand_error + 's" where
  "visit_rows visit previous_start packed s =
     (if packed = [] then Inr s
      else
        rbind (take_row previous_start packed) (\<lambda>(row, rest).
        rbind (visit (pr_flags row) (pr_start row) (pr_len row) (pr_query row) s) (\<lambda>s.
        visit_rows visit (pr_start row) rest s)))"
  by pat_completeness auto
termination
  by (relation "measure (\<lambda>(_, _, packed, _). length packed)") (auto dest: take_row_shrinks)

declare visit_rows.simps [simp del]

definition visit_group ::
    "compact_demand_group \<Rightarrow> str list
     \<Rightarrow> (u64 \<Rightarrow> u64 \<Rightarrow> u64 \<Rightarrow> (u64 \<times> u64 \<times> u64) option \<Rightarrow> 's \<Rightarrow> demand_error + 's) \<Rightarrow> 's \<Rightarrow> demand_error + 's" where
  "visit_group group_row strings visit s =
     rbind (demand_lookup strings (fst group_row)) (\<lambda>_. visit_rows visit 0 (snd group_row) s)"

definition plain_demand :: "location \<Rightarrow> u64 \<Rightarrow> entity_demand" where
  "plain_demand location flags =
     \<lparr>ed_async = has_flag flags 4, ed_symbol = has_flag flags 0, ed_location = location,
      ed_references = has_flag flags 1, ed_resolved_call = has_flag flags 3, ed_query_location = None,
      ed_type_descriptor = has_flag flags 2, ed_structural_accessor = has_flag flags 5,
      ed_callability = has_flag flags 6, ed_constructability = has_flag flags 16,
      ed_runtime_value_domain = has_flag flags 9, ed_primitive_value_domain = has_flag flags 15,
      ed_primitive_literal_candidates = has_flag flags 17, ed_parameter_object_shape = has_flag flags 18,
      ed_call_result_domain = has_flag flags 10, ed_constant_value = has_flag flags 11,
      ed_array_shape = has_flag flags 12, ed_tuple_shape = has_flag flags 13,
      ed_library_types = has_flag flags 14, ed_reference_space = has_flag flags 7,
      ed_runtime_identity = has_flag flags 8, ed_declared_keys = has_flag flags 19,
      ed_writable_optional_property = has_flag flags 20\<rparr>"

definition row_to_demand ::
    "str \<Rightarrow> str list \<Rightarrow> u64 \<Rightarrow> u64 \<Rightarrow> u64 \<Rightarrow> (u64 \<times> u64 \<times> u64) option \<Rightarrow> demand_error + entity_demand" where
  "row_to_demand path strings flags start len query =
     (let demand = plain_demand \<lparr>loc_path = path, loc_end_byte = start + len, loc_start_byte = start\<rparr> flags
      in case query of
           None \<Rightarrow> Inr demand
         | Some (query_path, query_start, query_length) \<Rightarrow>
             rbind (demand_lookup strings query_path) (\<lambda>path.
             Inr (demand\<lparr>ed_query_location := Some \<lparr>loc_path = path, loc_end_byte = query_start + query_length,
                    loc_start_byte = query_start\<rparr>\<rparr>)))"

definition push_row ::
    "str \<Rightarrow> str list \<Rightarrow> u64 \<Rightarrow> u64 \<Rightarrow> u64 \<Rightarrow> (u64 \<times> u64 \<times> u64) option \<Rightarrow> entity_demand list
     \<Rightarrow> demand_error + entity_demand list" where
  "push_row path strings flags start len query demands =
     rbind (row_to_demand path strings flags start len query) (\<lambda>demand. Inr (demands @ [demand]))"

text \<open>The shape check: how many rows and query locations the groups hold.\<close>

definition skip_uvarints :: "nat \<Rightarrow> u8 list \<Rightarrow> demand_error + u8 list" where
  "skip_uvarints n packed =
     ((\<lambda>r. rbind r (\<lambda>rest. rbind (take_uvarint rest) (\<lambda>(_, rest). Inr rest))) ^^ n) (Inr packed)"

lemma skip_uvarints_shrinks: "skip_uvarints n packed = Inr rest \<Longrightarrow> length rest \<le> length packed"
  unfolding skip_uvarints_def
  by (induction n arbitrary: rest) (fastforce simp: rbind_Inr_iff dest!: take_uvarint_shrinks)+

function shape_rows :: "u8 list \<Rightarrow> nat \<times> nat \<Rightarrow> demand_error + nat \<times> nat" where
  "shape_rows packed counts =
     (if packed = [] then Inr counts
      else
        rbind (take_uvarint packed) (\<lambda>(header, rest).
        rbind (skip_uvarints 2 rest) (\<lambda>rest.
        if header AND 1 \<noteq> 0
        then rbind (skip_uvarints 3 rest) (\<lambda>rest. shape_rows rest (fst counts + 1, snd counts + 1))
        else shape_rows rest (fst counts + 1, snd counts))))"
  by pat_completeness auto
termination
  by (relation "measure (\<lambda>(packed, _). length packed)")
    (auto dest!: take_uvarint_shrinks skip_uvarints_shrinks)

declare shape_rows.simps [simp del]

fun compact_demand_shape_from :: "compact_demand_group list \<Rightarrow> nat \<times> nat \<Rightarrow> demand_error + nat \<times> nat" where
  "compact_demand_shape_from [] counts = Inr counts"
| "compact_demand_shape_from (group_row # groups) counts =
     rbind (shape_rows (snd group_row) counts) (compact_demand_shape_from groups)"

definition compact_demand_shape :: "compact_demand_group list \<Rightarrow> demand_error + nat \<times> nat" where
  "compact_demand_shape groups = compact_demand_shape_from groups (0, 0)"

definition expand_compact_group :: "compact_demand_group \<Rightarrow> str list \<Rightarrow> demand_error + entity_demand list" where
  "expand_compact_group group_row strings =
     rbind (compact_demand_shape [group_row]) (\<lambda>_.
     rbind (demand_lookup strings (fst group_row)) (\<lambda>path.
     visit_group group_row strings (push_row path strings) []))"

definition append_compact_demands_with_flag ::
    "entity_demand list \<Rightarrow> compact_demand_group \<Rightarrow> str list \<Rightarrow> u64 \<Rightarrow> demand_error + entity_demand list" where
  "append_compact_demands_with_flag target group_row strings required_flag =
     rbind (demand_lookup strings (fst group_row)) (\<lambda>path.
     visit_group group_row strings (\<lambda>flags start len query target.
       if flags AND required_flag \<noteq> 0 then push_row path strings flags start len query target
       else Inr target) target)"

fun expand_groups :: "str list \<Rightarrow> compact_demand_group list \<Rightarrow> entity_demand list \<Rightarrow> demand_error + entity_demand list" where
  "expand_groups strings [] demands = Inr demands"
| "expand_groups strings (group_row # groups) demands =
     rbind (demand_lookup strings (fst group_row)) (\<lambda>path.
     rbind (visit_group group_row strings (push_row path strings) demands) (expand_groups strings groups))"

definition expand_compact_demands :: "compact_demands_row \<Rightarrow> demand_error + entity_demand list" where
  "expand_compact_demands compact =
     rbind (compact_demand_shape (cd_groups compact)) (\<lambda>_.
     expand_groups (cd_strings compact) (cd_groups compact) [])"

section \<open>Reading what was packed\<close>

lemma take_uvarint_loop_uvarint:
  assumes "k \<le> 9" "unat v * 2 ^ (7 * k) < 2 ^ 64"
  shows "take_uvarint_loop n k a (uvarint v @ rest) = Inr (a OR push_bit (7 * k) v, rest)"
  using assms
proof (induction v arbitrary: k a rule: measure_induct_rule [where f = unat])
  case (less v)
  show ?case
  proof (cases "0x80 \<le> v")
    case True
    then have big: "128 \<le> unat v" by (simp add: word_ge_128_iff)
    have div: "unat (drop_bit 7 v) = unat v div 2 ^ 7" by (simp add: drop_bit_eq_div unat_div)
    have k8: "k \<noteq> 9" using big less.prems(2) by auto
    have "unat v div 2 ^ 7 * 2 ^ 7 * 2 ^ (7 * k) \<le> unat v * 2 ^ (7 * k)" by (rule mult_le_mono1) simp
    moreover have "unat (drop_bit 7 v) * 2 ^ (7 * Suc k) = unat v div 2 ^ 7 * 2 ^ 7 * 2 ^ (7 * k)"
      by (simp add: div power_add)
    ultimately have "unat (drop_bit 7 v) * 2 ^ (7 * Suc k) < 2 ^ 64" using less.prems(2) by linarith
    then have "take_uvarint_loop n (Suc k) (a OR push_bit (7 * k) (v AND 0x7F)) (uvarint (drop_bit 7 v) @ rest)
        = Inr ((a OR push_bit (7 * k) (v AND 0x7F)) OR push_bit (7 * Suc k) (drop_bit 7 v), rest)"
      using less.IH [of "drop_bit 7 v" "Suc k"] div big k8 less.prems(1) by simp
    moreover have "(a OR push_bit (7 * k) (v AND 0x7F)) OR push_bit (7 * Suc k) (drop_bit 7 v)
      = a OR push_bit (7 * k) v"
      using accumulate_low7 [of "7 * k" v] by (simp add: or.assoc add.commute)
    moreover have "uvarint v = (ucast v OR 0x80) # uvarint (drop_bit 7 v)"
      using True by (subst uvarint_rec) simp
    ultimately show ?thesis using less.prems(1) k8 by (simp add: high_bit_set ucast_low7)
  next
    case False
    then have uv: "uvarint v = [ucast v]" by (subst uvarint_rec) simp
    have "k = 9 \<Longrightarrow> unat v < 2" using less.prems(2) by auto
    moreover have "unat (ucast v :: u8) = unat v"
      using False by (simp add: word_ge_128_iff unsigned_ucast_eq take_bit_nat_eq_self)
    ultimately have "k = 9 \<Longrightarrow> (ucast v :: u8) \<le> 1" by (simp add: word_le_nat_alt)
    then show ?thesis
      using less.prems(1) by (auto simp: uv small_byte [OF False] Let_def not_less)
  qed
qed

lemma take_uvarint_uvarint [simp]: "take_uvarint (uvarint v @ rest) = Inr (v, rest)"
  using take_uvarint_loop_uvarint [of 0 v _ 0 rest] unsigned_less [of v] by (simp add: take_uvarint_def)

lemma demand_flag_bits:
  "has_flag (demand_flags d) 0 = ed_symbol d" "has_flag (demand_flags d) 1 = ed_references d"
  "has_flag (demand_flags d) 2 = ed_type_descriptor d" "has_flag (demand_flags d) 3 = ed_resolved_call d"
  "has_flag (demand_flags d) 4 = ed_async d" "has_flag (demand_flags d) 5 = ed_structural_accessor d"
  "has_flag (demand_flags d) 6 = ed_callability d" "has_flag (demand_flags d) 7 = ed_reference_space d"
  "has_flag (demand_flags d) 8 = ed_runtime_identity d" "has_flag (demand_flags d) 9 = ed_runtime_value_domain d"
  "has_flag (demand_flags d) 10 = ed_call_result_domain d" "has_flag (demand_flags d) 11 = ed_constant_value d"
  "has_flag (demand_flags d) 12 = ed_array_shape d" "has_flag (demand_flags d) 13 = ed_tuple_shape d"
  "has_flag (demand_flags d) 14 = ed_library_types d" "has_flag (demand_flags d) 15 = ed_primitive_value_domain d"
  "has_flag (demand_flags d) 16 = ed_constructability d" "has_flag (demand_flags d) 17 = ed_primitive_literal_candidates d"
  "has_flag (demand_flags d) 18 = ed_parameter_object_shape d" "has_flag (demand_flags d) 19 = ed_declared_keys d"
  "has_flag (demand_flags d) 20 = ed_writable_optional_property d"
  by (simp_all add: demand_flags_def bit_or_iff)

lemma demand_flags_width: "bit (demand_flags d) n \<Longrightarrow> n < 21"
  by (auto simp: demand_flags_def bit_or_iff)

lemma bit_demand_header:
  "bit (demand_header d) n \<longleftrightarrow> (if n = 0 then ed_query_location d \<noteq> None else n < 64 \<and> bit (demand_flags d) (n - 1))"
  unfolding demand_header_def bit_or_iff bit_push_bit_iff by (cases n) (auto simp: bit_of_bool_iff bit_simps)

lemma demand_header_read:
  "drop_bit 1 (demand_header d) = demand_flags d"
  "demand_header d AND 1 \<noteq> 0 \<longleftrightarrow> ed_query_location d \<noteq> None"
proof -
  show "drop_bit 1 (demand_header d) = demand_flags d"
  proof (rule bit_word_eqI)
    fix n
    show "bit (drop_bit 1 (demand_header d)) n = bit (demand_flags d) n"
      using demand_flags_width [of d n] by (auto simp: bit_drop_bit_eq bit_demand_header)
  qed
  have "demand_header d AND 1 \<noteq> 0 \<longleftrightarrow> bit (demand_header d) 0"
    using and_exp_cases [of "demand_header d" 0] by auto
  then show "demand_header d AND 1 \<noteq> 0 \<longleftrightarrow> ed_query_location d \<noteq> None" unfolding bit_demand_header by simp
qed

lemma plain_demand_flags: "plain_demand (ed_location d) (demand_flags d) = d\<lparr>ed_query_location := None\<rparr>"
  unfolding plain_demand_def demand_flag_bits by (cases d) simp

text \<open>A demand whose spans do not end before they start.\<close>

definition span_ok :: "location \<Rightarrow> bool" where
  "span_ok location \<longleftrightarrow> loc_start_byte location \<le> loc_end_byte location"

definition demand_ok :: "entity_demand \<Rightarrow> bool" where
  "demand_ok d \<longleftrightarrow> span_ok (ed_location d) \<and> pred_option span_ok (ed_query_location d)"

text \<open>The bytes of a row, under a string list in which \<^verbatim>\<open>query\<close> is the index of the query path.\<close>

definition row_bytes :: "u64 \<Rightarrow> entity_demand \<Rightarrow> nat \<Rightarrow> u8 list" where
  "row_bytes previous d query =
     uvarint (demand_header d)
     @ uvarint (saturating_sub (loc_start_byte (ed_location d)) previous)
     @ uvarint (saturating_sub (loc_end_byte (ed_location d)) (loc_start_byte (ed_location d)))
     @ (case ed_query_location d of
          None \<Rightarrow> []
        | Some q \<Rightarrow> uvarint (of_nat query) @ uvarint (loc_start_byte q)
            @ uvarint (saturating_sub (loc_end_byte q) (loc_start_byte q)))"

definition query_index :: "str list \<Rightarrow> entity_demand \<Rightarrow> nat \<Rightarrow> bool" where
  "query_index strings d k \<longleftrightarrow>
     (case ed_query_location d of None \<Rightarrow> True | Some q \<Rightarrow> get_at strings k = Some (loc_path q))"

definition row_query :: "entity_demand \<Rightarrow> nat \<Rightarrow> (u64 \<times> u64 \<times> u64) option" where
  "row_query d k = map_option (\<lambda>q. (of_nat k, loc_start_byte q, loc_end_byte q - loc_start_byte q)) (ed_query_location d)"

lemma take_row_bytes:
  assumes "demand_ok d" "previous \<le> loc_start_byte (ed_location d)"
  shows "take_row previous (row_bytes previous d k @ rest) = Inr (\<lparr>pr_flags = demand_flags d,
    pr_start = loc_start_byte (ed_location d), pr_len = loc_end_byte (ed_location d) - loc_start_byte (ed_location d),
    pr_query = row_query d k\<rparr>, rest)"
  using assms
  by (cases "ed_query_location d")
    (simp_all add: take_row_def row_bytes_def demand_header_read demand_header_read(1) [unfolded One_nat_def] row_query_def demand_ok_def span_ok_def saturating_sub_def)

lemma row_to_demand_row:
  assumes "demand_ok d" "query_index strings d k" "length strings < 2 ^ 64"
  shows "row_to_demand (loc_path (ed_location d)) strings (demand_flags d) (loc_start_byte (ed_location d))
    (loc_end_byte (ed_location d) - loc_start_byte (ed_location d)) (row_query d k) = Inr d"
proof -
  have loc: "\<lparr>loc_path = loc_path l, loc_end_byte = loc_end_byte l, loc_start_byte = loc_start_byte l\<rparr> = l" for l
    by (cases l) simp
  show ?thesis
  proof (cases "ed_query_location d")
    case None
    then show ?thesis by (simp add: row_to_demand_def row_query_def plain_demand_flags loc Let_def)
  next
    case (Some q)
    with assms(2) have "get_at strings k = Some (loc_path q)" by (simp add: query_index_def)
    moreover then have "unat (of_nat k :: u64) = k" using assms(3) by (simp add: unat_of_nat_small get_at_Some_iff)
    ultimately show ?thesis
      using Some by (simp add: row_to_demand_def row_query_def plain_demand_flags demand_lookup_def loc Let_def)
  qed
qed

abbreviation demand_start :: "entity_demand \<Rightarrow> u64" where
  "demand_start d \<equiv> loc_start_byte (ed_location d)"

abbreviation demand_path :: "entity_demand \<Rightarrow> str" where
  "demand_path d \<equiv> loc_path (ed_location d)"

fun rows_packed :: "str list \<Rightarrow> u64 \<Rightarrow> entity_demand list \<Rightarrow> u8 list \<Rightarrow> bool" where
  "rows_packed strings previous [] bytes \<longleftrightarrow> bytes = []"
| "rows_packed strings previous (d # ds) bytes \<longleftrightarrow>
     (\<exists>k rest. demand_ok d \<and> previous \<le> demand_start d \<and> query_index strings d k
        \<and> bytes = row_bytes previous d k @ rest \<and> rows_packed strings (demand_start d) ds rest)"

lemma row_bytes_not_Nil [simp]: "row_bytes previous d k \<noteq> []"
  by (simp add: row_bytes_def)

lemma rows_packed_snoc:
  assumes "rows_packed strings previous ds bytes" "demand_ok d" "query_index strings d k"
    and "(if ds = [] then previous else demand_start (last ds)) \<le> demand_start d"
  shows "rows_packed strings previous (ds @ [d])
    (bytes @ row_bytes (if ds = [] then previous else demand_start (last ds)) d k)"
  using assms
proof (induction ds arbitrary: previous bytes)
  case (Cons e ds)
  then obtain j rest where e: "demand_ok e" "previous \<le> demand_start e" "query_index strings e j"
    "bytes = row_bytes previous e j @ rest" "rows_packed strings (demand_start e) ds rest" by auto
  have "rows_packed strings (demand_start e) (ds @ [d])
      (rest @ row_bytes (if ds = [] then demand_start e else demand_start (last ds)) d k)"
    using Cons.IH [OF e(5) Cons.prems(2,3)] Cons.prems(4) by (simp split: if_splits)
  moreover have "(if ds = [] then demand_start e else demand_start (last ds)) = demand_start (last (e # ds))" by simp
  ultimately show ?case using e by auto
qed auto

lemma query_index_mono: "query_index strings d k \<Longrightarrow> prefix strings strings' \<Longrightarrow> query_index strings' d k"
  by (auto simp: query_index_def get_at_Some_iff prefix_def nth_append split: option.splits)

lemma rows_packed_mono: "rows_packed strings previous ds bytes \<Longrightarrow> prefix strings strings' \<Longrightarrow> rows_packed strings' previous ds bytes"
  by (induction ds arbitrary: previous bytes) (auto intro: query_index_mono)

lemma visit_packed:
  assumes "rows_packed strings previous ds bytes" "\<forall>d\<in>set ds. demand_path d = path" "length strings < 2 ^ 64"
  shows "visit_rows (push_row path strings) previous bytes acc = Inr (acc @ ds)"
  using assms(1,2)
proof (induction ds arbitrary: previous bytes acc)
  case (Cons d ds)
  then obtain k rest where d: "demand_ok d" "previous \<le> demand_start d" "query_index strings d k"
    "bytes = row_bytes previous d k @ rest" "rows_packed strings (demand_start d) ds rest" by auto
  have "row_to_demand path strings (demand_flags d) (demand_start d)
      (loc_end_byte (ed_location d) - demand_start d) (row_query d k) = Inr d"
    using row_to_demand_row [OF d(1,3) assms(3)] Cons.prems(2) by simp
  then have "push_row path strings (demand_flags d) (demand_start d)
      (loc_end_byte (ed_location d) - demand_start d) (row_query d k) acc = Inr (acc @ [d])"
    by (simp add: push_row_def)
  with Cons.IH [OF d(5)] Cons.prems(2) show ?case
    by (subst visit_rows.simps) (simp add: d(4) take_row_bytes [OF d(1,2)])
qed (simp add: visit_rows.simps)

lemma skip_uvarints_uvarint:
  "skip_uvarints 2 (uvarint a @ uvarint b @ rest) = Inr rest"
  "skip_uvarints 3 (uvarint a @ uvarint b @ uvarint c @ rest) = Inr rest"
  by (simp_all add: skip_uvarints_def numeral_eq_Suc)

lemma shape_packed:
  assumes "rows_packed strings previous ds bytes"
  shows "shape_rows bytes counts = Inr (fst counts + length ds,
    snd counts + length (filter (\<lambda>d. ed_query_location d \<noteq> None) ds))"
  using assms
proof (induction ds arbitrary: previous bytes counts)
  case (Cons d ds)
  then obtain k rest where d: "bytes = row_bytes previous d k @ rest" "rows_packed strings (demand_start d) ds rest" by auto
  show ?case
    using Cons.IH [OF d(2)]
    by (subst shape_rows.simps, cases "ed_query_location d")
      (simp_all add: d(1), simp_all add: row_bytes_def demand_header_read skip_uvarints_uvarint)
qed (simp add: shape_rows.simps)

definition group_packed :: "str list \<Rightarrow> compact_demand_group \<Rightarrow> entity_demand list \<Rightarrow> bool" where
  "group_packed strings group_row run \<longleftrightarrow>
     run \<noteq> [] \<and> (\<forall>d\<in>set run. demand_path d = demand_path (hd run))
     \<and> (\<exists>k. fst group_row = of_nat k \<and> get_at strings k = Some (demand_path (hd run)))
     \<and> rows_packed strings 0 run (snd group_row)"

lemma get_at_mono: "get_at xs k = Some x \<Longrightarrow> prefix xs ys \<Longrightarrow> get_at ys k = Some x"
  by (auto simp: get_at_Some_iff prefix_def nth_append)

lemma group_packed_mono: "group_packed strings g run \<Longrightarrow> prefix strings strings' \<Longrightarrow> group_packed strings' g run"
  unfolding group_packed_def by (blast intro: get_at_mono rows_packed_mono)

lemma group_lookup:
  assumes "group_packed strings g run" "length strings < 2 ^ 64"
  shows "demand_lookup strings (fst g) = Inr (demand_path (hd run))"
proof -
  obtain k where k: "fst g = of_nat k" "get_at strings k = Some (demand_path (hd run))"
    using assms(1) unfolding group_packed_def by blast
  then have "unat (of_nat k :: u64) = k" using assms(2) by (simp add: unat_of_nat_small get_at_Some_iff)
  with k show ?thesis by (simp add: demand_lookup_def)
qed

lemma visit_group_packed:
  assumes "group_packed strings g run" "length strings < 2 ^ 64"
  shows "visit_group g strings (push_row (demand_path (hd run)) strings) acc = Inr (acc @ run)"
proof -
  have rows: "rows_packed strings 0 run (snd g)" "\<forall>d\<in>set run. demand_path d = demand_path (hd run)"
    using assms(1) unfolding group_packed_def by blast+
  show ?thesis by (simp add: visit_group_def group_lookup [OF assms] visit_packed [OF rows assms(2)])
qed

lemma expand_packed:
  assumes "list_all2 (group_packed strings) groups runs" "length strings < 2 ^ 64"
  shows "expand_groups strings groups acc = Inr (acc @ concat runs)"
  using assms(1)
  by (induction groups runs arbitrary: acc rule: list_all2_induct)
    (simp_all add: group_lookup [OF _ assms(2)] visit_group_packed [OF _ assms(2)])

lemma shape_groups_packed:
  assumes "list_all2 (group_packed strings) groups runs"
  shows "compact_demand_shape_from groups counts = Inr (fst counts + length (concat runs),
    snd counts + length (filter (\<lambda>d. ed_query_location d \<noteq> None) (concat runs)))"
  using assms
proof (induction groups runs arbitrary: counts rule: list_all2_induct)
  case (Cons g groups run runs)
  have "rows_packed strings 0 run (snd g)" using Cons.hyps(1) unfolding group_packed_def by blast
  from shape_packed [OF this, of counts] Cons.IH show ?case by simp
qed simp

section \<open>The packing loop\<close>

lemma string_table_intern_eq: "string_table_intern = dict_intern"
  by (simp add: string_table_intern_def dict_intern_def dict_insert_def fun_eq_iff Let_def cong: option.case_cong)

lemma push_demand_bytes:
  assumes "dict_inv strings" "push_demand d previous out strings = (out', strings')"
  shows "dict_inv strings' \<and> prefix (dict_values strings) (dict_values strings')
    \<and> (\<exists>k. query_index (dict_values strings') d k \<and> out' = out @ row_bytes previous d k)"
proof (cases "ed_query_location d")
  case None
  with assms show ?thesis
    by (auto simp: push_demand_def Let_def push_uvarint_eq row_bytes_def query_index_def)
next
  case (Some q)
  obtain index s where intern: "dict_intern (loc_path q) strings = (index, s)" by fastforce
  note spec = dict_intern_spec [OF assms(1) intern]
  obtain k where k: "index = of_nat k" "get_at (dict_values s) k = Some (loc_path q)" using spec(3) by blast
  have "strings' = s" "out' = out @ row_bytes previous d k"
    using assms(2) Some intern k(1)
    by (auto simp: push_demand_def Let_def push_uvarint_eq row_bytes_def string_table_intern_eq)
  with spec(1,2) k Some show ?thesis by (auto simp: query_index_def)
qed

definition compact_inv :: "compact_state \<Rightarrow> entity_demand list \<Rightarrow> bool" where
  "compact_inv st ds \<longleftrightarrow> (case st of (strings, groups, previous) \<Rightarrow>
     dict_inv strings \<and> (\<exists>runs. concat runs = ds \<and> list_all2 (group_packed (dict_values strings)) groups runs
       \<and> (runs \<noteq> [] \<longrightarrow> previous = demand_start (last (last runs)))))"

lemma group_packed_push:
  assumes g: "group_packed strings g run" and d: "demand_ok d" "query_index strings d k"
    and start: "demand_start (last run) \<le> demand_start d" and path: "demand_path d = demand_path (hd run)"
  shows "group_packed strings (fst g, snd g @ row_bytes (demand_start (last run)) d k) (run @ [d])"
proof -
  have run: "run \<noteq> []" "rows_packed strings 0 run (snd g)" "\<forall>e\<in>set run. demand_path e = demand_path (hd run)"
    "\<exists>j. fst g = of_nat j \<and> get_at strings j = Some (demand_path (hd run))"
    using g unfolding group_packed_def by blast+
  have "rows_packed strings 0 (run @ [d]) (snd g @ row_bytes (demand_start (last run)) d k)"
    using rows_packed_snoc [OF run(2) d] run(1) start by simp
  moreover have "hd (run @ [d]) = hd run" using run(1) by simp
  ultimately show ?thesis
    unfolding group_packed_def using run path by (metis fst_conv snd_conv append_is_Nil_conv set_append Un_iff empty_iff list.set set_ConsD)
qed

lemma group_packed_new:
  assumes "demand_ok d" "query_index strings d k" "get_at strings j = Some (demand_path d)"
  shows "group_packed strings (of_nat j, row_bytes 0 d k) [d]"
  using assms by (auto simp: group_packed_def)

lemma list_all2_last:
  assumes "list_all2 P xs ys" "xs \<noteq> []"
  shows "ys \<noteq> [] \<and> list_all2 P (butlast xs) (butlast ys) \<and> P (last xs) (last ys)"
proof -
  obtain us u where xs: "xs = us @ [u]" using assms(2) by (cases xs rule: rev_cases) auto
  with assms(1) obtain vs v where "ys = vs @ [v]" "list_all2 P us vs" "P u v"
    by (auto simp: list_all2_append1 list_all2_Cons1)
  with xs show ?thesis by simp
qed

lemma list_all2_group_mono:
  "list_all2 (group_packed strings) groups runs \<Longrightarrow> prefix strings strings' \<Longrightarrow> list_all2 (group_packed strings') groups runs"
  by (erule list_all2_mono) (rule group_packed_mono)

lemma compact_step_shape:
  assumes dict: "dict_inv strings"
  shows "\<exists>j k s2. let new = groups = [] \<or> fst (last groups) \<noteq> of_nat j \<or> demand_start d < previous;
      gs = (if new then groups @ [(of_nat j, [])] else groups); p = (if new then 0 else previous)
    in compact_step d (strings, groups, previous)
        = (s2, butlast gs @ [(fst (last gs), snd (last gs) @ row_bytes p d k)], demand_start d)
      \<and> dict_inv s2 \<and> prefix (dict_values strings) (dict_values s2)
      \<and> get_at (dict_values s2) j = Some (demand_path d) \<and> query_index (dict_values s2) d k"
proof -
  obtain path s1 where i1: "dict_intern (demand_path d) strings = (path, s1)" by fastforce
  note spec = dict_intern_spec [OF dict i1]
  obtain j where j: "path = of_nat j" "get_at (dict_values s1) j = Some (demand_path d)" using spec(3) by blast
  define new where "new \<longleftrightarrow> groups = [] \<or> fst (last groups) \<noteq> of_nat j \<or> demand_start d < previous"
  define gs where "gs = (if new then groups @ [(of_nat j, [])] else groups)"
  define p where "p = (if new then 0 else previous)"
  obtain out s2 where push: "push_demand d p (snd (last gs)) s1 = (out, s2)" by fastforce
  have step: "compact_step d (strings, groups, previous) = (s2, butlast gs @ [(fst (last gs), out)], demand_start d)"
    using push by (auto simp: compact_step_def i1 j(1) string_table_intern_eq Let_def gs_def p_def new_def split: if_splits)
  from push_demand_bytes [OF spec(1) push] obtain k where s2: "dict_inv s2" "prefix (dict_values s1) (dict_values s2)"
    and k: "query_index (dict_values s2) d k" "out = snd (last gs) @ row_bytes p d k" by blast
  have "prefix (dict_values strings) (dict_values s2)" using spec(2) s2(2) by (rule prefix_order.trans)
  moreover have "get_at (dict_values s2) j = Some (demand_path d)" using j(2) s2(2) by (rule get_at_mono)
  ultimately show ?thesis
    using step s2(1) k unfolding Let_def
    by (intro exI [of _ j] exI [of _ k] exI [of _ s2], fold new_def, fold gs_def p_def) simp
qed

lemma compact_step_dict:
  assumes "dict_inv (fst st)"
  shows "dict_inv (fst (compact_step d st)) \<and> prefix (dict_values (fst st)) (dict_values (fst (compact_step d st)))"
proof -
  obtain strings groups previous where st: "st = (strings, groups, previous)" by (cases st)
  show ?thesis using compact_step_shape [of strings groups d previous] assms unfolding st Let_def by auto
qed

lemma compact_step_inv:
  assumes inv: "compact_inv st ds" and d: "demand_ok d"
    and small: "length (dict_values (fst (compact_step d st))) < 2 ^ 64"
  shows "compact_inv (compact_step d st) (ds @ [d])"
proof -
  obtain strings groups previous where st: "st = (strings, groups, previous)" by (cases st)
  obtain runs where dict: "dict_inv strings" and runs: "concat runs = ds"
    "list_all2 (group_packed (dict_values strings)) groups runs" "runs \<noteq> [] \<longrightarrow> previous = demand_start (last (last runs))"
    using inv unfolding st compact_inv_def by auto
  obtain j k s2 new gs p where new: "new \<longleftrightarrow> groups = [] \<or> fst (last groups) \<noteq> of_nat j \<or> demand_start d < previous"
    and gs: "gs = (if new then groups @ [(of_nat j, [])] else groups)" and p: "p = (if new then 0 else previous)"
    and step: "compact_step d st = (s2, butlast gs @ [(fst (last gs), snd (last gs) @ row_bytes p d k)], demand_start d)"
    and s2: "dict_inv s2" "prefix (dict_values strings) (dict_values s2)"
    and j: "get_at (dict_values s2) j = Some (demand_path d)" and k: "query_index (dict_values s2) d k"
    using compact_step_shape [OF dict, of groups d previous] unfolding Let_def st by blast
  let ?packed = "list_all2 (group_packed (dict_values s2))"
  have packed: "?packed groups runs" using runs(2) s2(2) by (rule list_all2_group_mono)
  have small2: "length (dict_values s2) < 2 ^ 64" using small by (simp add: step)
  show ?thesis
  proof (cases new)
    case True
    then have "?packed (butlast gs @ [(fst (last gs), snd (last gs) @ row_bytes p d k)]) (runs @ [[d]])"
      using packed group_packed_new [OF d k j] by (simp add: gs p list_all2_appendI)
    with s2(1) runs(1) show ?thesis unfolding compact_inv_def step by (auto intro!: exI [of _ "runs @ [[d]]"])
  next
    case False
    then have ne: "groups \<noteq> []" and same: "fst (last groups) = of_nat j" and le: "previous \<le> demand_start d"
      by (auto simp: new)
    note last = list_all2_last [OF packed ne]
    have prev: "previous = demand_start (last (last runs))" using runs(3) last by blast
    have "demand_lookup (dict_values s2) (fst (last groups)) = Inr (demand_path (hd (last runs)))"
      using last small2 by (blast intro: group_lookup)
    moreover have "unat (of_nat j :: u64) = j" using j small2 by (simp add: unat_of_nat_small get_at_Some_iff)
    ultimately have path: "demand_path d = demand_path (hd (last runs))" using j same by (simp add: demand_lookup_def)
    have "group_packed (dict_values s2) (fst (last groups), snd (last groups) @ row_bytes previous d k) (last runs @ [d])"
      unfolding prev by (rule group_packed_push [OF _ d k _ path]) (use last le prev in auto)
    then have "?packed (butlast gs @ [(fst (last gs), snd (last gs) @ row_bytes p d k)]) (butlast runs @ [last runs @ [d]])"
      using last False by (simp add: gs p list_all2_appendI)
    moreover have "concat (butlast runs @ [last runs @ [d]]) = ds @ [d]"
    proof -
      have "concat (butlast runs @ [last runs]) = ds" using last runs(1) by simp
      then show ?thesis by (simp del: append_butlast_last_id)
    qed
    ultimately show ?thesis using s2(1) unfolding compact_inv_def step by fastforce
  qed
qed

lemma compact_fold_dict: "dict_inv (fst (fold compact_step ds (string_table_new, [], 0)))"
proof (induction ds rule: rev_induct)
  case Nil
  have "string_table_new = dict_new" by (simp add: string_table_new_def dict_new_def)
  then show ?case by (simp add: dict_inv_new)
qed (use compact_step_dict in simp)

lemma compact_fold_inv:
  assumes "list_all demand_ok ds"
    and "length (dict_values (fst (fold compact_step ds (string_table_new, [], 0)))) < 2 ^ 64"
  shows "compact_inv (fold compact_step ds (string_table_new, [], 0)) ds"
  using assms
proof (induction ds rule: rev_induct)
  case Nil
  show ?case using compact_fold_dict [of "[]"] by (simp add: compact_inv_def)
next
  case (snoc d ds)
  let ?st = "fold compact_step ds (string_table_new, [], 0)"
  have small: "length (dict_values (fst (compact_step d ?st))) < 2 ^ 64" using snoc.prems(2) by simp
  then have "length (dict_values (fst ?st)) < 2 ^ 64"
    using compact_step_dict [OF compact_fold_dict [of ds], of d] by (auto dest: prefix_length_le)
  with snoc compact_step_inv [OF _ _ small] show ?case by simp
qed

lemma compact_demands_packed:
  assumes "list_all demand_ok ds" "length (cd_strings (compact_demands ds)) < 2 ^ 64"
  shows "\<exists>runs. concat runs = ds \<and> list_all2 (group_packed (cd_strings (compact_demands ds))) (cd_groups (compact_demands ds)) runs"
proof -
  obtain strings groups previous where st: "fold compact_step ds (string_table_new, [], 0) = (strings, groups, previous)"
    by (cases "fold compact_step ds (string_table_new, [], 0)")
  with assms compact_fold_inv [OF assms(1)] show ?thesis by (auto simp: compact_demands_def compact_inv_def)
qed

section \<open>Expanding some rows only\<close>

lemma demand_flags_plain:
  assumes "n < 21"
  shows "has_flag (demand_flags (plain_demand location flags)) n = has_flag flags n"
proof -
  have "n \<in> {0, 1, 2, 3, 4, 5, 6, 7, 8, 9, 10, 11, 12, 13, 14, 15, 16, 17, 18, 19, 20}"
    using assms by (auto simp: less_Suc_eq numeral_eq_Suc)
  then show ?thesis
    by (elim insertE emptyE) (simp_all only: demand_flag_bits plain_demand_def entity_demand.simps)
qed

lemma demand_flags_query [simp]: "demand_flags (d\<lparr>ed_query_location := q\<rparr>) = demand_flags d"
  by (simp add: demand_flags_def)

lemma row_to_demand_flag:
  "row_to_demand path strings flags start len query = Inr d \<Longrightarrow> n < 21 \<Longrightarrow> has_flag (demand_flags d) n = has_flag flags n"
  using demand_flags_plain
  by (auto simp: row_to_demand_def Let_def rbind_Inr_iff simp del: has_flag_iff split: option.splits)

lemma visit_with_flag:
  assumes "visit_rows (push_row path strings) previous packed acc = Inr r" "n < 21"
  shows "\<exists>ds. r = acc @ ds \<and> (\<forall>target. visit_rows (\<lambda>flags start len query target.
      if flags AND push_bit n 1 \<noteq> 0 then push_row path strings flags start len query target else Inr target)
      previous packed target = Inr (target @ filter (\<lambda>d. has_flag (demand_flags d) n) ds))"
  using assms(1)
proof (induction "length packed" arbitrary: previous packed acc rule: less_induct)
  case less
  show ?case
  proof (cases "packed = []")
    case True
    with less.prems show ?thesis by (simp add: visit_rows.simps)
  next
    case False
    then obtain row rest d where row: "take_row previous packed = Inr (row, rest)"
      "row_to_demand path strings (pr_flags row) (pr_start row) (pr_len row) (pr_query row) = Inr d"
      "visit_rows (push_row path strings) (pr_start row) rest (acc @ [d]) = Inr r"
      using less.prems by (subst (asm) visit_rows.simps) (auto simp: rbind_Inr_iff push_row_def)
    obtain ds where ds: "r = (acc @ [d]) @ ds" "\<forall>target. visit_rows (\<lambda>flags start len query target.
        if flags AND push_bit n 1 \<noteq> 0 then push_row path strings flags start len query target else Inr target)
        (pr_start row) rest target = Inr (target @ filter (\<lambda>d. has_flag (demand_flags d) n) ds)"
      using less.hyps [OF take_row_shrinks [OF row(1)] row(3)] by blast
    have bit: "has_flag (demand_flags d) n \<longleftrightarrow> pr_flags row AND push_bit n 1 \<noteq> 0"
      using row_to_demand_flag [OF row(2) assms(2)] by (simp only: has_flag_def)
    show ?thesis
    proof (intro exI [of _ "d # ds"] conjI allI)
      show "r = acc @ d # ds" using ds(1) by simp
      show "visit_rows (\<lambda>flags start len query target.
          if flags AND push_bit n 1 \<noteq> 0 then push_row path strings flags start len query target else Inr target)
          previous packed target = Inr (target @ filter (\<lambda>d. has_flag (demand_flags d) n) (d # ds))" for target
      proof (cases "pr_flags row AND push_bit n 1 \<noteq> 0")
        case True
        then have "push_row path strings (pr_flags row) (pr_start row) (pr_len row) (pr_query row) target = Inr (target @ [d])"
          using row(2) by (simp add: push_row_def)
        with False True row(1) ds(2) bit show ?thesis
          by (subst visit_rows.simps) (simp del: has_flag_iff)
      next
        case no: False
        with False row(1) ds(2) bit show ?thesis by (subst visit_rows.simps) (simp del: has_flag_iff)
      qed
    qed
  qed
qed

section \<open>Grouping by path\<close>

text \<open>One round of \<^verbatim>\<open>group_demands\<close>: the runs in first-seen order and the run of each path.\<close>

definition group_step ::
    "entity_demand \<Rightarrow> entity_demand list list \<times> (str \<rightharpoonup> nat) \<Rightarrow> entity_demand list list \<times> (str \<rightharpoonup> nat)" where
  "group_step demand = (\<lambda>(order, runs).
     case runs (loc_path (ed_location demand)) of
       Some index \<Rightarrow> (order[index := order ! index @ [demand]], runs)
     | None \<Rightarrow> (order @ [[demand]], runs(loc_path (ed_location demand) \<mapsto> length order)))"

definition group_demands :: "entity_demand list \<Rightarrow> entity_demand list list" where
  "group_demands demands = fst (fold group_step demands ([], Map.empty))"

text \<open>Paths in the order in which they first occur.\<close>

definition first_seen :: "str list \<Rightarrow> str list" where
  "first_seen paths = rev (remdups (rev paths))"

lemma first_seen_snoc: "first_seen (paths @ [p]) = (if p \<in> set paths then first_seen paths else first_seen paths @ [p])"
  by (simp add: first_seen_def)

lemma set_first_seen [simp]: "set (first_seen paths) = set paths"
  by (simp add: first_seen_def)

lemma distinct_first_seen: "distinct (first_seen paths)"
  by (simp add: first_seen_def)

lemma group_fold:
  assumes "fold group_step ds ([], Map.empty) = (order, runs)"
  shows "order = map (\<lambda>p. filter (\<lambda>d. demand_path d = p) ds) (first_seen (map demand_path ds))
    \<and> (\<forall>p i. runs p = Some i \<longleftrightarrow>
         i < length (first_seen (map demand_path ds)) \<and> first_seen (map demand_path ds) ! i = p)"
  using assms
proof (induction ds arbitrary: order runs rule: rev_induct)
  case Nil
  then show ?case by (auto simp: first_seen_def)
next
  case (snoc d ds)
  let ?ps = "first_seen (map demand_path ds)" and ?p = "demand_path d"
  obtain order0 runs0 where prev: "fold group_step ds ([], Map.empty) = (order0, runs0)" by fastforce
  note IH = snoc.IH [OF prev]
  have step: "group_step d (order0, runs0) = (order, runs)" using snoc.prems prev by simp
  have known: "?p \<in> set (map demand_path ds) \<longleftrightarrow> runs0 ?p \<noteq> None"
    using IH in_set_conv_nth [of ?p ?ps] by auto
  show ?case
  proof (cases "runs0 ?p")
    case (Some i)
    with IH have i: "i < length ?ps" "?ps ! i = ?p" by auto
    have ps: "first_seen (map demand_path (ds @ [d])) = ?ps" using known Some by (simp add: first_seen_snoc)
    have "order0[i := order0 ! i @ [d]] = map (\<lambda>p. filter (\<lambda>d. demand_path d = p) (ds @ [d])) ?ps"
    proof (rule nth_equalityI)
      fix n
      assume n: "n < length (order0[i := order0 ! i @ [d]])"
      then have "?ps ! n = ?p \<longleftrightarrow> n = i"
        using IH i nth_eq_iff_index_eq [OF distinct_first_seen, of n "map demand_path ds" i] by auto
      then show "order0[i := order0 ! i @ [d]] ! n = map (\<lambda>p. filter (\<lambda>d. demand_path d = p) (ds @ [d])) ?ps ! n"
        using n i IH by (auto simp: nth_list_update)
    qed (use IH in simp)
    then show ?thesis using step Some IH unfolding ps by (simp add: group_step_def)
  next
    case None
    then have new: "?p \<notin> set (map demand_path ds)" using known by blast
    have ps: "first_seen (map demand_path (ds @ [d])) = ?ps @ [?p]" using new by (simp add: first_seen_snoc)
    have "filter (\<lambda>e. demand_path e = ?p) ds = []"
      unfolding filter_empty_conv using new by (metis imageI set_map)
    moreover have "map (\<lambda>p. filter (\<lambda>d. demand_path d = p) (ds @ [d])) ?ps = order0"
      using IH new by auto
    moreover have "order = order0 @ [[d]]" "runs = runs0(?p \<mapsto> length order0)"
      using step None by (auto simp: group_step_def)
    moreover have "length order0 = length ?ps" using IH by simp
    moreover have "runs p = Some i \<longleftrightarrow> i < length (?ps @ [?p]) \<and> (?ps @ [?p]) ! i = p" for p i
    proof (cases "i < length ?ps")
      case True
      then have "?ps ! i \<noteq> ?p" using new nth_mem [OF True] by auto
      with True IH calculation(4,5) show ?thesis by (auto simp: nth_append)
    qed (use IH calculation(4,5) in \<open>auto simp: nth_append less_Suc_eq\<close>)
    ultimately show ?thesis unfolding ps by simp
  qed
qed

section \<open>Properties\<close>

definition ex_demand :: "str \<Rightarrow> u64 \<Rightarrow> location option \<Rightarrow> entity_demand" where
  "ex_demand path start query =
     (plain_demand \<lparr>loc_path = path, loc_end_byte = start + 3, loc_start_byte = start\<rparr> 0x100005)
       \<lparr>ed_query_location := query\<rparr>"

definition ex_demands :: "entity_demand list" where
  "ex_demands = [ex_demand ''a.ts'' 200 None,
     ex_demand ''b.ts'' 7 (Some \<lparr>loc_path = ''c.ts'', loc_end_byte = 9, loc_start_byte = 2\<rparr>),
     ex_demand ''a.ts'' 5 None, ex_demand ''a.ts'' 2 None]"

text \<open>C21. The demand snapshot survives the wire: expanding what the client packs gives back the demands,
  in order, with every flag and query location, and the shape check counts them exactly, for all
  demands whose spans do not end before they start.\<close>

theorem compact_demands_round_trip:
  assumes "list_all demand_ok demands" "length (cd_strings (compact_demands demands)) < 2 ^ 64"
  shows "expand_compact_demands (compact_demands demands) = Inr demands
    \<and> compact_demand_shape (cd_groups (compact_demands demands))
      = Inr (length demands, length (filter (\<lambda>d. ed_query_location d \<noteq> None) demands))"
proof -
  obtain runs where runs: "concat runs = demands"
    "list_all2 (group_packed (cd_strings (compact_demands demands))) (cd_groups (compact_demands demands)) runs"
    using compact_demands_packed [OF assms] by blast
  have "compact_demand_shape (cd_groups (compact_demands demands))
      = Inr (length demands, length (filter (\<lambda>d. ed_query_location d \<noteq> None) demands))"
    using shape_groups_packed [OF runs(2), of "(0, 0)"] runs(1) by (simp add: compact_demand_shape_def)
  with expand_packed [OF runs(2) assms(2), of "[]"] runs(1) show ?thesis
    by (simp add: expand_compact_demands_def)
qed

theorem compact_demands_round_trip_witness:
  "expand_compact_demands (compact_demands ex_demands) = Inr ex_demands
   \<and> map fst (cd_groups (compact_demands ex_demands)) = [1, 2, 1, 1]"
proof -
  have 1: "list_all demand_ok ex_demands"
    by (simp add: ex_demands_def ex_demand_def demand_ok_def span_ok_def plain_demand_def)
  have 2: "length (cd_strings (compact_demands ex_demands)) < 2 ^ 64"
    and 3: "map fst (cd_groups (compact_demands ex_demands)) = [1, 2, 1, 1]"
    by (simp_all add: compact_demands_def compact_step_def push_demand_def ex_demands_def ex_demand_def
        string_table_intern_def string_table_new_def plain_demand_def Let_def)
  from compact_demands_round_trip [OF 1 2] 3 show ?thesis by blast
qed

text \<open>C22. Expanding only the rows that carry a flag is expanding the group and keeping those rows.\<close>

theorem append_with_flag_filters:
  assumes "expand_compact_group group_row strings = Inr demands" "n < 21"
  shows "append_compact_demands_with_flag target group_row strings (push_bit n 1)
    = Inr (target @ filter (\<lambda>d. has_flag (demand_flags d) n) demands)"
proof -
  obtain path where path: "demand_lookup strings (fst group_row) = Inr path"
    and visit: "visit_rows (push_row path strings) 0 (snd group_row) [] = Inr demands"
    using assms(1) by (auto simp: expand_compact_group_def visit_group_def rbind_Inr_iff)
  from visit_with_flag [OF visit assms(2)] path show ?thesis
    by (auto simp: append_compact_demands_with_flag_def visit_group_def simp del: has_flag_iff push_bit_of_1)
qed

theorem append_with_flag_filters_witness:
  "append_compact_demands_with_flag [] (1, row_bytes 0 (ex_demand ''a.ts'' 200 None) 0) [[], ''a.ts''] (push_bit 2 1)
   = Inr (filter (\<lambda>d. has_flag (demand_flags d) 2) [ex_demand ''a.ts'' 200 None])"
proof -
  let ?d = "ex_demand ''a.ts'' 200 None"
  have d: "demand_ok ?d" "query_index [[], ''a.ts''] ?d 0" "get_at [[], ''a.ts''] 1 = Some (demand_path ?d)"
    by (simp_all add: ex_demand_def demand_ok_def span_ok_def plain_demand_def query_index_def get_at_def)
  have packed: "group_packed [[], ''a.ts''] (1, row_bytes 0 ?d 0) [?d]"
    using group_packed_new [OF d] by simp
  have "demand_lookup [[], ''a.ts''] 1 = Inr (demand_path ?d)"
    using group_lookup [OF packed] by simp
  moreover have "visit_group (1, row_bytes 0 ?d 0) [[], ''a.ts''] (push_row (demand_path ?d) [[], ''a.ts'']) [] = Inr [?d]"
    using visit_group_packed [OF packed, of "[]"] by simp
  moreover have "\<exists>counts. compact_demand_shape [(1, row_bytes 0 ?d 0)] = Inr counts"
    using shape_groups_packed [of "[[], ''a.ts'']" "[(1, row_bytes 0 ?d 0)]" "[[?d]]" "(0, 0)"] packed
    by (simp add: compact_demand_shape_def)
  ultimately have "expand_compact_group (1, row_bytes 0 ?d 0) [[], ''a.ts''] = Inr [?d]"
    by (auto simp: expand_compact_group_def)
  from append_with_flag_filters [OF this, of 2 "[]"] show ?thesis by simp
qed

text \<open>C23. Grouping a flat demand list yields one run per path, in the order the paths first occur, and
  each run is exactly the demands on its path in their original order.\<close>

theorem group_demands_correct:
  "group_demands demands = map (\<lambda>path. filter (\<lambda>d. loc_path (ed_location d) = path) demands)
     (first_seen (map (\<lambda>d. loc_path (ed_location d)) demands))"
proof -
  obtain order runs where "fold group_step demands ([], Map.empty) = (order, runs)" by fastforce
  with group_fold [OF this] show ?thesis by (simp add: group_demands_def)
qed

end
