(* ===== verification/TF_Updates.thy ===== *)
theory TF_Updates
  imports TF_Session TF_Demands "HOL-Library.AList"
begin

text \<open>
  The stateful part of \<^verbatim>\<open>session.rs\<close> around updates: the replay history that a session keeps, the
  restart that replays it into a relaunched producer, the update protocol, the guard that closes a
  bridged session on its first failure, and the demand runs that a session retains.

  The connection is an argument: its other end is another process (or the owner of a bridge).
\<close>

section \<open>Requests\<close>

datatype operation = OpOpen | OpUpdate | OpAnalyze | OpSymbols | OpSources | OpModules | OpCancel | OpClose

record file_change =
  fc_path :: str
  fc_source :: "u8 list"
  fc_deleted :: bool
  fc_version :: u64

record symbol_query =
  sq_id :: str
  sq_references :: bool
  sq_references_only :: bool

record module_graph_request =
  mg_imports :: bool
  mg_import_paths :: "str list"
  mg_packages :: bool
  mg_distinct_bare_imports :: bool
  mg_omit_modules :: bool
  mg_build_inputs :: bool

record request =
  rq_schema :: u64
  rq_changes :: "file_change list"
  rq_demands :: "entity_demand list"
  rq_operation :: operation
  rq_project_id :: str
  rq_request_id :: u64
  rq_generation :: u64
  rq_reset_state :: bool
  rq_state_token :: str
  rq_compact_demands :: "compact_demands_row option"
  rq_cancel_request_id :: u64
  rq_removed_demand_paths :: "str list"
  rq_symbol_queries :: "symbol_query list"
  rq_release_analysis :: bool
  rq_reference_changes :: bool
  rq_reference_paths :: "str list"
  rq_module_graph :: "module_graph_request option"

definition new_request :: "operation \<Rightarrow> str \<Rightarrow> u64 \<Rightarrow> request" where
  "new_request op project_id generation =
     \<lparr>rq_schema = type_facts_schema_v1, rq_changes = [], rq_demands = [], rq_operation = op,
      rq_project_id = project_id, rq_request_id = 0, rq_generation = generation, rq_reset_state = False,
      rq_state_token = [], rq_compact_demands = None, rq_cancel_request_id = 0, rq_removed_demand_paths = [],
      rq_symbol_queries = [], rq_release_analysis = False, rq_reference_changes = False, rq_reference_paths = [],
      rq_module_graph = None\<rparr>"

section \<open>The session and its connection\<close>

record update_graph =
  ug_epoch :: u64
  ug_generation :: u64
  ug_kept :: bool

text \<open>
  The fields of \<^verbatim>\<open>Session\<close> that these operations read or write.  \<^verbatim>\<open>sn_producer\<close> says whether there is a
  producer to relaunch, \<^verbatim>\<open>sn_connected\<close> whether \<^verbatim>\<open>connection\<close> is present; the retained demand runs are an
  association list, the hash map of the source.
\<close>

record session =
  sn_producer :: bool
  sn_project_id :: str
  sn_generation :: u64
  sn_restart_epoch :: u64
  sn_connected :: bool
  sn_replay_batches :: "file_change list list"
  sn_replay_index :: "str \<rightharpoonup> nat"
  sn_state_token :: str
  sn_retained_demands :: "(str \<times> entity_demand list) list"
  sn_retained_table :: "fact_table option"
  sn_reference_tier :: "str list"
  sn_last_update_graph :: "update_graph option"
  sn_closed :: bool

definition with_connection :: "bool \<Rightarrow> str \<Rightarrow> session" where
  "with_connection producer project_id =
     \<lparr>sn_producer = producer, sn_project_id = project_id, sn_generation = 1, sn_restart_epoch = 0,
      sn_connected = True, sn_replay_batches = [], sn_replay_index = Map.empty, sn_state_token = [],
      sn_retained_demands = [], sn_retained_table = None, sn_reference_tier = [],
      sn_last_update_graph = None, sn_closed = False\<rparr>"

text \<open>
  A connection over a world \<open>'w\<close>: launching a producer (with its handshake), sending a request,
  waiting for the answer to a sent one, and ending the connection.
\<close>

record 'w carrier =
  ca_spawn :: "str \<Rightarrow> 'w \<Rightarrow> (session_error + unit) \<times> 'w"
  ca_send :: "request \<Rightarrow> 'w \<Rightarrow> (session_error + u64) \<times> 'w"
  ca_wait :: "u64 \<Rightarrow> 'w \<Rightarrow> (session_error + response) \<times> 'w"
  ca_terminate :: "'w \<Rightarrow> 'w"

definition ca_exchange :: "'w carrier \<Rightarrow> request \<Rightarrow> 'w \<Rightarrow> (session_error + response) \<times> 'w" where
  "ca_exchange ca request w =
     (case ca_send ca request w of
        (Inl error, w) \<Rightarrow> (Inl error, w)
      | (Inr sent, w) \<Rightarrow> ca_wait ca sent w)"

definition can_recover :: "session \<Rightarrow> bool" where
  "can_recover s = sn_producer s"

definition ensure_open :: "session \<Rightarrow> session_error + unit" where
  "ensure_open s = (if sn_closed s then Inl Closed else Inr ())"

definition clear_retained_state :: "session \<Rightarrow> session" where
  "clear_retained_state s =
     s\<lparr>sn_state_token := [], sn_retained_demands := [], sn_retained_table := None, sn_reference_tier := []\<rparr>"

text \<open>Symbol evidence that arrives packed as a table transition.\<close>

fun packed_evidence :: "symbol_op list \<Rightarrow> session_error + symbol_fact list" where
  "packed_evidence [] = Inr []"
| "packed_evidence (SymReplace symbol # operations) =
     rbind (packed_evidence operations) (\<lambda>symbols. Inr (symbol # symbols))"
| "packed_evidence (_ # operations) = Inl (InvalidResponse PackedSymbolDelta)"

definition unpack_evidence :: "session \<Rightarrow> operation \<Rightarrow> response \<Rightarrow> session_error + response" where
  "unpack_evidence s op response =
     (if op = OpSymbols \<and> rs_symbol_evidence response = [] \<and> rs_table_transition response \<noteq> [] then
        case decode_table_transition (rs_table_transition response) of
          Inl error \<Rightarrow> Inl (InvalidResponse (TransitionUndecodable error))
        | Inr packed \<Rightarrow>
            if wt_mode packed \<noteq> ModeFull \<or> wt_project_id packed \<noteq> sn_project_id s
               \<or> wt_target_generation packed \<noteq> sn_generation s \<or> wt_paths packed \<noteq> []
            then Inl (InvalidResponse PackedSymbolIdentity)
            else rbind (packed_evidence (wt_symbols packed)) (\<lambda>symbols.
              Inr (response\<lparr>rs_symbol_evidence := symbols, rs_table_transition := []\<rparr>))
      else Inr response)"

definition exchange_once ::
    "'w carrier \<Rightarrow> request \<Rightarrow> session \<Rightarrow> 'w \<Rightarrow> (session_error + response) \<times> 'w" where
  "exchange_once ca request s w =
     (if \<not> sn_connected s then (Inl Closed, w)
      else
        let (response, w) = ca_exchange ca request w
        in (rbind response (\<lambda>response.
            rbind (validate_response_identity response (sn_project_id s) (rq_generation request)) (\<lambda>_.
            unpack_evidence s (rq_operation request) response)), w))"

section \<open>Restart and replay\<close>

fun replay :: "'w carrier \<Rightarrow> file_change list list \<Rightarrow> session \<Rightarrow> 'w \<Rightarrow> (session_error + unit) \<times> session \<times> 'w" where
  "replay ca [] s w = (Inr (), s, w)"
| "replay ca (changes # batches) s w =
     (let update = (new_request OpUpdate (sn_project_id s) (sn_generation s + 1))\<lparr>rq_changes := changes\<rparr>
      in case exchange_once ca update s w of
           (Inl error, w) \<Rightarrow> (Inl error, s, w)
         | (Inr _, w) \<Rightarrow> replay ca batches (s\<lparr>sn_generation := sn_generation s + 1\<rparr>) w)"

definition restart_and_replay :: "'w carrier \<Rightarrow> session \<Rightarrow> 'w \<Rightarrow> (session_error + unit) \<times> session \<times> 'w" where
  "restart_and_replay ca s w =
     (if \<not> sn_producer s
      then (Inl (ProcessFailed ''a bridged producer is never restarted or replayed''), s, w)
      else
        let (connection, w) = ca_spawn ca (sn_project_id s) w;
            w = (if sn_connected s then ca_terminate ca w else w);
            s = s\<lparr>sn_connected := False\<rparr>
        in case connection of
             Inl error \<Rightarrow> (Inl error, s, w)
           | Inr _ \<Rightarrow>
               let s = s\<lparr>sn_connected := True\<rparr> in
               if sn_restart_epoch s = - 1
               then (Inl (ProducerProvenance ''producer restart epoch overflow''), s, w)
               else
                 let s = clear_retained_state (s\<lparr>sn_restart_epoch := sn_restart_epoch s + 1,
                       sn_generation := 1, sn_last_update_graph := None\<rparr>)
                 in case exchange_once ca (new_request OpOpen (sn_project_id s) 1) s w of
                      (Inl error, w) \<Rightarrow> (Inl error, s, w)
                    | (Inr _, w) \<Rightarrow> replay ca (sn_replay_batches s) s w)"

definition exchange ::
    "'w carrier \<Rightarrow> request \<Rightarrow> session \<Rightarrow> 'w \<Rightarrow> (session_error + response) \<times> session \<times> 'w" where
  "exchange ca request s w =
     (case exchange_once ca request s w of
        (Inl error, w) \<Rightarrow>
          if is_transport_failure error \<and> can_recover s then
            case restart_and_replay ca s w of
              (Inl error, s, w) \<Rightarrow> (Inl error, s, w)
            | (Inr _, s, w) \<Rightarrow> let (r, w) = exchange_once ca request s w in (r, s, w)
          else (Inl error, s, w)
      | (Inr response, w) \<Rightarrow> (Inr response, s, w))"

section \<open>Updates\<close>

definition supersede_overlay :: "nat \<Rightarrow> file_change \<Rightarrow> session \<Rightarrow> session" where
  "supersede_overlay next change s =
     (let s' = s\<lparr>sn_replay_index := (sn_replay_index s)(fc_path change \<mapsto> next)\<rparr>
      in case sn_replay_index s (fc_path change) of
           None \<Rightarrow> s'
         | Some batch \<Rightarrow>
             if batch < length (sn_replay_batches s)
             then s'\<lparr>sn_replay_batches := (sn_replay_batches s)[batch :=
               filter (\<lambda>kept. fc_path kept \<noteq> fc_path change) (sn_replay_batches s ! batch)]\<rparr>
             else s')"

definition supersede_replayed_overlays :: "file_change list \<Rightarrow> session \<Rightarrow> session" where
  "supersede_replayed_overlays changes s =
     fold (supersede_overlay (length (sn_replay_batches s))) changes s"

definition commit_update :: "file_change list \<Rightarrow> session \<Rightarrow> session" where
  "commit_update changes s =
     (let s = supersede_replayed_overlays changes (s\<lparr>sn_generation := sn_generation s + 1\<rparr>)
      in s\<lparr>sn_replay_batches := sn_replay_batches s @ [changes]\<rparr>)"

definition finish_update ::
    "'w carrier \<Rightarrow> u64 \<Rightarrow> file_change list \<Rightarrow> session \<Rightarrow> 'w \<Rightarrow> (session_error + unit) \<times> session \<times> 'w" where
  "finish_update ca sent changes s w =
     (if \<not> sn_connected s then (Inl Closed, s, w)
      else
        let (outcome, w) = ca_wait ca sent w;
            outcome = rbind outcome (\<lambda>response.
              rbind (validate_response_identity response (sn_project_id s) (sn_generation s + 1)) (\<lambda>_.
              Inr response))
        in case outcome of
             Inr response \<Rightarrow>
               let s = commit_update changes s
               in (Inr (), s\<lparr>sn_last_update_graph := Some \<lparr>ug_epoch = sn_restart_epoch s,
                     ug_generation = sn_generation s, ug_kept = rs_graph_kept response\<rparr>\<rparr>, w)
           | Inl error \<Rightarrow>
               if is_transport_failure error \<and> can_recover s then
                 case restart_and_replay ca s w of
                   (Inl error, s, w) \<Rightarrow> (Inl error, s, w)
                 | (Inr _, s, w) \<Rightarrow>
                     let retry = (new_request OpUpdate (sn_project_id s) (sn_generation s + 1))\<lparr>rq_changes := changes\<rparr>
                     in case exchange_once ca retry s w of
                          (Inl error, w) \<Rightarrow> (Inl error, s, w)
                        | (Inr _, w) \<Rightarrow> (Inr (), (commit_update changes s)\<lparr>sn_last_update_graph := None\<rparr>, w)
               else (Inl error, s, w))"

definition send_once :: "'w carrier \<Rightarrow> request \<Rightarrow> session \<Rightarrow> 'w \<Rightarrow> (session_error + u64) \<times> 'w" where
  "send_once ca request s w = (if \<not> sn_connected s then (Inl Closed, w) else ca_send ca request w)"

definition guard_failure :: "'w carrier \<Rightarrow> session_error + 'a \<Rightarrow> session \<Rightarrow> 'w \<Rightarrow> session \<times> 'w" where
  "guard_failure ca r s w =
     (case r of
        Inr _ \<Rightarrow> (s, w)
      | Inl _ \<Rightarrow>
          if can_recover s then (s, w)
          else
            let s' = (clear_retained_state s)\<lparr>sn_closed := True, sn_connected := False\<rparr>
            in (s', if sn_connected s then ca_terminate ca w else w))"

text \<open>What a call returns when the caller's own work may panic: the panic unwinds past the guard.\<close>

datatype ('p, 'a) outcome = Panicked 'p | Returned "session_error + 'a"

text \<open>
  \<^verbatim>\<open>update_during_unguarded\<close>; \<^verbatim>\<open>update\<close> is the call \<^verbatim>\<open>self.update(changes)\<close> that it makes after a restart, and
  \<^verbatim>\<open>work\<close> is what the caller's closure does: panic or return a value.
\<close>

definition update_during_unguarded ::
    "(session \<Rightarrow> 'w \<Rightarrow> ((session_error + unit) \<times> session \<times> 'w) option)
     \<Rightarrow> 'w carrier \<Rightarrow> file_change list \<Rightarrow> 'p + 't \<Rightarrow> session \<Rightarrow> 'w \<Rightarrow> (('p, 't) outcome \<times> session \<times> 'w) option" where
  "update_during_unguarded update ca changes work s w =
     (case ensure_open s of
        Inl error \<Rightarrow> Some (Returned (Inl error), s, w)
      | Inr _ \<Rightarrow>
          if changes = [] then
            Some (case work of Inl p \<Rightarrow> Panicked p | Inr v \<Rightarrow> Returned (Inr v), s, w)
          else
            let sending = (new_request OpUpdate (sn_project_id s) (sn_generation s + 1))\<lparr>rq_changes := changes\<rparr>
            in case send_once ca sending s w of
                 (Inr sent, w) \<Rightarrow>
                   let (finished, s, w) = finish_update ca sent changes s w
                   in Some (case work of
                        Inl p \<Rightarrow> Panicked p
                      | Inr v \<Rightarrow> Returned (rbind finished (\<lambda>_. Inr v)), s, w)
               | (Inl error, w) \<Rightarrow>
                   if is_transport_failure error \<and> can_recover s then
                     case restart_and_replay ca s w of
                       (Inl error, s, w) \<Rightarrow> Some (Returned (Inl error), s, w)
                     | (Inr _, s, w) \<Rightarrow>
                         (case work of
                            Inl p \<Rightarrow> Some (Panicked p, s, w)
                          | Inr v \<Rightarrow>
                              map_option (\<lambda>(r, s, w).
                                case r of
                                  Inl error \<Rightarrow> (Returned (Inl error), s, w)
                                | Inr _ \<Rightarrow> (Returned (Inr v), s\<lparr>sn_last_update_graph := None\<rparr>, w))
                                (update s w))
                   else Some (Returned (Inl error), s, w))"

definition guarded_outcome ::
    "'w carrier \<Rightarrow> ('p, 't) outcome \<times> session \<times> 'w \<Rightarrow> ('p, 't) outcome \<times> session \<times> 'w" where
  "guarded_outcome ca = (\<lambda>(r, s, w).
     case r of
       Panicked p \<Rightarrow> (r, s, w)
     | Returned v \<Rightarrow> (r, guard_failure ca v s w))"

text \<open>
  \<^verbatim>\<open>update\<close> calls itself after each restart.  The first argument bounds the nesting; \<^verbatim>\<open>None\<close> is a nesting
  deeper than that.
\<close>

fun session_update ::
    "nat \<Rightarrow> 'w carrier \<Rightarrow> file_change list \<Rightarrow> session \<Rightarrow> 'w \<Rightarrow> ((session_error + unit) \<times> session \<times> 'w) option" where
  "session_update 0 ca changes s w = None"
| "session_update (Suc depth) ca changes s w =
     map_option (\<lambda>(r :: (unit, unit) outcome, s, w). (case r of Returned v \<Rightarrow> v | Panicked _ \<Rightarrow> Inr (), s, w))
       (map_option (guarded_outcome ca)
         (update_during_unguarded (session_update depth ca changes) ca changes (Inr ()) s w))"

definition update_during ::
    "nat \<Rightarrow> 'w carrier \<Rightarrow> file_change list \<Rightarrow> 'p + 't \<Rightarrow> session \<Rightarrow> 'w \<Rightarrow> (('p, 't) outcome \<times> session \<times> 'w) option" where
  "update_during depth ca changes work s w =
     map_option (guarded_outcome ca)
       (update_during_unguarded (session_update depth ca changes) ca changes work s w)"

section \<open>Retained demand runs\<close>

text \<open>A demand group is a non-empty run; its path is that of its first demand.\<close>

definition group_path :: "entity_demand list \<Rightarrow> str" where
  "group_path demands = loc_path (ed_location (hd demands))"

definition foreign_location :: "entity_demand list \<Rightarrow> str option" where
  "foreign_location demands =
     List.find (\<lambda>candidate. candidate \<noteq> group_path demands) (map (\<lambda>d. loc_path (ed_location d)) demands)"

fun reject_foreign_locations :: "entity_demand list list \<Rightarrow> session_error + unit" where
  "reject_foreign_locations [] = Inr ()"
| "reject_foreign_locations (run # groups) =
     (case foreign_location run of
        Some foreign \<Rightarrow> Inl (InvalidResponse (ForeignLocation (group_path run) foreign))
      | None \<Rightarrow> reject_foreign_locations groups)"

fun reject_duplicates :: "str set \<Rightarrow> entity_demand list list \<Rightarrow> session_error + str set" where
  "reject_duplicates present [] = Inr present"
| "reject_duplicates present (run # groups) =
     (if group_path run \<in> present then Inl (InvalidResponse (DuplicateGroup (group_path run)))
      else reject_duplicates (insert (group_path run) present) groups)"

text \<open>The first part of \<^verbatim>\<open>analyze_groups_unguarded\<close>: which runs to send and which paths to drop.\<close>

definition demand_delta ::
    "session \<Rightarrow> entity_demand list list \<Rightarrow> session_error + entity_demand list list \<times> str list" where
  "demand_delta s groups =
     rbind (ensure_open s) (\<lambda>_.
     rbind (reject_duplicates {} groups) (\<lambda>present.
     let (changed, removed) =
       (if sn_state_token s = [] then (groups, [])
        else
          (filter (\<lambda>run. map_of (sn_retained_demands s) (group_path run) \<noteq> Some run) groups,
           sort (filter (\<lambda>path. path \<notin> present) (map fst (sn_retained_demands s)))))
     in rbind (reject_foreign_locations changed) (\<lambda>_.
        Inr (sort_key group_path changed, removed))))"

definition retain_changed_groups ::
    "entity_demand list list \<Rightarrow> str list \<Rightarrow> (str \<times> entity_demand list) list \<Rightarrow> (str \<times> entity_demand list) list" where
  "retain_changed_groups changed removed retained =
     fold (\<lambda>run. AList.update (group_path run) run) changed (fold AList.delete removed retained)"

definition retain_all_groups :: "entity_demand list list \<Rightarrow> (str \<times> entity_demand list) list" where
  "retain_all_groups groups = fold (\<lambda>run. AList.update (group_path run) run) groups []"

section \<open>The replay history\<close>

abbreviation batch_paths :: "file_change list \<Rightarrow> str set" where
  "batch_paths batch \<equiv> fc_path ` set batch"

text \<open>The newest overlay of each path, which is all a replayed generation depends on.\<close>

definition overlays :: "file_change list list \<Rightarrow> str \<rightharpoonup> file_change" where
  "overlays batches = fold (fold (\<lambda>change m. m(fc_path change \<mapsto> change))) batches Map.empty"

definition replay_inv :: "session \<Rightarrow> bool" where
  "replay_inv s \<longleftrightarrow>
     (\<forall>path i. sn_replay_index s path = Some i \<longleftrightarrow>
        i < length (sn_replay_batches s) \<and> path \<in> batch_paths (sn_replay_batches s ! i))
     \<and> sn_generation s = of_nat (Suc (length (sn_replay_batches s)))"

lemma find_append: "List.find P (xs @ ys) = (case List.find P xs of None \<Rightarrow> List.find P ys | Some x \<Rightarrow> Some x)"
  by (induction xs) auto

lemma fold_overlay:
  "fold (\<lambda>change m. m(fc_path change \<mapsto> change)) batch m path
   = (case List.find (\<lambda>change. fc_path change = path) (rev batch) of None \<Rightarrow> m path | Some change \<Rightarrow> Some change)"
  by (induction batch arbitrary: m) (auto simp: find_append split: option.splits)

lemma overlays_find: "overlays batches path = List.find (\<lambda>change. fc_path change = path) (rev (concat batches))"
proof -
  have "fold (fold (\<lambda>change m. m(fc_path change \<mapsto> change))) batches m
      = fold (\<lambda>change m. m(fc_path change \<mapsto> change)) (concat batches) m" for m
    by (induction batches arbitrary: m) auto
  then show ?thesis by (simp add: overlays_def fold_overlay split: option.splits)
qed

lemma find_filter_other:
  "path \<notin> paths \<Longrightarrow> List.find (\<lambda>change. fc_path change = path) (filter (\<lambda>kept. fc_path kept \<notin> paths) batch)
   = List.find (\<lambda>change. fc_path change = path) batch"
  by (induction batch) auto

lemma overlays_superseded:
  "overlays (map (filter (\<lambda>kept. fc_path kept \<notin> batch_paths changes)) batches @ [changes]) = overlays (batches @ [changes])"
proof
  fix path
  have concat: "rev (concat (map (filter P) bs)) = filter P (rev (concat bs))" for P and bs :: "file_change list list"
    by (simp add: filter_concat [symmetric] rev_filter)
  have "List.find (\<lambda>change. fc_path change = path) (rev changes) = None \<longleftrightarrow> path \<notin> batch_paths changes"
    by (auto simp: find_None_iff)
  then show "overlays (map (filter (\<lambda>kept. fc_path kept \<notin> batch_paths changes)) batches @ [changes]) path
      = overlays (batches @ [changes]) path"
    by (cases "path \<in> batch_paths changes")
      (auto simp: overlays_find find_append concat find_filter_other split: option.split)
qed

definition superseding :: "session \<Rightarrow> str set \<Rightarrow> bool" where
  "superseding s done \<longleftrightarrow>
     (\<forall>path i. sn_replay_index s path = Some i \<longleftrightarrow>
        (if path \<in> done then i = length (sn_replay_batches s)
         else i < length (sn_replay_batches s) \<and> path \<in> batch_paths (sn_replay_batches s ! i)))
     \<and> (\<forall>batch\<in>set (sn_replay_batches s). batch_paths batch \<inter> done = {})"

lemma supersede_overlay_step:
  assumes "superseding s done" and nx: "next = length (sn_replay_batches s)"
  shows "supersede_overlay next change s = s
    \<lparr>sn_replay_index := (sn_replay_index s)(fc_path change \<mapsto> next),
     sn_replay_batches := map (filter (\<lambda>kept. fc_path kept \<noteq> fc_path change)) (sn_replay_batches s)\<rparr>"
    (is "_ = s\<lparr>sn_replay_index := ?index, sn_replay_batches := ?batches\<rparr>")
    and "superseding (supersede_overlay next change s) (insert (fc_path change) done)"
proof -
  let ?p = "fc_path change" and ?bs = "sn_replay_batches s"
  have clean: "\<forall>batch\<in>set ?bs. batch_paths batch \<inter> done = {}"
    and index: "\<And>path i. sn_replay_index s path = Some i \<longleftrightarrow> (if path \<in> done then i = length ?bs
      else i < length ?bs \<and> path \<in> batch_paths (?bs ! i))"
    using assms(1) by (auto simp: superseding_def)
  have keep: "map (filter (\<lambda>kept. fc_path kept \<noteq> ?p)) ?bs = ?bs" if "\<forall>batch\<in>set ?bs. ?p \<notin> batch_paths batch"
    using that by (intro map_idI) (metis (mono_tags, lifting) filter_id_conv imageI)
  show step: "supersede_overlay next change s = s\<lparr>sn_replay_index := ?index, sn_replay_batches := ?batches\<rparr>"
  proof (cases "sn_replay_index s ?p")
    case None
    then have "?p \<notin> done" using index [of ?p "length ?bs"] by auto
    then have "\<forall>batch\<in>set ?bs. ?p \<notin> batch_paths batch"
      using index [of ?p] None by (metis in_set_conv_nth option.distinct(1))
    with None keep show ?thesis by (simp add: supersede_overlay_def Let_def)
  next
    case (Some b)
    show ?thesis
    proof (cases "?p \<in> done")
      case True
      with clean have "\<forall>batch\<in>set ?bs. ?p \<notin> batch_paths batch" by blast
      moreover have "b = length ?bs" using Some index [of ?p b] True by simp
      ultimately show ?thesis using Some keep by (simp add: supersede_overlay_def Let_def)
    next
      case False
      then have b: "b < length ?bs" using Some index [of ?p b] by simp
      have "?bs[b := filter (\<lambda>kept. fc_path kept \<noteq> ?p) (?bs ! b)] = ?batches"
      proof (rule nth_equalityI)
        fix i
        assume i: "i < length (?bs[b := filter (\<lambda>kept. fc_path kept \<noteq> ?p) (?bs ! b)])"
        have "?p \<notin> batch_paths (?bs ! i)" if "i \<noteq> b"
          using that i Some index [of ?p i] False by auto
        then have "filter (\<lambda>kept. fc_path kept \<noteq> ?p) (?bs ! i) = ?bs ! i" if "i \<noteq> b"
          using that by (metis (mono_tags, lifting) filter_id_conv imageI)
        with i show "?bs[b := filter (\<lambda>kept. fc_path kept \<noteq> ?p) (?bs ! b)] ! i = ?batches ! i"
          by (cases "i = b") auto
      qed simp
      with Some b show ?thesis by (simp add: supersede_overlay_def Let_def)
    qed
  qed
  show "superseding (supersede_overlay next change s) (insert ?p done)"
  proof -
    have kept: "batch_paths (filter (\<lambda>kept. fc_path kept \<noteq> ?p) batch) = batch_paths batch - {?p}" for batch by auto
    have "?index path = Some i \<longleftrightarrow> (if path \<in> insert ?p done then i = length ?batches
        else i < length ?batches \<and> path \<in> batch_paths (?batches ! i))" for path i
    proof (cases "path = ?p")
      case False
      then show ?thesis
        using index [of path i] by (cases "i < length ?bs") (auto simp: kept simp del: set_filter)
    qed (auto simp: nx)
    moreover have "\<forall>batch\<in>set ?batches. batch_paths batch \<inter> insert ?p done = {}"
      using clean by (auto simp: kept simp del: set_filter)
    ultimately show ?thesis unfolding superseding_def step by simp
  qed
qed

lemma supersede_fold:
  assumes "superseding s done" "next = length (sn_replay_batches s)"
  shows "fold (supersede_overlay next) changes s = s
    \<lparr>sn_replay_index := (\<lambda>path. if path \<in> batch_paths changes then Some next else sn_replay_index s path),
     sn_replay_batches := map (filter (\<lambda>kept. fc_path kept \<notin> batch_paths changes)) (sn_replay_batches s)\<rparr>"
  using assms
proof (induction changes arbitrary: s "done")
  case Nil
  then show ?case by simp
next
  case (Cons change changes)
  let ?s = "supersede_overlay next change s"
  note step = supersede_overlay_step [OF Cons.prems]
  have "fold (supersede_overlay next) changes ?s = ?s
    \<lparr>sn_replay_index := (\<lambda>path. if path \<in> batch_paths changes then Some next else sn_replay_index ?s path),
     sn_replay_batches := map (filter (\<lambda>kept. fc_path kept \<notin> batch_paths changes)) (sn_replay_batches ?s)\<rparr>"
    by (rule Cons.IH [OF step(2)]) (simp add: step(1) del: Cons.prems(2), simp add: Cons.prems(2))
  then show ?case
    by (simp add: step(1) comp_def conj_commute fun_eq_iff cong: if_cong)
qed

lemma superseding_start: "replay_inv s \<Longrightarrow> superseding s {}"
  by (auto simp: replay_inv_def superseding_def)

lemma commit_update_eq:
  assumes "replay_inv s"
  shows "commit_update changes s = s
    \<lparr>sn_generation := sn_generation s + 1,
     sn_replay_index := (\<lambda>path. if path \<in> batch_paths changes then Some (length (sn_replay_batches s)) else sn_replay_index s path),
     sn_replay_batches := map (filter (\<lambda>kept. fc_path kept \<notin> batch_paths changes)) (sn_replay_batches s) @ [changes]\<rparr>"
proof -
  let ?s = "s\<lparr>sn_generation := sn_generation s + 1\<rparr>"
  have "superseding ?s {}" using superseding_start [OF assms] by (simp add: superseding_def)
  from supersede_fold [OF this refl, of changes] show ?thesis
    by (simp add: commit_update_def supersede_replayed_overlays_def Let_def cong: if_cong)
qed

lemma commit_update_inv:
  assumes "replay_inv s"
  shows "replay_inv (commit_update changes s)"
proof -
  let ?bs = "sn_replay_batches s" and ?keep = "filter (\<lambda>kept. fc_path kept \<notin> batch_paths changes)"
  have index: "sn_replay_index s path = Some i \<longleftrightarrow> i < length ?bs \<and> path \<in> batch_paths (?bs ! i)" for path i
    using assms by (simp add: replay_inv_def)
  have generation: "sn_generation s = of_nat (Suc (length ?bs))" using assms by (simp add: replay_inv_def)
  have kept: "batch_paths (?keep batch) = batch_paths batch - batch_paths changes" for batch by auto
  have "(if path \<in> batch_paths changes then Some (length ?bs) else sn_replay_index s path) = Some i
      \<longleftrightarrow> i < length (map ?keep ?bs @ [changes]) \<and> path \<in> batch_paths ((map ?keep ?bs @ [changes]) ! i)" for path i
    using index [of path i] by (cases "i < length ?bs") (auto simp: nth_append kept simp del: set_filter)
  then show ?thesis unfolding commit_update_eq [OF assms] replay_inv_def using generation by simp
qed

lemma replay_inv_start: "replay_inv (with_connection producer project)"
  by (simp add: replay_inv_def with_connection_def)

lemma overlays_snoc: "overlays (batches @ [changes]) = fold (\<lambda>change m. m(fc_path change \<mapsto> change)) changes (overlays batches)"
  by (simp add: overlays_def)

lemma commit_history:
  "replay_inv (fold commit_update history (with_connection producer project))
   \<and> overlays (sn_replay_batches (fold commit_update history (with_connection producer project))) = overlays history
   \<and> length (sn_replay_batches (fold commit_update history (with_connection producer project))) = length history"
proof (induction history rule: rev_induct)
  case Nil
  then show ?case by (simp add: replay_inv_start) (simp add: with_connection_def)
next
  case (snoc changes history)
  let ?s = "fold commit_update history (with_connection producer project)"
  have inv: "replay_inv ?s" using snoc.IH by blast
  have "overlays (sn_replay_batches (commit_update changes ?s)) = overlays (sn_replay_batches ?s @ [changes])"
    by (simp add: commit_update_eq [OF inv] overlays_superseded)
  then show ?case
    using snoc.IH commit_update_inv [OF inv, of changes] by (simp add: overlays_snoc commit_update_eq [OF inv])
qed

lemma commit_history_size:
  assumes "\<forall>changes\<in>set history. distinct (map fc_path changes)"
  shows "distinct (map fc_path (concat (sn_replay_batches (fold commit_update history (with_connection producer project)))))
    \<and> batch_paths (concat (sn_replay_batches (fold commit_update history (with_connection producer project))))
      = batch_paths (concat history)"
  using assms
proof (induction history rule: rev_induct)
  case Nil
  then show ?case by (simp add: with_connection_def)
next
  case (snoc changes history)
  let ?s = "fold commit_update history (with_connection producer project)"
  let ?keep = "\<lambda>kept. fc_path kept \<notin> batch_paths changes"
  have inv: "replay_inv ?s" using commit_history by blast
  have rows: "concat (sn_replay_batches (commit_update changes ?s)) = filter ?keep (concat (sn_replay_batches ?s)) @ changes"
    by (simp add: commit_update_eq [OF inv] filter_concat)
  have IH: "distinct (map fc_path (concat (sn_replay_batches ?s)))"
    "batch_paths (concat (sn_replay_batches ?s)) = batch_paths (concat history)"
    using snoc by auto
  have "distinct (map fc_path (filter ?keep (concat (sn_replay_batches ?s))))"
    using IH(1) by (rule distinct_map_filter)
  moreover have "batch_paths (filter ?keep (concat (sn_replay_batches ?s)))
      = batch_paths (concat (sn_replay_batches ?s)) - batch_paths changes" by auto
  moreover have "batch_paths (concat (history @ [changes])) = batch_paths (concat history) \<union> batch_paths changes" by auto
  ultimately show ?case
    using snoc.prems IH(2) unfolding fold_append comp_apply fold_simps id_apply rows map_append set_append image_Un
    by (auto simp del: set_filter set_concat)
qed

section \<open>Restarting\<close>

lemma replay_fields:
  "replay ca batches s w = (r, s', w') \<Longrightarrow>
   (\<exists>generation. s' = s\<lparr>sn_generation := generation\<rparr>)
   \<and> (r = Inr () \<longrightarrow> sn_generation s' = sn_generation s + of_nat (length batches))"
proof (induction ca batches s w rule: replay.induct)
  case (1 ca s w)
  then show ?case by (auto intro!: exI [of _ "sn_generation s"])
next
  case (2 ca changes batches s w)
  show ?case
  proof (cases "exchange_once ca ((new_request OpUpdate (sn_project_id s) (sn_generation s + 1))\<lparr>rq_changes := changes\<rparr>) s w")
    case (Pair response w1)
    show ?thesis
    proof (cases response)
      case (Inl error)
      with Pair 2(2) show ?thesis by (auto intro!: exI [of _ "sn_generation s"])
    next
      case (Inr v)
      with Pair 2 show ?thesis by fastforce
    qed
  qed
qed

lemma clear_fields [simp]:
  "sn_replay_batches (clear_retained_state s) = sn_replay_batches s"
  "sn_replay_index (clear_retained_state s) = sn_replay_index s"
  "sn_generation (clear_retained_state s) = sn_generation s"
  "sn_project_id (clear_retained_state s) = sn_project_id s"
  "sn_producer (clear_retained_state s) = sn_producer s"
  "sn_closed (clear_retained_state s) = sn_closed s"
  "sn_connected (clear_retained_state s) = sn_connected s"
  "sn_restart_epoch (clear_retained_state s) = sn_restart_epoch s"
  "sn_retained_table (clear_retained_state s) = None"
  "sn_state_token (clear_retained_state s) = []"
  "sn_retained_demands (clear_retained_state s) = []"
  by (simp_all add: clear_retained_state_def)

lemma restart_fields:
  assumes "restart_and_replay ca s w = (r, s', w')"
  shows "sn_replay_batches s' = sn_replay_batches s \<and> sn_replay_index s' = sn_replay_index s
    \<and> sn_project_id s' = sn_project_id s \<and> sn_producer s' = sn_producer s \<and> sn_closed s' = sn_closed s
    \<and> (r = Inr () \<longrightarrow> sn_generation s' = of_nat (Suc (length (sn_replay_batches s))) \<and> sn_connected s'
        \<and> sn_restart_epoch s' = sn_restart_epoch s + 1
        \<and> sn_retained_table s' = None \<and> sn_state_token s' = [] \<and> sn_retained_demands s' = [])"
  using assms
  by (auto simp: restart_and_replay_def Let_def split: if_splits prod.splits sum.splits dest!: replay_fields)

lemma restart_inv: "replay_inv s \<Longrightarrow> restart_and_replay ca s w = (Inr (), s', w') \<Longrightarrow> replay_inv s' \<and> sn_generation s' = sn_generation s"
  using restart_fields [of ca s w "Inr ()" s' w'] by (auto simp: replay_inv_def)

section \<open>One update\<close>

definition same_history :: "session \<Rightarrow> session \<Rightarrow> bool" where
  "same_history s t \<longleftrightarrow> sn_replay_batches s = sn_replay_batches t \<and> sn_replay_index s = sn_replay_index t"

lemma commit_same_history:
  assumes "replay_inv s" "replay_inv t" "same_history s t"
  shows "same_history (commit_update changes s) (commit_update changes t)
    \<and> sn_generation (commit_update changes s) = sn_generation t + 1"
  using assms(3) assms(1,2) unfolding commit_update_eq [OF assms(1)] commit_update_eq [OF assms(2)] same_history_def
  by (simp add: replay_inv_def cong: if_cong)

text \<open>Whether an update that started in \<open>s\<close> is recorded in \<open>s'\<close>.\<close>

definition recorded :: "file_change list \<Rightarrow> session \<Rightarrow> session \<Rightarrow> bool" where
  "recorded changes s s' \<longleftrightarrow> same_history s' (commit_update changes s) \<and> sn_generation s' = sn_generation s + 1"

lemma finish_update_records:
  assumes inv: "replay_inv s" and run: "finish_update ca sent changes s w = (r, s', w')"
  shows "sn_producer s' = sn_producer s \<and> (r = Inr () \<longrightarrow> recorded changes s s') \<and> (\<forall>e. r = Inl e \<longrightarrow> same_history s' s)"
proof -
  have committed: "recorded changes s (t\<lparr>sn_last_update_graph := g\<rparr>)" if "t = commit_update changes u" "replay_inv u" "same_history u s" for t u g
    using commit_same_history [OF that(2) inv that(3)] that(1) by (simp add: recorded_def same_history_def)
  have producer: "sn_producer (commit_update changes u) = sn_producer u" if "replay_inv u" for u
    by (simp add: commit_update_eq [OF that])
  have hist: "same_history s s" by (simp add: same_history_def)
  show ?thesis
  proof (cases "sn_connected s")
    case False
    with run hist show ?thesis by (auto simp: finish_update_def)
  next
    case True
    obtain outcome w1 where wait: "ca_wait ca sent w = (outcome, w1)" by fastforce
    define checked where "checked = rbind outcome (\<lambda>response.
      rbind (validate_response_identity response (sn_project_id s) (sn_generation s + 1)) (\<lambda>_. Inr response))"
    show ?thesis
    proof (cases checked)
      case (Inr response)
      with run True wait have "s' = (commit_update changes s)\<lparr>sn_last_update_graph := Some \<lparr>ug_epoch = sn_restart_epoch (commit_update changes s),
            ug_generation = sn_generation (commit_update changes s), ug_kept = rs_graph_kept response\<rparr>\<rparr>" "r = Inr ()"
        by (auto simp: finish_update_def Let_def checked_def [symmetric])
      with committed [OF refl inv hist] producer [OF inv] show ?thesis by simp
    next
      case (Inl error)
      show ?thesis
      proof (cases "is_transport_failure error \<and> can_recover s")
        case False
        with run True wait Inl hist show ?thesis
          by (auto simp: finish_update_def Let_def checked_def [symmetric])
      next
        case recover: True
        obtain q t w2 where restart: "restart_and_replay ca s w1 = (q, t, w2)" by (metis prod_cases3)
        have t: "same_history t s" "sn_producer t = sn_producer s" using restart_fields [OF restart] by (simp_all add: same_history_def)
        show ?thesis
        proof (cases q)
          case (Inl e)
          with run True wait \<open>checked = Inl error\<close> recover restart t show ?thesis
            by (auto simp: finish_update_def Let_def checked_def [symmetric])
        next
          case (Inr u)
          then have tinv: "replay_inv t" using restart_inv [OF inv, of ca w1 t w2] restart by simp
          obtain x w3 where retry: "exchange_once ca ((new_request OpUpdate (sn_project_id t) (sn_generation t + 1))\<lparr>rq_changes := changes\<rparr>) t w2 = (x, w3)"
            by fastforce
          have "(r, s', w') = (case x of Inl error \<Rightarrow> (Inl error, t, w3)
              | Inr _ \<Rightarrow> (Inr (), (commit_update changes t)\<lparr>sn_last_update_graph := None\<rparr>, w3))"
            using run True wait \<open>checked = Inl error\<close> recover restart Inr retry
            by (auto simp: finish_update_def Let_def checked_def [symmetric] split: sum.splits)
          with committed [OF refl tinv t(1)] producer [OF tinv] t show ?thesis by (cases x) auto
        qed
      qed
    qed
  qed
qed

lemma guard_history:
  "guard_failure ca r s w = (s', w') \<Longrightarrow> same_history s' s \<and> sn_generation s' = sn_generation s"
  by (auto simp: guard_failure_def same_history_def Let_def split: sum.splits if_splits)

lemma same_history_trans: "same_history a b \<Longrightarrow> same_history b c \<Longrightarrow> same_history a c"
  by (simp add: same_history_def)

lemma recorded_guard:
  "recorded changes s t \<Longrightarrow> same_history t' t \<Longrightarrow> sn_generation t' = sn_generation t \<Longrightarrow> recorded changes s t'"
  by (auto simp: recorded_def intro: same_history_trans)

lemma recorded_restart:
  assumes "replay_inv s" "replay_inv t" "same_history t s" "sn_generation t = sn_generation s" "recorded changes t u"
  shows "recorded changes s u"
  using commit_same_history [OF assms(2,1,3), of changes] assms(4,5)
  by (auto simp: recorded_def intro: same_history_trans)

lemma unguarded_records:
  assumes upd: "\<And>s w r s' w'. replay_inv s \<Longrightarrow> upd s w = Some (r, s', w') \<Longrightarrow>
      (r = Inr () \<longrightarrow> recorded changes s s') \<and> (\<forall>e. r = Inl e \<longrightarrow> same_history s' s)"
    and inv: "replay_inv s" and ne: "changes \<noteq> []"
    and run: "update_during_unguarded upd ca changes work s w = Some (out, t, w1)"
  shows "(\<forall>v. out = Returned (Inr v) \<longrightarrow> recorded changes s t) \<and> (\<forall>e. out = Returned (Inl e) \<longrightarrow> same_history t s)"
proof (cases "ensure_open s")
  have hist: "same_history s s" by (simp add: same_history_def)
  {
    case (Inl e)
    with run hist show ?thesis by (auto simp: update_during_unguarded_def)
  next
    case (Inr u)
    obtain sent w2 where send: "send_once ca ((new_request OpUpdate (sn_project_id s) (sn_generation s + 1))\<lparr>rq_changes := changes\<rparr>) s w = (sent, w2)"
      by fastforce
    note unfolds = update_during_unguarded_def Let_def Inr send
    show ?thesis
    proof (cases sent)
      case sent: (Inr ident)
      obtain f t' w3 where finish: "finish_update ca ident changes s w2 = (f, t', w3)" by (metis prod_cases3)
      from run sent finish ne
      have "t = t'" "out = (case work of Inl p \<Rightarrow> Panicked p | Inr v \<Rightarrow> Returned (rbind f (\<lambda>_. Inr v)))"
        by (auto simp: unfolds)
      with finish_update_records [OF inv finish] show ?thesis by (cases f) (auto split: sum.splits)
    next
      case failed: (Inl error)
      obtain q t' w3 where restart: "restart_and_replay ca s w2 = (q, t', w3)" by (metis prod_cases3)
      have t': "same_history t' s" using restart_fields [OF restart] by (simp add: same_history_def)
      show ?thesis
      proof (cases "is_transport_failure error \<and> can_recover s \<and> (\<exists>v. q = Inr v) \<and> (\<exists>v. work = Inr v)")
        case False
        with run failed ne restart hist t' show ?thesis
          by (auto simp: unfolds split: if_splits sum.splits)
      next
        case True
        then obtain v where v: "work = Inr v" "q = Inr ()" by auto
        have tinv: "replay_inv t'" "sn_generation t' = sn_generation s"
          using restart_inv [OF inv, of ca w2 t' w3] restart v(2) by simp_all
        obtain r u w4 where u: "upd t' w3 = Some (r, u, w4)"
          and out: "(out, t, w1) = (case r of Inl error \<Rightarrow> (Returned (Inl error), u, w4)
            | Inr _ \<Rightarrow> (Returned (Inr v), u\<lparr>sn_last_update_graph := None\<rparr>, w4))"
          using run failed ne True restart v by (auto simp: unfolds)
        from upd [OF tinv(1) u] out t' recorded_restart [OF inv tinv(1) t' tinv(2)] show ?thesis
          by (cases r) (auto simp: recorded_def same_history_def)
      qed
    qed
  }
qed

lemma guarded_records:
  assumes "guarded_outcome ca (out, t, w) = (out', s', w')"
    and "(\<forall>v. out = Returned (Inr v) \<longrightarrow> recorded changes s t) \<and> (\<forall>e. out = Returned (Inl e) \<longrightarrow> same_history t s)"
  shows "out' = out \<and> (\<forall>v. out = Returned (Inr v) \<longrightarrow> recorded changes s s') \<and> (\<forall>e. out = Returned (Inl e) \<longrightarrow> same_history s' s)"
proof (cases out)
  case (Returned v)
  then have "out' = out" "same_history s' t \<and> sn_generation s' = sn_generation t"
    using assms(1) guard_history [of ca v t w s' w'] by (auto simp: guarded_outcome_def)
  with assms(2) show ?thesis by (auto intro: recorded_guard same_history_trans)
qed (use assms in \<open>auto simp: guarded_outcome_def\<close>)

lemma unguarded_returns:
  assumes "update_during_unguarded upd ca changes (Inr v) s w = Some (out, t, w1)"
  shows "\<exists>r. out = Returned r"
proof (rule ccontr)
  assume "\<nexists>r. out = Returned r"
  then obtain p where p: "out = Panicked p" by (cases out) auto
  have shape: "(case r of Inl e \<Rightarrow> (Returned (Inl e), s, w) | Inr (x :: unit) \<Rightarrow> (Returned (Inr v), s', w')) = (Panicked p, t, w1) \<Longrightarrow> False"
    for r s s' w w' by (cases r) auto
  show False
    using assms p by (auto simp: update_during_unguarded_def Let_def split: sum.splits if_splits prod.splits dest!: shape)
      (metis old.unit.exhaust sum.exhaust)
qed

lemma session_update_records:
  assumes "replay_inv s" "changes \<noteq> []" "session_update depth ca changes s w = Some (r, s', w')"
  shows "(r = Inr () \<longrightarrow> recorded changes s s') \<and> (\<forall>e. r = Inl e \<longrightarrow> same_history s' s)"
  using assms(1,3)
proof (induction depth arbitrary: s w r s' w')
  case (Suc depth)
  obtain out t w1 where run: "update_during_unguarded (session_update depth ca changes) ca changes (Inr () :: unit + unit) s w
      = Some (out, t, w1)" and guarded: "\<exists>out'. guarded_outcome ca (out, t, w1) = (out', s', w')
        \<and> r = (case out' of Returned v \<Rightarrow> v | Panicked _ \<Rightarrow> Inr ())"
    using Suc.prems(2) by auto
  obtain v where v: "out = Returned v" using unguarded_returns [OF run] by blast
  obtain out' where out': "guarded_outcome ca (out, t, w1) = (out', s', w')"
    and r: "r = (case out' of Returned v \<Rightarrow> v | Panicked _ \<Rightarrow> Inr ())" using guarded by blast
  have "out' = out \<and> (\<forall>v. out = Returned (Inr v) \<longrightarrow> recorded changes s s') \<and> (\<forall>e. out = Returned (Inl e) \<longrightarrow> same_history s' s)"
    by (rule guarded_records [OF out' unguarded_records [OF _ Suc.prems(1) assms(2) run]]) (rule Suc.IH)
  with r v show ?case by auto
qed simp


lemma finish_update_bridged:
  assumes "finish_update ca sent changes s w = (r, s', w')" "\<not> sn_producer s"
  shows "sn_producer s' = sn_producer s"
proof -
  have fold: "sn_producer (fold (supersede_overlay n) changes t) = sn_producer t" for n t
    by (induction changes arbitrary: t) (simp_all add: supersede_overlay_def Let_def split: option.split)
  show ?thesis
    using assms
    by (auto simp: finish_update_def Let_def can_recover_def commit_update_def supersede_replayed_overlays_def fold
        split: prod.splits sum.splits if_splits)
qed

section \<open>Properties\<close>

text \<open>C24. Replaying what a session keeps rebuilds its project: after any sequence of accepted updates, the kept
  batches give every path the overlay that the complete history gives it, there is one batch and one
  generation per update, and the replay index names for every path the batch that holds its overlay.\<close>

theorem replay_history:
  "overlays (sn_replay_batches (fold commit_update history (with_connection producer project))) = overlays history
   \<and> length (sn_replay_batches (fold commit_update history (with_connection producer project))) = length history
   \<and> replay_inv (fold commit_update history (with_connection producer project))"
  using commit_history by blast

text \<open>C25. The replay history does not grow with the number of edits: when every update names a path at most
  once, the kept batches together hold exactly one change for every path that was ever changed.\<close>

theorem replay_history_bounded:
  assumes "\<forall>changes\<in>set history. distinct (map fc_path changes)"
  shows "length (concat (sn_replay_batches (fold commit_update history (with_connection producer project))))
    = card (batch_paths (concat history))"
proof -
  let ?kept = "concat (sn_replay_batches (fold commit_update history (with_connection producer project)))"
  have kept: "distinct (map fc_path ?kept)" "batch_paths ?kept = batch_paths (concat history)"
    using commit_history_size [OF assms] by blast+
  from kept(1) have "card (batch_paths ?kept) = length ?kept" using distinct_card [of "map fc_path ?kept"] by simp
  with kept(2) show ?thesis by simp
qed

definition ex_change :: "str \<Rightarrow> u64 \<Rightarrow> file_change" where
  "ex_change path version = \<lparr>fc_path = path, fc_source = [], fc_deleted = False, fc_version = version\<rparr>"

lemma replay_history_bounded_witness:
  "length (concat (sn_replay_batches (fold commit_update
     [[ex_change ''a'' 1, ex_change ''b'' 1], [ex_change ''a'' 2]] (with_connection True ''p'')))) = 2"
proof -
  let ?history = "[[ex_change ''a'' 1, ex_change ''b'' 1], [ex_change ''a'' 2]]"
  have "\<forall>changes\<in>set ?history. distinct (map fc_path changes)" by (simp add: ex_change_def)
  from replay_history_bounded [OF this, of True "''p''"]
  have "length (concat (sn_replay_batches (fold commit_update ?history (with_connection True ''p''))))
      = card (batch_paths (concat ?history))" .
  also have "batch_paths (concat ?history) = {''a'', ''b''}" by (auto simp: ex_change_def)
  finally show ?thesis by simp
qed

text \<open>
  A producer that accepts every request: \<open>log\<close> reads off the requests that the last launched producer
  was sent.
\<close>

definition accepting :: "'w carrier \<Rightarrow> ('w \<Rightarrow> request list) \<Rightarrow> bool" where
  "accepting ca log \<longleftrightarrow>
     (\<forall>project w. \<exists>w'. ca_spawn ca project w = (Inr (), w') \<and> log w' = [])
     \<and> (\<forall>w. log (ca_terminate ca w) = log w)
     \<and> (\<forall>request w. \<exists>response w'. ca_exchange ca request w = (Inr response, w') \<and> log w' = log w @ [request]
          \<and> rs_schema response = type_facts_schema_v1 \<and> rs_project_id response = rq_project_id request
          \<and> rs_generation response = rq_generation request)"

text \<open>The requests of a restart: the project is opened, then every batch is one update.\<close>

definition replay_requests :: "str \<Rightarrow> nat \<Rightarrow> file_change list list \<Rightarrow> request list" where
  "replay_requests project generation batches =
     map2 (\<lambda>i changes. (new_request OpUpdate project (of_nat i))\<lparr>rq_changes := changes\<rparr>)
       [generation..<generation + length batches] batches"

lemma replay_requests_Cons:
  "replay_requests project n (changes # batches) =
   (new_request OpUpdate project (of_nat n))\<lparr>rq_changes := changes\<rparr> # replay_requests project (Suc n) batches"
  by (simp add: replay_requests_def upt_rec [of n] Suc_le_eq)

lemma accepting_exchange:
  assumes "accepting ca log" "sn_connected s" "rq_operation request \<noteq> OpSymbols" "rq_project_id request = sn_project_id s"
  obtains response w' where "exchange_once ca request s w = (Inr response, w')" "log w' = log w @ [request]"
proof -
  obtain response w' where "ca_exchange ca request w = (Inr response, w')" "log w' = log w @ [request]"
    "rs_schema response = type_facts_schema_v1" "rs_project_id response = rq_project_id request"
    "rs_generation response = rq_generation request"
    using assms(1) unfolding accepting_def by metis
  then show thesis using assms(2-) that
    by (simp add: exchange_once_def validate_response_identity_def unpack_evidence_def)
qed

lemma new_request_fields [simp]:
  "rq_operation (new_request op project generation) = op"
  "rq_project_id (new_request op project generation) = project"
  by (simp_all add: new_request_def)

lemma accepting_replay:
  assumes "accepting ca log" "sn_connected s" "sn_generation s = of_nat n"
  shows "\<exists>w'. replay ca batches s w = (Inr (), s\<lparr>sn_generation := of_nat (n + length batches)\<rparr>, w')
    \<and> log w' = log w @ replay_requests (sn_project_id s) (Suc n) batches"
  using assms(2,3)
proof (induction batches arbitrary: s w n)
  case Nil
  then show ?case by (simp add: replay_requests_def)
next
  case (Cons changes batches)
  let ?request = "(new_request OpUpdate (sn_project_id s) (sn_generation s + 1))\<lparr>rq_changes := changes\<rparr>"
  obtain response w1 where sent: "exchange_once ca ?request s w = (Inr response, w1)" "log w1 = log w @ [?request]"
    by (rule accepting_exchange [OF assms(1), of s ?request w]) (use Cons.prems in simp_all)
  have request: "sn_generation s + 1 = of_nat (Suc n)" using Cons.prems by simp
  obtain w' where "replay ca batches (s\<lparr>sn_generation := of_nat (Suc n)\<rparr>) w1
      = (Inr (), s\<lparr>sn_generation := of_nat (Suc n + length batches)\<rparr>, w')"
    "log w' = log w1 @ replay_requests (sn_project_id s) (Suc (Suc n)) batches"
    using Cons.IH [of "s\<lparr>sn_generation := of_nat (Suc n)\<rparr>" "Suc n" w1] Cons.prems by auto
  with sent request show ?case by (simp add: replay_requests_Cons del: of_nat_Suc)
qed

text \<open>C26. A restart into a producer that accepts succeeds: the new process is sent the open request and then
  every kept batch, in order, at the generations 2, 3, and so on, and nothing else; the session ends at the
  generation it reported before, connected, with nothing retained.\<close>

theorem restart_replays:
  assumes "accepting ca log" "replay_inv s" "sn_producer s" "sn_restart_epoch s \<noteq> - 1"
  shows "\<exists>s' w'. restart_and_replay ca s w = (Inr (), s', w')
    \<and> log w' = new_request OpOpen (sn_project_id s) 1 # replay_requests (sn_project_id s) 2 (sn_replay_batches s)
    \<and> sn_generation s' = sn_generation s \<and> sn_connected s' \<and> sn_restart_epoch s' = sn_restart_epoch s + 1
    \<and> sn_retained_table s' = None \<and> sn_state_token s' = [] \<and> sn_retained_demands s' = []"
proof -
  obtain w1 where spawn: "ca_spawn ca (sn_project_id s) w = (Inr (), w1)" "log w1 = []"
    using assms(1) unfolding accepting_def by blast
  define w2 where "w2 = (if sn_connected s then ca_terminate ca w1 else w1)"
  have w2: "log w2 = []" using assms(1) spawn(2) by (simp add: accepting_def w2_def)
  define t where "t = clear_retained_state (s\<lparr>sn_connected := True, sn_restart_epoch := sn_restart_epoch s + 1,
    sn_generation := 1, sn_last_update_graph := None\<rparr>)"
  have t: "sn_connected t" "sn_project_id t = sn_project_id s" "sn_replay_batches t = sn_replay_batches s"
    "sn_generation t = of_nat 1" by (simp_all add: t_def)
  obtain response w3 where opened: "exchange_once ca (new_request OpOpen (sn_project_id s) 1) t w2 = (Inr response, w3)"
    "log w3 = [new_request OpOpen (sn_project_id s) 1]"
    by (rule accepting_exchange [OF assms(1), of t "new_request OpOpen (sn_project_id s) 1" w2]) (use t w2 in simp_all)
  obtain s' w' where run: "replay ca (sn_replay_batches s) t w3 = (Inr (), s', w')"
    "log w' = new_request OpOpen (sn_project_id s) 1 # replay_requests (sn_project_id s) 2 (sn_replay_batches s)"
    using accepting_replay [OF assms(1) t(1,4), of "sn_replay_batches s" w3] opened(2) t(2)
    by (auto simp: numeral_2_eq_2)
  have "restart_and_replay ca s w = (Inr (), s', w')"
    using spawn(1) opened(1) run(1) assms(3,4) t(2,3)
    by (simp add: restart_and_replay_def Let_def w2_def [symmetric] t_def [symmetric])
  with run(2) restart_fields [of ca s w "Inr ()" s' w'] restart_inv [OF assms(2), of ca w s' w'] show ?thesis by blast
qed

text \<open>A producer that logs and accepts: the world is the log and the number of the last request.\<close>

definition ex_reply :: "request \<Rightarrow> response" where
  "ex_reply request = \<lparr>rs_ok = True, rs_error = None, rs_schema = type_facts_schema_v1, rs_graph_kept = False,
     rs_project_id = rq_project_id request, rs_request_id = rq_request_id request,
     rs_generation = rq_generation request, rs_state_token = [], rs_symbol_evidence = [],
     rs_table_transition = [], rs_strict_null_checks = None\<rparr>"

definition logging :: "request list carrier" where
  "logging =
     \<lparr>ca_spawn = (\<lambda>_ _. (Inr (), [])),
      ca_send = (\<lambda>request log. (Inr (of_nat (length log)), log @ [request])),
      ca_wait = (\<lambda>_ log. (Inr (ex_reply (last log)), log)),
      ca_terminate = (\<lambda>log. log)\<rparr>"

lemma logging_accepting: "accepting logging (\<lambda>log. log)"
  by (simp add: accepting_def logging_def ca_exchange_def ex_reply_def)

lemma restart_replays_witness:
  "\<exists>s' w'. restart_and_replay logging (commit_update [ex_change ''a'' 1] (with_connection True ''p'')) [] = (Inr (), s', w')
    \<and> w' = [new_request OpOpen ''p'' 1, (new_request OpUpdate ''p'' 2)\<lparr>rq_changes := [ex_change ''a'' 1]\<rparr>]
    \<and> sn_generation s' = 2"
proof -
  let ?s = "commit_update [ex_change ''a'' 1] (with_connection True ''p'')"
  have s: "replay_inv ?s" by (rule commit_update_inv [OF replay_inv_start])
  have fields: "sn_producer ?s" "sn_restart_epoch ?s \<noteq> - 1" "sn_project_id ?s = ''p''"
    "sn_replay_batches ?s = [[ex_change ''a'' 1]]" "sn_generation ?s = 2"
    by (simp_all add: commit_update_eq [OF replay_inv_start]) (simp_all add: with_connection_def)
  from restart_replays [OF logging_accepting s fields(1,2), of "[]"] show ?thesis
    unfolding fields(3-) by (fastforce simp: replay_requests_def)
qed





text \<open>C29. The first failure of a bridged session closes it for good: after an update that returns an error the
  session is closed and disconnected and retains nothing, and every later update returns \<^verbatim>\<open>Closed\<close> without
  touching the session or its bridge.\<close>

theorem bridged_failure_closes:
  assumes "\<not> sn_producer s" "update_during depth ca changes work s w = Some (Returned (Inl e), s', w')"
  shows "sn_closed s' \<and> \<not> sn_connected s' \<and> sn_retained_table s' = None \<and> sn_state_token s' = []
    \<and> sn_retained_demands s' = []
    \<and> update_during depth' ca changes' work' s' w'' = Some (Returned (Inl Closed), s', w'')"
proof -
  obtain u t w1 where run: "update_during_unguarded (session_update depth ca changes) ca changes work s w = Some (u, t, w1)"
    and out: "guarded_outcome ca (u, t, w1) = (Returned (Inl e), s', w')"
    using assms(2) by (auto simp: update_during_def)
  have producer: "sn_producer t = sn_producer s"
    using run assms(1)
    by (auto simp: update_during_unguarded_def Let_def can_recover_def
        split: sum.splits if_splits prod.splits dest: finish_update_bridged)
  have s': "s' = (clear_retained_state t)\<lparr>sn_closed := True, sn_connected := False\<rparr>"
    using out producer assms(1)
    by (auto simp: guarded_outcome_def guard_failure_def can_recover_def Let_def split: outcome.splits)
  have again: "(clear_retained_state s')\<lparr>sn_closed := True, sn_connected := False\<rparr> = s'"
    by (simp add: s' clear_retained_state_def)
  have "update_during depth' ca changes' work' s' w'' = Some (Returned (Inl Closed), s', w'')"
    using producer assms(1) again
    by (simp add: update_during_def update_during_unguarded_def ensure_open_def guarded_outcome_def guard_failure_def
        can_recover_def Let_def s')
  then show ?thesis by (simp add: s')
qed

definition refusing :: "unit carrier" where
  "refusing =
     \<lparr>ca_spawn = (\<lambda>_ w. (Inr (), w)),
      ca_send = (\<lambda>request w. (Inl (ProcessFailed ''gone''), w)),
      ca_wait = (\<lambda>_ w. (Inl (ProcessFailed ''gone''), w)),
      ca_terminate = (\<lambda>w. w)\<rparr>"

lemma bridged_failure_closes_witness:
  "\<exists>s'. update_during 0 refusing [ex_change ''a'' 1] (Inr () :: unit + unit) (with_connection False ''p'') ()
      = Some (Returned (Inl (ProcessFailed ''gone'')), s', ())
    \<and> sn_closed s' \<and> update_during 0 refusing [] (Inr () :: unit + unit) s' () = Some (Returned (Inl Closed), s', ())"
proof -
  have "\<exists>s'. update_during 0 refusing [ex_change ''a'' 1] (Inr () :: unit + unit) (with_connection False ''p'') ()
      = Some (Returned (Inl (ProcessFailed ''gone'')), s', ())"
    by (simp add: update_during_def update_during_unguarded_def guarded_outcome_def guard_failure_def
        refusing_def send_once_def ensure_open_def with_connection_def can_recover_def Let_def)
  then obtain s' where run: "update_during 0 refusing [ex_change ''a'' 1] (Inr () :: unit + unit) (with_connection False ''p'') ()
      = Some (Returned (Inl (ProcessFailed ''gone'')), s', ())" by blast
  have "\<not> sn_producer (with_connection False ''p'')" by (simp add: with_connection_def)
  from bridged_failure_closes [OF this run, of 0 "[]" "Inr () :: unit + unit" "()"] run show ?thesis by blast
qed

text \<open>
  A producer that answers the open request and then dies is relaunched again and again: no nesting below the
  overflow of the restart epoch is enough.
\<close>

definition dying :: "unit carrier" where
  "dying =
     \<lparr>ca_spawn = (\<lambda>_ w. (Inr (), w)),
      ca_send = (\<lambda>request w. (if rq_operation request = OpUpdate then Inl (ProcessFailed ''gone'') else Inr 0, w)),
      ca_wait = (\<lambda>_ w. (Inr (ex_reply (new_request OpOpen ''p'' 1)), w)),
      ca_terminate = (\<lambda>w. w)\<rparr>"

lemma dying_restart:
  assumes "sn_producer s" "sn_restart_epoch s \<noteq> - 1" "sn_replay_batches s = []" "sn_project_id s = ''p''"
  shows "\<exists>s'. restart_and_replay dying s w = (Inr (), s', w) \<and> sn_producer s' \<and> sn_restart_epoch s' = sn_restart_epoch s + 1
    \<and> sn_replay_batches s' = [] \<and> sn_project_id s' = ''p'' \<and> sn_closed s' = sn_closed s \<and> sn_connected s'"
  using assms
  by (simp add: restart_and_replay_def dying_def exchange_once_def ca_exchange_def Let_def ex_reply_def
      validate_response_identity_def unpack_evidence_def new_request_def)

lemma dying_update:
  assumes "sn_producer s" "sn_replay_batches s = []" "sn_project_id s = ''p''" "\<not> sn_closed s" "sn_connected s"
    "unat (sn_restart_epoch s) + depth < 2 ^ 64"
  shows "session_update depth dying [change] s w = None"
  using assms
proof (induction depth arbitrary: s)
  case (Suc depth)
  have bound: "unat (sn_restart_epoch s) \<noteq> 2 ^ 64 - 1" using Suc.prems(6) by simp
  have epoch: "sn_restart_epoch s \<noteq> - 1"
  proof
    assume "sn_restart_epoch s = - 1"
    then have "unat (sn_restart_epoch s) = 2 ^ 64 - 1" by (simp add: unsigned_minus_1_eq_mask mask_eq_exp_minus_1)
    with bound show False by contradiction
  qed
  then have up: "unat (sn_restart_epoch s + 1) = unat (sn_restart_epoch s) + 1"
    by (metis add.commute add_eq_0_iff unatSuc Suc_eq_plus1_left)
  obtain s' where s': "restart_and_replay dying s w = (Inr (), s', w)" "sn_producer s'"
    "sn_restart_epoch s' = sn_restart_epoch s + 1" "sn_replay_batches s' = []" "sn_project_id s' = ''p''"
    "\<not> sn_closed s'" "sn_connected s'"
    using dying_restart [OF Suc.prems(1) epoch Suc.prems(2,3)] Suc.prems(4) by blast
  have "session_update depth dying [change] s' w = None"
    using Suc.IH [of s'] s' up Suc.prems(6) by simp
  moreover have "send_once dying ((new_request OpUpdate (sn_project_id s) (sn_generation s + 1))\<lparr>rq_changes := [change]\<rparr>) s w
      = (Inl (ProcessFailed ''gone''), w)"
    using Suc.prems(5) by (simp add: send_once_def dying_def new_request_def)
  ultimately show ?case using s'(1) Suc.prems(1,4)
    by (simp add: update_during_unguarded_def ensure_open_def Let_def can_recover_def)
qed simp

lemma update_relaunches_without_bound:
  "depth < 2 ^ 64 \<Longrightarrow> session_update depth dying [change] (with_connection True ''p'') w = None"
  by (rule dying_update) (simp_all add: with_connection_def)

lemma fold_update_map_of:
  "map_of (fold (\<lambda>run. AList.update (group_path run) run) runs al) = fold (\<lambda>run m. m(group_path run \<mapsto> run)) runs (map_of al)"
  by (induction runs arbitrary: al) (simp_all add: update_conv')

lemma find_key_None: "List.find (\<lambda>x. f x = k) xs = None \<longleftrightarrow> k \<notin> f ` set xs"
  by (auto simp: find_None_iff)

lemma fold_runs_lookup:
  assumes "distinct (map group_path runs)"
  shows "fold (\<lambda>run m. m(group_path run \<mapsto> run)) runs m path =
    (case List.find (\<lambda>run. group_path run = path) runs of None \<Rightarrow> m path | Some run \<Rightarrow> Some run)"
  using assms
proof (induction runs arbitrary: m)
  case (Cons run runs)
  then have "List.find (\<lambda>r. group_path r = group_path run) runs = None"
    by (simp add: find_key_None)
  with Cons show ?case by (auto split: option.split)
qed simp

lemma fold_delete_map_of: "map_of (fold AList.delete paths al) = (map_of al) |` (- set paths)"
  by (induction paths arbitrary: al) (auto simp: delete_conv restrict_map_def fun_eq_iff)

lemma reject_duplicates_Inr:
  "reject_duplicates present groups = Inr present' \<Longrightarrow>
   present' = present \<union> group_path ` set groups \<and> distinct (map group_path groups) \<and> present \<inter> group_path ` set groups = {}"
  by (induction groups arbitrary: present) (force split: if_splits)+

lemma find_unique:
  assumes "distinct (map f xs)"
  shows "List.find (\<lambda>x. f x = k) xs = Some y \<longleftrightarrow> y \<in> set xs \<and> f y = k"
  using assms by (induction xs) (auto simp: image_iff)

text \<open>C30. Sending only what changed is the same as sending everything: when a demand delta is accepted, the
  retained runs with the changed runs inserted and the removed paths dropped are the runs of a complete
  batch, path by path; and no run that the delta leaves out has changed.\<close>

theorem demand_delta_complete:
  assumes "demand_delta s groups = Inr (changed, removed)"
    and "sn_state_token s = [] \<longrightarrow> sn_retained_demands s = []"
  shows "map_of (retain_changed_groups changed removed (sn_retained_demands s)) = map_of (retain_all_groups groups)
    \<and> (\<forall>run\<in>set groups. run \<notin> set changed \<longrightarrow> map_of (sn_retained_demands s) (group_path run) = Some run)
    \<and> sorted (map group_path changed) \<and> sorted removed"
proof -
  let ?old = "map_of (sn_retained_demands s)"
  define picked where "picked = (if sn_state_token s = [] then groups
    else filter (\<lambda>run. ?old (group_path run) \<noteq> Some run) groups)"
  obtain present where present: "reject_duplicates {} groups = Inr present" and
    changed: "changed = sort_key group_path picked" and
    removed: "removed = (if sn_state_token s = [] then [] else
      sort (filter (\<lambda>path. path \<notin> present) (map fst (sn_retained_demands s))))"
    using assms(1) by (auto simp: demand_delta_def picked_def Let_def rbind_Inr_iff split: if_splits)
  have groups: "distinct (map group_path groups)" "present = group_path ` set groups"
    using reject_duplicates_Inr [OF present] by auto
  have picked: "distinct (map group_path picked)"
    using groups(1) by (simp add: picked_def distinct_map_filter)
  have dist: "distinct (map group_path changed)"
    using picked unfolding changed distinct_map by (simp add: distinct_map)
  have new: "map_of (retain_all_groups groups) path = List.find (\<lambda>run. group_path run = path) groups" for path
    by (simp add: retain_all_groups_def fold_update_map_of fold_runs_lookup [OF groups(1)] split: option.split)
  have kept: "map_of (retain_changed_groups changed removed (sn_retained_demands s)) path =
      (case List.find (\<lambda>run. group_path run = path) changed of
         None \<Rightarrow> if path \<in> set removed then None else ?old path | Some run \<Rightarrow> Some run)" for path
    by (simp add: retain_changed_groups_def fold_update_map_of fold_delete_map_of fold_runs_lookup [OF dist]
        restrict_map_def split: option.split)
  have same: "?old (group_path run) = Some run" if "run \<in> set groups" "run \<notin> set changed" for run
    using that by (auto simp: changed picked_def split: if_splits)
  have "map_of (retain_changed_groups changed removed (sn_retained_demands s)) path = map_of (retain_all_groups groups) path" for path
  proof (cases "List.find (\<lambda>run. group_path run = path) changed")
    case (Some run)
    then have found: "run \<in> set changed" "group_path run = path" by (simp_all add: find_unique [OF dist])
    then have "run \<in> set groups" by (simp add: changed picked_def split: if_splits)
    with found have "List.find (\<lambda>run. group_path run = path) groups = Some run" by (simp add: find_unique [OF groups(1)])
    with Some show ?thesis by (simp add: new kept)
  next
    case None
    then have notin: "run \<notin> set changed" if "group_path run = path" for run using that by (auto simp: find_None_iff)
    show ?thesis
    proof (cases "List.find (\<lambda>run. group_path run = path) groups")
      case found: (Some run)
      then have run: "run \<in> set groups" "group_path run = path" by (simp_all add: find_unique [OF groups(1)])
      have "path \<notin> set removed" using run groups(2) by (auto simp: removed)
      with None found same [OF run(1) notin [OF run(2)]] run(2) show ?thesis by (simp add: new kept)
    next
      case absent: None
      then have "path \<notin> present" using groups(2) by (auto simp: find_None_iff)
      then have "path \<in> set removed \<or> ?old path = None"
        using assms(2) by (auto simp: removed map_of_eq_None_iff)
      with None absent show ?thesis by (auto simp: new kept)
    qed
  qed
  moreover have "sorted (map group_path changed)" "sorted removed" by (simp_all add: changed removed)
  ultimately show ?thesis using same by blast
qed

definition ex_retaining :: session where
  "ex_retaining = (with_connection True ''p'')\<lparr>sn_state_token := ''t'',
     sn_retained_demands := [(''a'', [ex_demand ''a'' 1 None]), (''b'', [ex_demand ''b'' 1 None]), (''c'', [ex_demand ''c'' 1 None])]\<rparr>"

lemma demand_delta_complete_witness:
  "demand_delta ex_retaining [[ex_demand ''b'' 2 None], [ex_demand ''a'' 1 None]]
     = Inr ([[ex_demand ''b'' 2 None]], [''c''])
   \<and> map_of (retain_changed_groups [[ex_demand ''b'' 2 None]] [''c''] (sn_retained_demands ex_retaining))
     = map_of (retain_all_groups [[ex_demand ''b'' 2 None], [ex_demand ''a'' 1 None]])"
proof -
  have run: "demand_delta ex_retaining [[ex_demand ''b'' 2 None], [ex_demand ''a'' 1 None]]
      = Inr ([[ex_demand ''b'' 2 None]], [''c''])"
    by (simp add: demand_delta_def ex_retaining_def with_connection_def ensure_open_def group_path_def ex_demand_def
        plain_demand_def foreign_location_def)
  have "sn_state_token ex_retaining = [] \<longrightarrow> sn_retained_demands ex_retaining = []" by (simp add: ex_retaining_def)
  from demand_delta_complete [OF run this] run show ?thesis by blast
qed


end
