(* ===== verification/TF_Stream.thy ===== *)
theory TF_Stream
  imports TF_Transition
begin

text \<open>
  Streaming a frame to a sink.  The contract of \<^verbatim>\<open>TransitionSink\<close> (\<^verbatim>\<open>producer/encoder.rs\<close>) is the
  locale \<^verbatim>\<open>transition_sink\<close>: a sink collects the rows it accepts, in order.  Inside it, every
  writer of a row is shown to do with a sink what it does without one, up to where the bytes are,
  so that a streamed frame is the buffered one.
\<close>

named_theorems stream_intro

locale transition_sink =
  fixes append_rows :: "u8 list \<Rightarrow> 's \<Rightarrow> (io_error + unit) \<times> 's"
    and finish :: "u8 list \<Rightarrow> 's \<Rightarrow> (io_error + unit) \<times> 's"
    and inv :: "'s \<Rightarrow> bool" and rows :: "'s \<Rightarrow> u8 list" and frame :: "'s \<Rightarrow> u8 list option"
  assumes append_ok: "append_rows chunk s = (Inr (), s') \<Longrightarrow> inv s \<Longrightarrow> inv s' \<and> rows s' = rows s @ chunk"
    and finish_ok: "finish head s = (Inr (), s') \<Longrightarrow> inv s \<Longrightarrow> frame s' = Some (head @ rows s)"
begin

text \<open>\<open>w\<close> buffers what \<open>v\<close> streams: they share the dictionary, and unless the sink has failed, the rows
  it holds followed by the rows still in the buffer are those of \<open>w\<close>.\<close>

definition tracks :: "u8 list \<Rightarrow> unit row_writer \<Rightarrow> 's row_writer \<Rightarrow> bool" where
  "tracks start w v \<longleftrightarrow> rw_sink w = None \<and> rw_error w = None \<and> rw_dict v = rw_dict w
     \<and> (\<exists>state. rw_sink v = Some \<lparr>ds_state = state, ds_append_rows = append_rows, ds_finish = finish\<rparr>
          \<and> (rw_error v = None \<longrightarrow> inv state \<and> rows state @ rw_bytes v = start @ rw_bytes w))"

definition streams :: "(unit, 'r) writer \<Rightarrow> ('s, 'r) writer \<Rightarrow> bool" where
  "streams f g \<longleftrightarrow> (\<forall>start w v. tracks start w v \<longrightarrow>
     (case f w of
        Inl e \<Rightarrow> g v = Inl e
      | Inr (r, w') \<Rightarrow> \<exists>v'. g v = Inr (r, v') \<and> tracks start w' v'))"

lemma streamsD:
  assumes "streams f g" "tracks start w v"
  shows "f w = Inl e \<Longrightarrow> g v = Inl e" "f w = Inr (r, w') \<Longrightarrow> \<exists>v'. g v = Inr (r, v') \<and> tracks start w' v'"
  using assms(1) [unfolded streams_def, rule_format, OF assms(2)] by auto

lemma streams_ret [stream_intro]: "streams (wret r) (wret r)"
  by (simp add: streams_def wret_def)

lemma streams_fail [stream_intro]: "streams (wfail e) (wfail e)"
  by (simp add: streams_def wfail_def)

lemma streams_bind [stream_intro]:
  assumes "streams f g" "\<And>r. streams (f' r) (g' r)"
  shows "streams (wbind f f') (wbind g g')"
  unfolding streams_def
proof (intro allI impI)
  fix start w v assume t: "tracks start w v"
  show "case wbind f f' w of Inl e \<Rightarrow> wbind g g' v = Inl e
      | Inr (r, w') \<Rightarrow> \<exists>v'. wbind g g' v = Inr (r, v') \<and> tracks start w' v'"
  proof (cases "f w")
    case (Inl e)
    with streamsD(1) [OF assms(1) t] show ?thesis by (simp add: wbind_def)
  next
    case (Inr x)
    obtain r w' where x: "x = (r, w')" by fastforce
    then obtain v' where v': "g v = Inr (r, v')" "tracks start w' v'" using streamsD(2) [OF assms(1) t] Inr by blast
    have "wbind f f' w = f' r w'" "wbind g g' v = g' r v'" using Inr x v'(1) by (simp_all add: wbind_def)
    then show ?thesis using assms(2) [of r, unfolded streams_def, rule_format, OF v'(2)] by (simp only:)
  qed
qed

lemma streams_assert [stream_intro]: "streams (wassert ok e) (wassert ok e)"
  by (simp add: wassert_def streams_ret streams_fail)

lemma streams_lift [stream_intro]: "streams (wlift r) (wlift r)"
  by (simp add: wlift_def streams_ret streams_fail split: sum.split)

lemma streams_map_err [stream_intro]: "streams f g \<Longrightarrow> streams (wmap_err h f) (wmap_err h g)"
  by (fastforce simp: streams_def wmap_err_def split: sum.splits)

lemma streams_opt [stream_intro]: "(\<And>x. streams (f x) (g x)) \<Longrightarrow> streams (wopt value f) (wopt value g)"
  by (simp add: wopt_def streams_ret split: option.split)

lemma streams_when [stream_intro]: "streams f g \<Longrightarrow> streams (wwhen cond f) (wwhen cond g)"
  by (simp add: wwhen_def streams_ret)

lemma streams_if [stream_intro]: "streams f g \<Longrightarrow> streams f' g' \<Longrightarrow> streams (if cond then f else f') (if cond then g else g')"
  by simp

lemma streams_pair [stream_intro]: "(\<And>a b. streams (f a b) (g a b)) \<Longrightarrow> streams (case p of (a, b) \<Rightarrow> f a b) (case p of (a, b) \<Rightarrow> g a b)"
  by (simp add: case_prod_beta)

lemma streams_pair_state [stream_intro]:
  "(\<And>a b. streams (f a b t) (g a b t)) \<Longrightarrow> streams ((case p of (a, b) \<Rightarrow> f a b) t) ((case p of (a, b) \<Rightarrow> g a b) t)"
  by (simp add: case_prod_beta)

lemma streams_for [stream_intro]: "(\<And>x. streams (f x) (g x)) \<Longrightarrow> streams (wfor xs f) (wfor xs g)"
  by (induction xs) (auto intro: stream_intro)

lemma streams_for_st [stream_intro]: "(\<And>x t. streams (f x t) (g x t)) \<Longrightarrow> streams (wfor_st xs f t) (wfor_st xs g t)"
  by (induction xs arbitrary: t) (auto intro: stream_intro)

lemma tracks_flush:
  assumes "tracks start w v"
  shows "tracks start w (rw_maybe_flush v)" "tracks start w (rw_flush v)"
proof -
  obtain state where s: "rw_sink v = Some \<lparr>ds_state = state, ds_append_rows = append_rows, ds_finish = finish\<rparr>"
    using assms by (auto simp: tracks_def)
  obtain result state' where r: "append_rows (rw_bytes v) state = (result, state')" by fastforce
  show flush: "tracks start w (rw_flush v)"
  proof (cases result)
    case (Inl e)
    with assms s r show ?thesis by (auto simp: tracks_def rw_flush_def)
  next
    case (Inr u)
    with assms s r append_ok [of "rw_bytes v" state state'] show ?thesis by (auto simp: tracks_def rw_flush_def)
  qed
  then show "tracks start w (rw_maybe_flush v)" using assms by (simp add: rw_maybe_flush_def)
qed

lemma streams_append:
  assumes "\<And>w. f w = Inr ((), rw_maybe_flush (w\<lparr>rw_bytes := rw_bytes w @ out\<rparr>))"
    "\<And>v. g v = Inr ((), rw_maybe_flush (v\<lparr>rw_bytes := rw_bytes v @ out\<rparr>))"
  shows "streams f g"
  unfolding streams_def
proof (intro allI impI)
  fix start w v assume t: "tracks start w v"
  then have "rw_maybe_flush (w\<lparr>rw_bytes := rw_bytes w @ out\<rparr>) = w\<lparr>rw_bytes := rw_bytes w @ out\<rparr>"
    by (simp add: tracks_def)
  moreover have "tracks start (w\<lparr>rw_bytes := rw_bytes w @ out\<rparr>) (v\<lparr>rw_bytes := rw_bytes v @ out\<rparr>)"
    using t by (auto simp: tracks_def)
  ultimately show "case f w of Inl e \<Rightarrow> g v = Inl e | Inr (r, w') \<Rightarrow> \<exists>v'. g v = Inr (r, v') \<and> tracks start w' v'"
    using tracks_flush(1) assms by simp
qed

lemma streams_u64 [stream_intro]: "streams (w_u64 value) (w_u64 value)"
  by (rule streams_append [of _ "uvarint value"]) (simp_all add: w_u64_def push_uvarint_eq)

lemma streams_raw [stream_intro]: "streams (w_raw value) (w_raw value)"
  by (rule streams_append) (simp_all add: w_raw_def)

lemma streams_intern [stream_intro]: "streams (w_intern value) (w_intern value)"
  by (auto simp: streams_def w_intern_def tracks_def Let_def split: prod.split)

end

context transition_sink
begin

lemma streams_text [stream_intro]: "streams (w_text value) (w_text value)"
  unfolding w_text_def by (intro stream_intro)

lemma streams_bool [stream_intro]: "streams (w_bool value) (w_bool value)"
  unfolding w_bool_def by (intro stream_intro)

lemma streams_signed [stream_intro]: "streams (w_signed value) (w_signed value)"
  unfolding w_signed_def by (intro stream_intro)

lemma streams_location [stream_intro]: "streams (w_location location state) (w_location location state)"
  unfolding w_location_def Let_def by (intro stream_intro)

lemma streams_locations [stream_intro]: "streams (w_locations locations) (w_locations locations)"
  unfolding w_locations_def by (intro stream_intro)

lemma streams_declarations [stream_intro]: "streams (write_declarations decls) (write_declarations decls)"
  unfolding write_declarations_def w_declaration_def by (intro stream_intro)

lemma streams_type_descriptor [stream_intro]: "streams (write_type_descriptor d) (write_type_descriptor d)"
  unfolding write_type_descriptor_def by (intro stream_intro)

lemma streams_resolved_declaration [stream_intro]: "streams (write_resolved_declaration d) (write_resolved_declaration d)"
  unfolding write_resolved_declaration_def w_owner_def by (intro stream_intro)

lemma streams_parameter [stream_intro]: "streams (write_parameter parameter schema) (write_parameter parameter schema)"
  unfolding write_parameter_def w_parameter_declaration_def w_object_shape_def w_property_def Let_def by (intro stream_intro)

lemma streams_argument_mapping [stream_intro]:
  "streams (write_argument_mapping index mapping schema) (write_argument_mapping index mapping schema)"
  unfolding write_argument_mapping_def Let_def by (intro stream_intro)

lemma streams_resolved_call [stream_intro]: "streams (write_resolved_call call schema) (write_resolved_call call schema)"
  unfolding write_resolved_call_def w_target_set_def w_candidate_def by (intro stream_intro)

lemma streams_constant_value [stream_intro]: "streams (w_constant_value c) (w_constant_value c)"
  unfolding w_constant_value_def by (cases "cv_kind c") (simp_all add: stream_intro)

lemma streams_literal_candidate [stream_intro]: "streams (w_literal_candidate index c) (w_literal_candidate index c)"
  unfolding w_literal_candidate_def by (cases "plc_kind c") (simp_all add: stream_intro)

lemma streams_entity_fields [stream_intro]:
  "streams (w_entity_fields schema index entity) (w_entity_fields schema index entity)"
  unfolding w_entity_fields_def w_tuple_shape_def w_names_def w_literal_candidates_def by (intro stream_intro)

lemma streams_entity_run [stream_intro]: "streams (write_entity_run path entities schema) (write_entity_run path entities schema)"
  unfolding write_entity_run_def w_entity_def by (intro stream_intro)

lemma streams_source_call [stream_intro]: "streams (write_source_call call) (write_source_call call)"
  unfolding write_source_call_def by (intro stream_intro)

lemma streams_file_body [stream_intro]: "streams (write_file_body file) (write_file_body file)"
  unfolding write_file_body_def w_binding_def w_function_def w_async_function_def by (intro stream_intro)

lemma streams_slot [stream_intro]: "(\<And>x. streams (f x) (g x)) \<Longrightarrow> streams (w_slot slot f) (w_slot slot g)"
  by (simp add: w_slot_def streams_ret split: slot_op.split)

lemma streams_path_op [stream_intro]: "streams (write_path_op operation schema) (write_path_op operation schema)"
  unfolding write_path_op_def w_file_replacement_def by (intro stream_intro)

lemma streams_symbol_body [stream_intro]: "streams (w_symbol_body ident body) (w_symbol_body ident body)"
  unfolding w_symbol_body_def by (cases body) (simp_all add: stream_intro)

lemma streams_symbol_op [stream_intro]: "streams (write_symbol_op mode operation) (write_symbol_op mode operation)"
  unfolding write_symbol_op_def by (cases mode) (simp_all add: stream_intro)

lemma streams_transition_rows: "streams (w_transition_rows plan) (w_transition_rows plan)"
proof -
  have keys: "streams (case body of BodyReplaceReferencePath path references \<Rightarrow> w_intern_only path | _ \<Rightarrow> wret ())
      (case body of BodyReplaceReferencePath path references \<Rightarrow> w_intern_only path | _ \<Rightarrow> wret ())" for body
    unfolding w_intern_only_def by (cases body) (simp_all add: stream_intro)
  show ?thesis
    unfolding w_transition_rows_def w_intern_keys_def by (intro stream_intro keys) (simp_all add: w_intern_only_def stream_intro)
qed

text \<open>The frame a sink ends with is the frame that is returned without one.\<close>

lemma streamed_frame:
  assumes run: "write_transition plan (Some \<lparr>ds_state = state, ds_append_rows = append_rows, ds_finish = finish\<rparr>) = Inr (bytes, sink)"
    and state: "inv state" "rows state = []"
  shows "bytes = [] \<and> (\<exists>state' out. sink = Some \<lparr>ds_state = state', ds_append_rows = append_rows, ds_finish = finish\<rparr>
    \<and> frame state' = Some out \<and> transition_frame plan = Inr out)"
proof -
  let ?sink = "\<lparr>ds_state = state, ds_append_rows = append_rows, ds_finish = finish\<rparr>"
  let ?w0 = "rw_new (None :: unit dyn_sink option)" and ?v0 = "rw_new (Some ?sink)"
  have t0: "tracks [] ?w0 ?v0" using state by (simp add: tracks_def rw_new_def)
  obtain v where v: "w_transition_rows plan ?v0 = Inr ((), v)"
    using run by (auto simp: write_transition_def rbind_Inr_iff)
  obtain w where w: "w_transition_rows plan ?w0 = Inr ((), w)" and t: "tracks [] w v"
    using streamsD [OF streams_transition_rows [of plan] t0] v by (cases "w_transition_rows plan ?w0") fastforce+
  define v' where "v' = (if rw_error v = None \<and> \<not> Option.is_none (rw_sink v) \<and> rw_bytes v \<noteq> [] then rw_flush v else v)"
  have t': "tracks [] w v'" using t tracks_flush(2) [OF t] by (simp add: v'_def)
  have error: "rw_error v' = None"
    using run v by (auto simp: write_transition_def rbind_Inr_iff rw_finish_def v'_def [symmetric] split: option.splits)
  have empty: "rw_bytes v' = []"
    using t error by (auto simp: v'_def tracks_def rw_flush_def Let_def split: if_splits prod.splits sum.splits)
  obtain state1 where s1: "rw_sink v' = Some \<lparr>ds_state = state1, ds_append_rows = append_rows, ds_finish = finish\<rparr>"
    and rows1: "inv state1" "rows state1 = rw_bytes w"
    using t' error empty by (auto simp: tracks_def)
  let ?prefix = "append_packed_dictionary (transition_header plan) (rw_dict w)"
  have dict: "rw_dict v' = rw_dict w" "rw_sink w = None" "rw_error w = None" using t' by (simp_all add: tracks_def)
  obtain result state2 where f: "finish ?prefix state1 = (result, state2)" by fastforce
  have done_: "result = Inr () \<and> bytes = [] \<and> sink = Some \<lparr>ds_state = state2, ds_append_rows = append_rows, ds_finish = finish\<rparr>"
    using run v error s1 f dict(1)
    by (cases result) (auto simp: write_transition_def rw_finish_def v'_def [symmetric] Let_def split: sum.splits)
  moreover have "transition_frame plan = Inr (?prefix @ rw_bytes w)"
    using w dict by (simp add: transition_frame_def write_transition_def rw_finish_def)
  ultimately show ?thesis using finish_ok [of ?prefix state1 state2] f rows1 by auto
qed

end

end
