(* ===== verification/TF_Plan.thy ===== *)
theory TF_Plan
  imports TF_Session
begin

text \<open>
  The producer's tables (\<^verbatim>\<open>producer/table.rs\<close>) and the planner (\<^verbatim>\<open>producer/plan.rs\<close>) that finds the path
  and symbol operations of a transition.  The lemmas characterise each planner by what its
  operations do to one path or one symbol, and show that a delta planned from one table to another
  takes the rows of the first to those of the second.

  The rows of a table are borrowed by the operations in the source; the operations of the model hold
  the rows themselves, so \<^verbatim>\<open>PathOpRef\<close> is the \<^verbatim>\<open>path_op\<close> of the decoder.
\<close>

section \<open>Producer tables\<close>

text \<open>A run of \<^verbatim>\<open>Runs\<close> is never empty; that is its contract in the source, which indexes its first row.\<close>

datatype entity_rows = Flat "entity_fact list" | Runs "entity_fact list list"

abbreviation ef_path :: "entity_fact \<Rightarrow> str" where
  "ef_path entity \<equiv> loc_path (ef_location entity)"

abbreviation run_path :: "entity_fact list \<Rightarrow> str" where
  "run_path run \<equiv> ef_path (hd run)"

definition path_end :: "entity_fact list \<Rightarrow> nat \<Rightarrow> nat" where
  "path_end entities start =
     (let path = ef_path (entities ! start)
      in start + 1 + length (takeWhile (\<lambda>entity. ef_path entity = path) (drop (start + 1) entities)))"

text \<open>\<^verbatim>\<open>&rows[start..end]\<close>.\<close>

definition slice :: "nat \<Rightarrow> nat \<Rightarrow> 'a list \<Rightarrow> 'a list" where
  "slice start stop rows = take (stop - start) (drop start rows)"

function into_runs_from :: "entity_fact list \<Rightarrow> nat \<Rightarrow> entity_fact list list" where
  "into_runs_from entities start =
     (if start < length entities
      then slice start (path_end entities start) entities # into_runs_from entities (path_end entities start)
      else [])"
  by pat_completeness auto
termination
  by (relation "measure (\<lambda>(entities, start). length entities - start)") (auto simp: path_end_def Let_def)

declare into_runs_from.simps [simp del]

fun into_runs :: "entity_rows \<Rightarrow> entity_rows" where
  "into_runs (Flat entities) = Runs (into_runs_from entities 0)"
| "into_runs (Runs runs) = Runs runs"

fun er_len :: "entity_rows \<Rightarrow> nat" where
  "er_len (Flat entities) = length entities"
| "er_len (Runs runs) = sum_list (map length runs)"

text \<open>The rows that \<^verbatim>\<open>for_each\<close> visits, in order.\<close>

fun er_for_each :: "entity_rows \<Rightarrow> entity_fact list" where
  "er_for_each (Flat entities) = entities"
| "er_for_each (Runs runs) = concat runs"

fun cursor_len :: "entity_rows \<Rightarrow> nat" where
  "cursor_len (Flat entities) = length entities"
| "cursor_len (Runs runs) = length runs"

fun cursor_path :: "entity_rows \<Rightarrow> nat \<Rightarrow> str" where
  "cursor_path (Flat entities) index = ef_path (entities ! index)"
| "cursor_path (Runs runs) index = run_path (runs ! index)"

fun cursor_run :: "entity_rows \<Rightarrow> nat \<Rightarrow> entity_fact list" where
  "cursor_run (Flat entities) index = slice index (path_end entities index) entities"
| "cursor_run (Runs runs) index = runs ! index"

fun cursor_next :: "entity_rows \<Rightarrow> nat \<Rightarrow> nat" where
  "cursor_next (Flat entities) index = path_end entities index"
| "cursor_next (Runs runs) index = index + 1"

text \<open>\<^verbatim>\<open>partition_point\<close> of the standard library, on rows that the predicate partitions.\<close>

definition partition_point :: "('a \<Rightarrow> bool) \<Rightarrow> 'a list \<Rightarrow> nat" where
  "partition_point P rows = length (takeWhile P rows)"

fun er_path :: "entity_rows \<Rightarrow> str \<Rightarrow> entity_fact list" where
  "er_path (Flat entities) path =
     (let start = partition_point (\<lambda>entity. ef_path entity < path) entities in
      case get_at entities start of
        None \<Rightarrow> []
      | Some entity \<Rightarrow> if ef_path entity \<noteq> path then [] else slice start (path_end entities start) entities)"
| "er_path (Runs runs) path =
     (let index = partition_point (\<lambda>run. run_path run < path) runs in
      case get_at runs index of
        Some run \<Rightarrow> if run_path run = path then run else []
      | None \<Rightarrow> [])"

record transport_changes =
  tm_base_generation :: u64
  tm_base_state_id :: u64
  tm_source_paths :: "str set"
  tm_entity_paths :: "str set"
  tm_file_paths :: "str set"
  tm_symbol_ids :: "str set"
  tm_exact :: bool

record producer_table =
  pt_schema :: u64
  pt_generation :: u64
  pt_project_id :: str
  pt_sources :: "source_digest list"
  pt_entities :: entity_rows
  pt_files :: "file_fact list"
  pt_symbols :: "symbol_fact list"
  pt_state_id :: u64
  pt_transport :: "transport_changes option"
  pt_path_symbols :: "(str \<rightharpoonup> str list) option"

definition pt_new :: "u64 \<Rightarrow> str \<Rightarrow> producer_table" where
  "pt_new generation project_id =
     \<lparr>pt_schema = type_facts_schema_v1, pt_generation = generation, pt_project_id = project_id,
      pt_sources = [], pt_entities = Flat [], pt_files = [], pt_symbols = [], pt_state_id = 0,
      pt_transport = None, pt_path_symbols = None\<rparr>"

text \<open>The lookup that \<^verbatim>\<open>source\<close>, \<^verbatim>\<open>file\<close> and \<^verbatim>\<open>symbol\<close> share.\<close>

definition sorted_get :: "('a \<Rightarrow> str) \<Rightarrow> 'a list \<Rightarrow> str \<Rightarrow> 'a option" where
  "sorted_get key rows k =
     (case get_at rows (partition_point (\<lambda>row. key row < k) rows) of
        Some row \<Rightarrow> if key row = k then Some row else None
      | None \<Rightarrow> None)"

definition pt_source :: "producer_table \<Rightarrow> str \<Rightarrow> source_digest option" where
  "pt_source table path = sorted_get sd_path (pt_sources table) path"

definition pt_file :: "producer_table \<Rightarrow> str \<Rightarrow> file_fact option" where
  "pt_file table path = sorted_get ff_path (pt_files table) path"

definition pt_entities_in :: "producer_table \<Rightarrow> str \<Rightarrow> entity_fact list" where
  "pt_entities_in table path = er_path (pt_entities table) path"

definition pt_symbol :: "producer_table \<Rightarrow> str \<Rightarrow> symbol_fact option" where
  "pt_symbol table ident = sorted_get sf_id (pt_symbols table) ident"

section \<open>Differences of one path\<close>

record path_rows =
  pr_path :: str
  pr_source :: "source_digest option"
  pr_entities :: "entity_fact list"
  pr_file :: "file_fact option"

definition pr_empty :: "str \<Rightarrow> path_rows" where
  "pr_empty path = \<lparr>pr_path = path, pr_source = None, pr_entities = [], pr_file = None\<rparr>"

definition pr_at :: "producer_table \<Rightarrow> str \<Rightarrow> path_rows" where
  "pr_at table path =
     \<lparr>pr_path = path, pr_source = pt_source table path, pr_entities = er_path (pt_entities table) path,
      pr_file = pt_file table path\<rparr>"

record candidates =
  cd_source :: bool
  cd_entity :: bool
  cd_file :: bool

definition all_candidates :: candidates where
  "all_candidates = \<lparr>cd_source = True, cd_entity = True, cd_file = True\<rparr>"

definition source_difference :: "source_digest option \<Rightarrow> source_digest option \<Rightarrow> source_hash slot_op" where
  "source_difference previous next =
     (case (previous, next) of
        (Some _, None) \<Rightarrow> SlotRemove
      | (previous, Some next) \<Rightarrow>
          if previous = None \<or> sd_sha256 (the previous) \<noteq> sd_sha256 next then SlotReplace (sd_sha256 next)
          else SlotUnchanged
      | _ \<Rightarrow> SlotUnchanged)"

definition entity_difference :: "entity_fact list \<Rightarrow> entity_fact list \<Rightarrow> entity_fact list slot_op" where
  "entity_difference previous next =
     (if previous \<noteq> [] \<and> next = [] then SlotRemove
      else if next \<noteq> [] \<and> \<not> entities_eq previous next then SlotReplace next
      else SlotUnchanged)"

definition file_difference :: "file_fact option \<Rightarrow> file_fact option \<Rightarrow> file_fact slot_op" where
  "file_difference previous next =
     (case (previous, next) of
        (Some _, None) \<Rightarrow> SlotRemove
      | (previous, Some next) \<Rightarrow> if previous \<noteq> Some next then SlotReplace next else SlotUnchanged
      | _ \<Rightarrow> SlotUnchanged)"

definition rows_difference :: "path_rows \<Rightarrow> path_rows \<Rightarrow> candidates \<Rightarrow> path_op option" where
  "rows_difference previous next candidates =
     (let operation = \<lparr>po_path = pr_path next,
            po_source = (if cd_source candidates then source_difference (pr_source previous) (pr_source next) else SlotUnchanged),
            po_entities = (if cd_entity candidates then entity_difference (pr_entities previous) (pr_entities next) else SlotUnchanged),
            po_file = (if cd_file candidates then file_difference (pr_file previous) (pr_file next) else SlotUnchanged)\<rparr>
      in if po_source operation \<noteq> SlotUnchanged \<or> po_entities operation \<noteq> SlotUnchanged \<or> po_file operation \<noteq> SlotUnchanged
         then Some operation else None)"

definition path_difference ::
    "producer_table option \<Rightarrow> producer_table \<Rightarrow> str \<Rightarrow> candidates \<Rightarrow> path_op option" where
  "path_difference base target path candidates =
     (let previous = (case base of None \<Rightarrow> pr_empty path | Some base \<Rightarrow> pr_at base path)
      in rows_difference previous (pr_at target path) candidates)"

section \<open>Walking a table by path\<close>

record path_cursor =
  cu_source :: nat
  cu_entity :: nat
  cu_file :: nat

definition cu_new :: path_cursor where
  "cu_new = \<lparr>cu_source = 0, cu_entity = 0, cu_file = 0\<rparr>"

definition cu_valid :: "producer_table \<Rightarrow> path_cursor \<Rightarrow> bool" where
  "cu_valid table c \<longleftrightarrow> cu_source c < length (pt_sources table)
     \<or> cu_entity c < cursor_len (pt_entities table) \<or> cu_file c < length (pt_files table)"

definition cu_heads :: "producer_table \<Rightarrow> path_cursor \<Rightarrow> str list" where
  "cu_heads table c =
     option_list (map_option sd_path (get_at (pt_sources table) (cu_source c)))
     @ (if cu_entity c < cursor_len (pt_entities table) then [cursor_path (pt_entities table) (cu_entity c)] else [])
     @ option_list (map_option ff_path (get_at (pt_files table) (cu_file c)))"

text \<open>Called on a valid cursor only, which has a head.\<close>

definition cu_path :: "producer_table \<Rightarrow> path_cursor \<Rightarrow> str" where
  "cu_path table c = (let heads = cu_heads table c in fold min (tl heads) (hd heads))"

definition cu_rows :: "producer_table \<Rightarrow> path_cursor \<Rightarrow> path_rows" where
  "cu_rows table c =
     (let path = cu_path table c in
      \<lparr>pr_path = path,
       pr_source = (case get_at (pt_sources table) (cu_source c) of
          Some source \<Rightarrow> if sd_path source = path then Some source else None | None \<Rightarrow> None),
       pr_entities = (if cu_entity c < cursor_len (pt_entities table)
            \<and> cursor_path (pt_entities table) (cu_entity c) = path
          then cursor_run (pt_entities table) (cu_entity c) else []),
       pr_file = (case get_at (pt_files table) (cu_file c) of
          Some file \<Rightarrow> if ff_path file = path then Some file else None | None \<Rightarrow> None)\<rparr>)"

definition cu_next :: "producer_table \<Rightarrow> path_cursor \<Rightarrow> path_cursor" where
  "cu_next table c =
     (let path = cu_path table c in
      \<lparr>cu_source = (case get_at (pt_sources table) (cu_source c) of
          Some source \<Rightarrow> if sd_path source = path then cu_source c + 1 else cu_source c | None \<Rightarrow> cu_source c),
       cu_entity = (if cu_entity c < cursor_len (pt_entities table)
            \<and> cursor_path (pt_entities table) (cu_entity c) = path
          then cursor_next (pt_entities table) (cu_entity c) else cu_entity c),
       cu_file = (case get_at (pt_files table) (cu_file c) of
          Some file \<Rightarrow> if ff_path file = path then cu_file c + 1 else cu_file c | None \<Rightarrow> cu_file c)\<rparr>)"

text \<open>What the cursor has left to visit decreases at every step.\<close>

definition cu_left :: "producer_table \<Rightarrow> path_cursor \<Rightarrow> nat" where
  "cu_left table c = (length (pt_sources table) - cu_source c)
     + (cursor_len (pt_entities table) - cu_entity c) + (length (pt_files table) - cu_file c)"

lemma fold_min_member: "heads \<noteq> [] \<Longrightarrow> fold min (tl heads) (hd heads) = Min (set heads)"
  for heads :: "'a::linorder list"
  by (cases heads) (simp_all flip: Min.set_eq_fold)

lemma cu_heads_valid: "cu_valid table c \<longleftrightarrow> cu_heads table c \<noteq> []"
  by (auto simp: cu_valid_def cu_heads_def get_at_def)

lemma cu_path_Min: "cu_valid table c \<Longrightarrow> cu_path table c = Min (set (cu_heads table c))"
  by (simp add: cu_path_def Let_def cu_heads_valid fold_min_member)

lemma cursor_next_greater: "index < cursor_next rows index"
  by (cases rows) (auto simp: path_end_def Let_def)

lemma cu_next_less:
  assumes "cu_valid table c"
  shows "cu_left table (cu_next table c) < cu_left table c"
proof -
  let ?c = "cu_next table c"
  have "cu_path table c \<in> set (cu_heads table c)"
    using cu_path_Min [OF assms] assms by (simp add: cu_heads_valid)
  then have "cu_source c < length (pt_sources table) \<and> cu_source ?c = cu_source c + 1
    \<or> cu_entity c < cursor_len (pt_entities table) \<and> cu_entity c < cu_entity ?c
    \<or> cu_file c < length (pt_files table) \<and> cu_file ?c = cu_file c + 1"
    by (auto simp: cu_heads_def cu_next_def Let_def get_at_def cursor_next_greater split: if_splits)
  moreover have "cu_source c \<le> cu_source ?c" "cu_entity c \<le> cu_entity ?c" "cu_file c \<le> cu_file ?c"
    using cursor_next_greater [of "cu_entity c" "pt_entities table"]
    by (auto simp: cu_next_def Let_def split: option.split)
  ultimately show ?thesis by (auto simp: cu_left_def)
qed

section \<open>Planning paths\<close>

text \<open>The loop of \<^verbatim>\<open>plan_full\<close>; the first argument counts the operations already pushed.\<close>

function plan_full_from :: "nat \<Rightarrow> producer_table \<Rightarrow> path_cursor \<Rightarrow> encode_error + path_op list" where
  "plan_full_from count target cursor =
     (if cu_valid target cursor then
        let path = cu_path target cursor in
        case path_difference None target path all_candidates of
          None \<Rightarrow> Inl (EncInvalid (FullPathWithoutRows count path))
        | Some operation \<Rightarrow>
            rbind (plan_full_from (count + 1) target (cu_next target cursor)) (\<lambda>operations. Inr (operation # operations))
      else Inr [])"
  by pat_completeness auto
termination
  by (relation "measure (\<lambda>(count, target, cursor). cu_left target cursor)") (auto simp: cu_next_less)

declare plan_full_from.simps [simp del]

definition plan_full :: "producer_table \<Rightarrow> encode_error + path_op list" where
  "plan_full target = plan_full_from 0 target cu_new"

definition sorted_manifest_paths :: "transport_changes \<Rightarrow> str list" where
  "sorted_manifest_paths manifest =
     sorted_list_of_set (tm_source_paths manifest \<union> tm_entity_paths manifest \<union> tm_file_paths manifest)"

definition plan_exact_path_delta :: "producer_table \<Rightarrow> producer_table \<Rightarrow> transport_changes \<Rightarrow> path_op list" where
  "plan_exact_path_delta base target manifest =
     List.map_filter (\<lambda>path.
       let candidates = \<lparr>cd_source = path \<in> tm_source_paths manifest, cd_entity = path \<in> tm_entity_paths manifest,
             cd_file = path \<in> tm_file_paths manifest\<rparr>
       in path_difference (Some base) target path candidates) (sorted_manifest_paths manifest)"

function plan_fallback_from ::
    "producer_table \<Rightarrow> path_cursor \<Rightarrow> producer_table \<Rightarrow> path_cursor \<Rightarrow> path_op list" where
  "plan_fallback_from base previous target next =
     (if cu_valid base previous \<and> cu_valid target next then
        let previous_rows = cu_rows base previous; next_rows = cu_rows target next in
        if pr_path previous_rows < pr_path next_rows then
          option_list (rows_difference previous_rows (pr_empty (pr_path previous_rows)) all_candidates)
          @ plan_fallback_from base (cu_next base previous) target next
        else if pr_path next_rows < pr_path previous_rows then
          option_list (rows_difference (pr_empty (pr_path next_rows)) next_rows all_candidates)
          @ plan_fallback_from base previous target (cu_next target next)
        else
          option_list (rows_difference previous_rows next_rows all_candidates)
          @ plan_fallback_from base (cu_next base previous) target (cu_next target next)
      else if cu_valid base previous then
        let rows = cu_rows base previous in
        option_list (rows_difference rows (pr_empty (pr_path rows)) all_candidates)
        @ plan_fallback_from base (cu_next base previous) target next
      else if cu_valid target next then
        let rows = cu_rows target next in
        option_list (rows_difference (pr_empty (pr_path rows)) rows all_candidates)
        @ plan_fallback_from base previous target (cu_next target next)
      else [])"
  by pat_completeness auto
termination
  by (relation "measure (\<lambda>(base, previous, target, next). cu_left base previous + cu_left target next)")
    (auto simp: cu_next_less add_less_mono)

declare plan_fallback_from.simps [simp del]

definition plan_fallback_path_delta :: "producer_table \<Rightarrow> producer_table \<Rightarrow> path_op list" where
  "plan_fallback_path_delta base target = plan_fallback_from base cu_new target cu_new"

definition sparse_operation :: "producer_table \<Rightarrow> transport_changes \<Rightarrow> str \<Rightarrow> path_op" where
  "sparse_operation target manifest path =
     (let rows = pr_at target path in
      \<lparr>po_path = path,
       po_source = (if path \<in> tm_source_paths manifest
          then (case pr_source rows of None \<Rightarrow> SlotRemove | Some source \<Rightarrow> SlotReplace (sd_sha256 source))
          else SlotUnchanged),
       po_entities = (if path \<in> tm_entity_paths manifest
          then (if pr_entities rows = [] then SlotRemove else SlotReplace (pr_entities rows))
          else SlotUnchanged),
       po_file = (if path \<in> tm_file_paths manifest
          then (case pr_file rows of None \<Rightarrow> SlotRemove | Some file \<Rightarrow> SlotReplace file)
          else SlotUnchanged)\<rparr>)"

definition plan_sparse_paths :: "producer_table \<Rightarrow> transport_changes \<Rightarrow> path_op list" where
  "plan_sparse_paths target manifest = map (sparse_operation target manifest) (sorted_manifest_paths manifest)"

section \<open>Planning symbols\<close>

definition reference_path_end :: "location list \<Rightarrow> str \<Rightarrow> nat" where
  "reference_path_end references path = length (takeWhile (\<lambda>reference. loc_path reference = path) references)"

text \<open>The path that the merge of two reference lists handles next; one of the lists is not empty.\<close>

fun reference_head :: "location list \<Rightarrow> location list \<Rightarrow> str" where
  "reference_head [] next = loc_path (hd next)"
| "reference_head previous [] = loc_path (hd previous)"
| "reference_head (previous # _) (next # _) =
     (if loc_path previous < loc_path next then loc_path previous else loc_path next)"

lemma reference_head_run:
  "previous \<noteq> [] \<or> next \<noteq> [] \<Longrightarrow>
   reference_path_end previous (reference_head previous next) \<noteq> 0 \<and> previous \<noteq> []
   \<or> reference_path_end next (reference_head previous next) \<noteq> 0 \<and> next \<noteq> []"
  by (cases "(previous, next)" rule: reference_head.cases) (auto simp: reference_path_end_def neq_Nil_conv)

function plan_exact_reference_delta :: "str \<Rightarrow> location list \<Rightarrow> location list \<Rightarrow> symbol_op_ref list" where
  "plan_exact_reference_delta ident previous next =
     (if previous = [] \<and> next = [] then []
      else
        let path = reference_head previous next;
            previous_end = reference_path_end previous path;
            next_end = reference_path_end next path;
            previous_run = take previous_end previous;
            next_run = take next_end next
        in (if previous_run \<noteq> next_run
            then [\<lparr>sor_id = ident, sor_body = BodyReplaceReferencePath path next_run\<rparr>] else [])
           @ plan_exact_reference_delta ident (drop previous_end previous) (drop next_end next))"
  by pat_completeness auto
termination
proof (relation "measure (\<lambda>(ident, previous, next). length previous + length next)")
  fix ident path :: str and previous "next" :: "location list" and previous_end next_end :: nat
  assume "\<not> (previous = [] \<and> next = [])" "path = reference_head previous next"
    "previous_end = reference_path_end previous path" "next_end = reference_path_end next path"
  with reference_head_run [of previous "next"]
  show "((ident, drop previous_end previous, drop next_end next), ident, previous, next)
      \<in> measure (\<lambda>(ident, previous, next). length previous + length next)"
    by (cases previous; cases "next") auto
qed simp

declare plan_exact_reference_delta.simps [simp del]

definition exact_symbol_operations :: "producer_table \<Rightarrow> producer_table \<Rightarrow> str \<Rightarrow> symbol_op_ref list" where
  "exact_symbol_operations base target ident =
     (case (pt_symbol base ident, pt_symbol target ident) of
        (Some _, None) \<Rightarrow> [\<lparr>sor_id = ident, sor_body = BodyRemove\<rparr>]
      | (None, Some next) \<Rightarrow> [\<lparr>sor_id = ident, sor_body = BodyReplace next\<rparr>]
      | (Some previous, Some next) \<Rightarrow>
          if sf_alias_target previous \<noteq> sf_alias_target next \<or> sf_declarations previous \<noteq> sf_declarations next
          then [\<lparr>sor_id = ident, sor_body = BodyReplace next\<rparr>]
          else plan_exact_reference_delta ident (sf_references previous) (sf_references next)
      | (None, None) \<Rightarrow> [])"

definition plan_exact_symbol_delta :: "producer_table \<Rightarrow> producer_table \<Rightarrow> transport_changes \<Rightarrow> symbol_op_ref list" where
  "plan_exact_symbol_delta base target manifest =
     concat (map (exact_symbol_operations base target) (sorted_list_of_set (tm_symbol_ids manifest)))"

fun fallback_symbols :: "symbol_fact list \<Rightarrow> symbol_fact list \<Rightarrow> symbol_op_ref list" where
  "fallback_symbols (previous # left) (next # right) =
     (if sf_id previous < sf_id next then
        \<lparr>sor_id = sf_id previous, sor_body = BodyRemove\<rparr> # fallback_symbols left (next # right)
      else if sf_id next < sf_id previous then
        \<lparr>sor_id = sf_id next, sor_body = BodyReplace next\<rparr> # fallback_symbols (previous # left) right
      else
        (if previous \<noteq> next then [\<lparr>sor_id = sf_id next, sor_body = BodyReplace next\<rparr>] else [])
        @ fallback_symbols left right)"
| "fallback_symbols left right =
     map (\<lambda>row. \<lparr>sor_id = sf_id row, sor_body = BodyRemove\<rparr>) left
     @ map (\<lambda>row. \<lparr>sor_id = sf_id row, sor_body = BodyReplace row\<rparr>) right"

definition plan_fallback_symbol_delta :: "producer_table \<Rightarrow> producer_table \<Rightarrow> symbol_op_ref list" where
  "plan_fallback_symbol_delta base target = fallback_symbols (pt_symbols base) (pt_symbols target)"

section \<open>The runs of a table\<close>

function split_runs :: "entity_fact list \<Rightarrow> entity_fact list list" where
  "split_runs [] = []"
| "split_runs (entity # entities) =
     (entity # takeWhile (\<lambda>e. ef_path e = ef_path entity) entities)
     # split_runs (dropWhile (\<lambda>e. ef_path e = ef_path entity) entities)"
  by pat_completeness auto
termination
  by (relation "measure length") (auto simp: less_Suc_eq_le length_dropWhile_le)

lemma path_end_split:
  assumes "start < length entities"
  shows "slice start (path_end entities start) entities
      = takeWhile (\<lambda>e. ef_path e = ef_path (entities ! start)) (drop start entities)"
    and "drop (path_end entities start) entities
      = dropWhile (\<lambda>e. ef_path e = ef_path (entities ! start)) (drop start entities)"
proof -
  let ?same = "\<lambda>e. ef_path e = ef_path (entities ! start)"
  have cons: "drop start entities = entities ! start # drop (start + 1) entities"
    using assms by (simp add: Cons_nth_drop_Suc)
  have stop: "path_end entities start - start = length (takeWhile ?same (drop start entities))"
    "path_end entities start = start + length (takeWhile ?same (drop start entities))"
    by (simp_all add: path_end_def Let_def cons)
  show "slice start (path_end entities start) entities = takeWhile ?same (drop start entities)"
    unfolding slice_def stop(1) by (metis takeWhile_eq_take)
  show "drop (path_end entities start) entities = dropWhile ?same (drop start entities)"
    unfolding stop(2) by (metis add.commute drop_drop dropWhile_eq_drop)
qed

lemma into_runs_from_split: "into_runs_from entities start = split_runs (drop start entities)"
proof (induction entities start rule: into_runs_from.induct)
  case (1 entities start)
  show ?case
  proof (cases "start < length entities")
    case True
    then have "drop start entities = entities ! start # drop (start + 1) entities" by (simp add: Cons_nth_drop_Suc)
    with 1 True show ?thesis by (subst into_runs_from.simps) (simp add: path_end_split)
  qed (subst into_runs_from.simps, simp)
qed

fun er_rest :: "entity_rows \<Rightarrow> nat \<Rightarrow> entity_fact list list" where
  "er_rest (Flat entities) index = split_runs (drop index entities)"
| "er_rest (Runs runs) index = drop index runs"

definition er_runs :: "entity_rows \<Rightarrow> entity_fact list list" where
  "er_runs rows = er_rest rows 0"

lemma er_rest_empty: "er_rest rows index = [] \<longleftrightarrow> \<not> index < cursor_len rows"
proof (cases rows)
  case (Flat entities)
  show ?thesis
    by (cases "index < length entities") (simp_all add: Flat Cons_nth_drop_Suc [symmetric])
qed auto

lemma er_rest_step:
  assumes "index < cursor_len rows"
  shows "er_rest rows index = cursor_run rows index # er_rest rows (cursor_next rows index)"
    and "cursor_path rows index = run_path (cursor_run rows index)"
proof -
  have "er_rest rows index = cursor_run rows index # er_rest rows (cursor_next rows index)
      \<and> cursor_path rows index = run_path (cursor_run rows index)"
  proof (cases rows)
    case (Flat entities)
    with assms have cons: "drop index entities = entities ! index # drop (index + 1) entities"
      by (simp add: Cons_nth_drop_Suc)
    have "index < length entities" using assms Flat by simp
    from path_end_split [OF this] show ?thesis by (simp add: Flat cons)
  next
    case (Runs runs)
    with assms show ?thesis by (simp add: Cons_nth_drop_Suc)
  qed
  then show "er_rest rows index = cursor_run rows index # er_rest rows (cursor_next rows index)"
    "cursor_path rows index = run_path (cursor_run rows index)" by auto
qed

lemma split_runs_lookup:
  assumes "keys_ordered run_path (split_runs entities)"
  shows "takeWhile (\<lambda>e. ef_path e = path) (dropWhile (\<lambda>e. ef_path e < path) entities)
    = (case lookup run_path (split_runs entities) path of None \<Rightarrow> [] | Some run \<Rightarrow> run)"
  using assms
proof (induction entities rule: split_runs.induct)
  case (2 entity entities)
  let ?same = "\<lambda>e. ef_path e = ef_path entity"
  consider "ef_path entity < path" | "ef_path entity = path" | "path < ef_path entity" by force
  then show ?case
  proof cases
    case 1
    have "dropWhile (\<lambda>e. ef_path e < path) (takeWhile ?same entities @ dropWhile ?same entities)
        = dropWhile (\<lambda>e. ef_path e < path) (dropWhile ?same entities)"
      using 1 by (intro dropWhile_append2) (auto dest: set_takeWhileD)
    then have "dropWhile (\<lambda>e. ef_path e < path) entities = dropWhile (\<lambda>e. ef_path e < path) (dropWhile ?same entities)"
      by simp
    with 1 2 show ?thesis by auto
  next
    case 2
    then show ?thesis by simp
  next
    case 3
    then have "lookup run_path (split_runs (dropWhile ?same entities)) path = None"
      using 2(2) by (auto simp: lookup_None_iff)
    with 3 show ?thesis by simp
  qed
qed simp

lemma partition_point_drop: "drop (partition_point P rows) rows = dropWhile P rows"
  unfolding partition_point_def by (metis dropWhile_eq_drop)

lemma get_at_drop: "get_at rows n = (case drop n rows of [] \<Rightarrow> None | row # _ \<Rightarrow> Some row)"
  by (cases "n < length rows") (auto simp: get_at_def Cons_nth_drop_Suc [symmetric])

lemma sorted_get_lookup: "keys_ordered key rows \<Longrightarrow> sorted_get key rows k = lookup key rows k"
proof -
  assume ordered: "keys_ordered key rows"
  have above: "lookup key rows k = None \<Longrightarrow> r \<in> set (dropWhile (\<lambda>r. key r \<le> k) rows) \<Longrightarrow> key r \<noteq> k" for r
    using rows_after [OF ordered, of r k] by auto
  show ?thesis
    unfolding sorted_get_def get_at_drop partition_point_drop dropWhile_lookup [OF ordered]
  proof (cases "lookup key rows k")
    case None
    with above show "(case case option_list (lookup key rows k) @ dropWhile (\<lambda>r. key r \<le> k) rows of
          [] \<Rightarrow> None | row # _ \<Rightarrow> Some row of
        Some row \<Rightarrow> if key row = k then Some row else None | None \<Rightarrow> None) = lookup key rows k"
      by (auto split: list.split)
  next
    case (Some row)
    with lookup_SomeD [OF Some] show "(case case option_list (lookup key rows k) @ dropWhile (\<lambda>r. key r \<le> k) rows of
          [] \<Rightarrow> None | row # _ \<Rightarrow> Some row of
        Some row \<Rightarrow> if key row = k then Some row else None | None \<Rightarrow> None) = lookup key rows k"
      by simp
  qed
qed

lemma er_path_lookup:
  assumes "keys_ordered run_path (er_runs rows)"
  shows "er_path rows path = (case lookup run_path (er_runs rows) path of None \<Rightarrow> [] | Some run \<Rightarrow> run)"
proof (cases rows)
  case (Flat entities)
  let ?start = "partition_point (\<lambda>e. ef_path e < path) entities"
  have "er_path rows path = takeWhile (\<lambda>e. ef_path e = path) (dropWhile (\<lambda>e. ef_path e < path) entities)"
  proof (cases "?start < length entities")
    case True
    then have "get_at entities ?start = Some (entities ! ?start)"
      "dropWhile (\<lambda>e. ef_path e < path) entities = entities ! ?start # drop (?start + 1) entities"
      by (simp_all add: get_at_def partition_point_drop [symmetric] Cons_nth_drop_Suc)
    with Flat path_end_split(1) [OF True] show ?thesis by (auto simp: Let_def partition_point_drop)
  next
    case False
    then show ?thesis by (simp add: Flat Let_def get_at_def partition_point_drop [symmetric])
  qed
  with split_runs_lookup [of entities path] assms Flat show ?thesis by (simp add: er_runs_def)
next
  case (Runs runs)
  then show ?thesis
    using sorted_get_lookup [of run_path runs path] assms
    by (auto simp: er_runs_def sorted_get_def Let_def get_at_def split: option.splits if_splits)
qed

section \<open>The walk of a cursor\<close>

text \<open>What the three streams of a cursor have left.\<close>

definition left_sources :: "producer_table \<Rightarrow> path_cursor \<Rightarrow> source_digest list" where
  "left_sources table c = drop (cu_source c) (pt_sources table)"

definition left_runs :: "producer_table \<Rightarrow> path_cursor \<Rightarrow> entity_fact list list" where
  "left_runs table c = er_rest (pt_entities table) (cu_entity c)"

definition left_files :: "producer_table \<Rightarrow> path_cursor \<Rightarrow> file_fact list" where
  "left_files table c = drop (cu_file c) (pt_files table)"

definition head_at :: "('a \<Rightarrow> str) \<Rightarrow> 'a list \<Rightarrow> str \<Rightarrow> 'a option" where
  "head_at key rows k = (case rows of [] \<Rightarrow> None | row # _ \<Rightarrow> if key row = k then Some row else None)"

definition tail_at :: "('a \<Rightarrow> str) \<Rightarrow> 'a list \<Rightarrow> str \<Rightarrow> 'a list" where
  "tail_at key rows k = (case rows of [] \<Rightarrow> [] | row # rest \<Rightarrow> if key row = k then rest else rows)"

lemma get_at_head: "(case get_at rows n of Some row \<Rightarrow> if key row = k then Some row else None | None \<Rightarrow> None)
    = head_at key (drop n rows) k"
  by (cases "n < length rows") (auto simp: get_at_def head_at_def Cons_nth_drop_Suc [symmetric])

lemma get_at_tail: "drop (case get_at rows n of Some row \<Rightarrow> if key row = k then n + 1 else n | None \<Rightarrow> n) rows
    = tail_at key (drop n rows) k"
  by (cases "n < length rows") (auto simp: get_at_def tail_at_def Cons_nth_drop_Suc [symmetric])

lemma cu_valid_left: "cu_valid table c \<longleftrightarrow> left_sources table c \<noteq> [] \<or> left_runs table c \<noteq> [] \<or> left_files table c \<noteq> []"
  by (auto simp: cu_valid_def left_sources_def left_runs_def left_files_def er_rest_empty)

definition stream_heads :: "source_digest list \<Rightarrow> entity_fact list list \<Rightarrow> file_fact list \<Rightarrow> str set" where
  "stream_heads sources runs files =
     (if sources = [] then {} else {sd_path (hd sources)})
     \<union> (if runs = [] then {} else {run_path (hd runs)})
     \<union> (if files = [] then {} else {ff_path (hd files)})"

lemma cu_heads_left: "set (cu_heads table c) = stream_heads (left_sources table c) (left_runs table c) (left_files table c)"
proof -
  have hd: "set_option (map_option key (get_at rows n)) = (if drop n rows = [] then {} else {key (hd (drop n rows))})"
    for key :: "'a \<Rightarrow> str" and rows n
    by (auto simp: get_at_def hd_drop_conv_nth)
  have run: "set (if cu_entity c < cursor_len (pt_entities table) then [cursor_path (pt_entities table) (cu_entity c)] else [])
      = (if left_runs table c = [] then {} else {run_path (hd (left_runs table c))})"
    using er_rest_step [of "cu_entity c" "pt_entities table"] by (simp add: left_runs_def er_rest_empty)
  show ?thesis
    unfolding cu_heads_def stream_heads_def set_append option_list_set run hd left_sources_def left_files_def
    by (rule Un_assoc [symmetric])
qed

lemma cu_rows_left:
  "cu_rows table c =
   \<lparr>pr_path = cu_path table c, pr_source = head_at sd_path (left_sources table c) (cu_path table c),
    pr_entities = (case head_at run_path (left_runs table c) (cu_path table c) of None \<Rightarrow> [] | Some run \<Rightarrow> run),
    pr_file = head_at ff_path (left_files table c) (cu_path table c)\<rparr>"
  using er_rest_step [of "cu_entity c" "pt_entities table"] er_rest_empty [of "pt_entities table" "cu_entity c"]
  by (auto simp: cu_rows_def Let_def get_at_head left_sources_def left_files_def left_runs_def head_at_def
      split: list.split)

lemma cu_next_left:
  "left_sources table (cu_next table c) = tail_at sd_path (left_sources table c) (cu_path table c)"
  "left_runs table (cu_next table c) = tail_at run_path (left_runs table c) (cu_path table c)"
  "left_files table (cu_next table c) = tail_at ff_path (left_files table c) (cu_path table c)"
proof -
  show "left_runs table (cu_next table c) = tail_at run_path (left_runs table c) (cu_path table c)"
    using er_rest_step [of "cu_entity c" "pt_entities table"] er_rest_empty [of "pt_entities table" "cu_entity c"]
    by (auto simp: cu_next_def Let_def left_runs_def tail_at_def split: list.split)
qed (simp_all add: cu_next_def Let_def left_sources_def left_files_def get_at_tail)

text \<open>A stream in order whose keys are at least \<open>k\<close> holds the row of \<open>k\<close> at its head.\<close>

lemma head_at_lookup:
  assumes "keys_ordered key rows" "\<forall>row\<in>set rows. k \<le> key row"
  shows "head_at key rows k = lookup key rows k"
proof (cases rows)
  case (Cons row rest)
  then have "k \<le> key row" using assms(2) by simp
  then have "lookup key rest k = None" using assms(1) Cons by (force simp: lookup_None_iff)
  with Cons show ?thesis by (simp add: head_at_def)
qed (simp add: head_at_def)

lemma tail_at_lookup:
  assumes "keys_ordered key rows" "\<forall>row\<in>set rows. k \<le> key row"
  shows "keys_ordered key (tail_at key rows k)" "\<And>row. row \<in> set (tail_at key rows k) \<Longrightarrow> k < key row"
    "lookup key (tail_at key rows k) = (lookup key rows)(k := None)"
proof -
  have "keys_ordered key (tail_at key rows k) \<and> (\<forall>row\<in>set (tail_at key rows k). k < key row)
      \<and> lookup key (tail_at key rows k) = (lookup key rows)(k := None)"
  proof (cases rows)
    case (Cons row rest)
    show ?thesis
    proof (cases "key row = k")
      case True
      then have "lookup key rest k = None" using assms Cons by (auto simp: lookup_None_iff)
      with True Cons assms show ?thesis by (auto simp: tail_at_def fun_eq_iff)
    next
      case False
      then have "k < key row" using assms(2) Cons by auto
      then have above: "\<forall>row\<in>set rows. k < key row" using assms(1) Cons by force
      then have "lookup key rows k = None" by (auto simp: lookup_None_iff)
      with False Cons above assms(1) show ?thesis by (auto simp: tail_at_def fun_eq_iff)
    qed
  qed (simp add: tail_at_def fun_eq_iff)
  then show "keys_ordered key (tail_at key rows k)" "\<And>row. row \<in> set (tail_at key rows k) \<Longrightarrow> k < key row"
    "lookup key (tail_at key rows k) = (lookup key rows)(k := None)" by auto
qed

text \<open>The rows a cursor visits, one entry per step.\<close>

function walk :: "producer_table \<Rightarrow> path_cursor \<Rightarrow> path_rows list" where
  "walk table c = (if cu_valid table c then cu_rows table c # walk table (cu_next table c) else [])"
  by pat_completeness auto
termination
  by (relation "measure (\<lambda>(table, c). cu_left table c)") (auto simp: cu_next_less)

declare walk.simps [simp del]

definition stream_rows ::
    "source_digest list \<Rightarrow> entity_fact list list \<Rightarrow> file_fact list \<Rightarrow> str \<Rightarrow> path_rows" where
  "stream_rows sources runs files path =
     \<lparr>pr_path = path, pr_source = lookup sd_path sources path,
      pr_entities = (case lookup run_path runs path of None \<Rightarrow> [] | Some run \<Rightarrow> run),
      pr_file = lookup ff_path files path\<rparr>"

definition stream_keys :: "source_digest list \<Rightarrow> entity_fact list list \<Rightarrow> file_fact list \<Rightarrow> str set" where
  "stream_keys sources runs files = sd_path ` set sources \<union> run_path ` set runs \<union> ff_path ` set files"

lemma hd_least: "keys_ordered key rows \<Longrightarrow> row \<in> set rows \<Longrightarrow> key (hd rows) \<le> key row"
  by (cases rows) (auto simp: less_imp_le)

lemma walk_spec:
  assumes "keys_ordered sd_path (left_sources table c)" "keys_ordered run_path (left_runs table c)"
    "keys_ordered ff_path (left_files table c)"
  shows "keys_ordered pr_path (walk table c)
    \<and> (\<forall>path. lookup pr_path (walk table c) path =
        (if path \<in> stream_keys (left_sources table c) (left_runs table c) (left_files table c)
         then Some (stream_rows (left_sources table c) (left_runs table c) (left_files table c) path) else None))"
  using assms
proof (induction table c rule: walk.induct)
  case (1 table c)
  let ?s = "left_sources table c" and ?r = "left_runs table c" and ?f = "left_files table c"
  let ?n = "cu_next table c" and ?p = "cu_path table c"
  show ?case
  proof (cases "cu_valid table c")
    case False
    then show ?thesis by (subst (1 2) walk.simps) (simp add: cu_valid_left stream_keys_def)
  next
    case True
    have min: "?p = Min (stream_heads ?s ?r ?f)" using cu_path_Min [OF True] by (simp add: cu_heads_left)
    have fin: "finite (stream_heads ?s ?r ?f)" by (simp add: stream_heads_def)
    have ne: "stream_heads ?s ?r ?f \<noteq> {}" using True by (auto simp: cu_valid_left stream_heads_def)
    have member: "?p \<in> stream_heads ?s ?r ?f" unfolding min using fin ne by (rule Min_in)
    have least: "?p \<le> h" if "h \<in> stream_heads ?s ?r ?f" for h unfolding min using fin that by (rule Min_le)
    have heads: "?s \<noteq> [] \<Longrightarrow> ?p \<le> sd_path (hd ?s)" "?r \<noteq> [] \<Longrightarrow> ?p \<le> run_path (hd ?r)" "?f \<noteq> [] \<Longrightarrow> ?p \<le> ff_path (hd ?f)"
      by (rule least, simp add: stream_heads_def)+
    have s0: "?p \<le> sd_path x" if "x \<in> set ?s" for x
      using hd_least [OF 1(2) that] heads(1) that by (metis length_pos_if_in_set length_greater_0_conv order_trans)
    have r0: "?p \<le> run_path x" if "x \<in> set ?r" for x
      using hd_least [OF 1(3) that] heads(2) that by (metis length_pos_if_in_set length_greater_0_conv order_trans)
    have f0: "?p \<le> ff_path x" if "x \<in> set ?f" for x
      using hd_least [OF 1(4) that] heads(3) that by (metis length_pos_if_in_set length_greater_0_conv order_trans)
    have s: "\<forall>x\<in>set ?s. ?p \<le> sd_path x" and r: "\<forall>x\<in>set ?r. ?p \<le> run_path x" and f: "\<forall>x\<in>set ?f. ?p \<le> ff_path x"
      using s0 r0 f0 by blast+
    note ts = tail_at_lookup [OF 1(2) s] and tr = tail_at_lookup [OF 1(3) r] and tf = tail_at_lookup [OF 1(4) f]
    have key: "?p \<in> stream_keys ?s ?r ?f"
      using member by (auto simp: stream_heads_def stream_keys_def split: if_splits)
    have rows: "cu_rows table c = stream_rows ?s ?r ?f ?p"
      unfolding cu_rows_left stream_rows_def head_at_lookup [OF 1(2) s] head_at_lookup [OF 1(3) r]
        head_at_lookup [OF 1(4) f] ..
    have keys: "stream_keys (left_sources table ?n) (left_runs table ?n) (left_files table ?n) = stream_keys ?s ?r ?f - {?p}"
    proof -
      have dom: "key ` set rows = dom (lookup key rows)" for key :: "'a \<Rightarrow> str" and rows
        by (rule set_eqI) (metis domIff lookup_None_iff)
      show ?thesis unfolding stream_keys_def cu_next_left dom ts(3) tr(3) tf(3) by auto
    qed
    have same: "stream_rows (left_sources table ?n) (left_runs table ?n) (left_files table ?n) path = stream_rows ?s ?r ?f path"
      if "path \<noteq> ?p" for path
      using that unfolding stream_rows_def cu_next_left ts(3) tr(3) tf(3) by simp
    have IH: "keys_ordered pr_path (walk table ?n)"
      "\<And>path. lookup pr_path (walk table ?n) path = (if path \<in> stream_keys ?s ?r ?f - {?p}
         then Some (stream_rows (left_sources table ?n) (left_runs table ?n) (left_files table ?n) path) else None)"
      using 1(1) [OF True] ts(1) tr(1) tf(1) by (simp_all add: cu_next_left keys [symmetric, unfolded cu_next_left])
    have after: "?p < pr_path x" if "x \<in> set (walk table ?n)" for x
    proof -
      have "lookup pr_path (walk table ?n) (pr_path x) = Some x" using IH(1) that by (rule lookup_member)
      then have "pr_path x \<in> stream_keys (left_sources table ?n) (left_runs table ?n) (left_files table ?n)"
        unfolding keys using IH(2) by (metis option.distinct(1))
      then show ?thesis using ts(2) tr(2) tf(2) by (auto simp: stream_keys_def cu_next_left)
    qed
    have head: "pr_path (cu_rows table c) = ?p" by (simp add: cu_rows_left)
    have "walk table c = cu_rows table c # walk table ?n" by (subst walk.simps) (simp add: True)
    then show ?thesis using IH after head rows key same by auto
  qed
qed

lemma left_new:
  "left_sources table cu_new = pt_sources table" "left_runs table cu_new = er_runs (pt_entities table)"
  "left_files table cu_new = pt_files table"
  by (simp_all add: left_sources_def left_runs_def left_files_def cu_new_def er_runs_def)

text \<open>The order that a table's rows have by contract.\<close>

definition pt_ordered :: "producer_table \<Rightarrow> bool" where
  "pt_ordered table \<longleftrightarrow> keys_ordered sd_path (pt_sources table) \<and> keys_ordered ff_path (pt_files table)
     \<and> keys_ordered sf_id (pt_symbols table) \<and> keys_ordered run_path (er_runs (pt_entities table))
     \<and> (\<forall>run\<in>set (er_runs (pt_entities table)). run \<noteq> [])"

definition pt_paths :: "producer_table \<Rightarrow> str set" where
  "pt_paths table = stream_keys (pt_sources table) (er_runs (pt_entities table)) (pt_files table)"

lemma pr_at_stream:
  "pt_ordered table \<Longrightarrow> pr_at table path = stream_rows (pt_sources table) (er_runs (pt_entities table)) (pt_files table) path"
  by (simp add: pr_at_def stream_rows_def pt_ordered_def pt_source_def pt_file_def sorted_get_lookup er_path_lookup)

lemma walk_new:
  assumes "pt_ordered table"
  shows "keys_ordered pr_path (walk table cu_new)"
    "lookup pr_path (walk table cu_new) path = (if path \<in> pt_paths table then Some (pr_at table path) else None)"
  using walk_spec [of table cu_new] assms by (simp_all add: left_new pt_ordered_def pt_paths_def pr_at_stream)

lemma pr_at_outside: "pt_ordered table \<Longrightarrow> path \<notin> pt_paths table \<Longrightarrow> pr_at table path = pr_empty path"
  by (auto simp: pr_at_stream stream_rows_def pr_empty_def pt_paths_def stream_keys_def lookup_None_iff split: option.split
      dest: lookup_SomeD)

section \<open>What the path planners find\<close>

fun merge_diff :: "path_rows list \<Rightarrow> path_rows list \<Rightarrow> path_op list" where
  "merge_diff (previous # left) (next # right) =
     (if pr_path previous < pr_path next then
        option_list (rows_difference previous (pr_empty (pr_path previous)) all_candidates) @ merge_diff left (next # right)
      else if pr_path next < pr_path previous then
        option_list (rows_difference (pr_empty (pr_path next)) next all_candidates) @ merge_diff (previous # left) right
      else option_list (rows_difference previous next all_candidates) @ merge_diff left right)"
| "merge_diff (previous # left) [] =
     option_list (rows_difference previous (pr_empty (pr_path previous)) all_candidates) @ merge_diff left []"
| "merge_diff [] (next # right) =
     option_list (rows_difference (pr_empty (pr_path next)) next all_candidates) @ merge_diff [] right"
| "merge_diff [] [] = []"

lemma walk_valid: "cu_valid table c \<Longrightarrow> walk table c = cu_rows table c # walk table (cu_next table c)"
  by (subst walk.simps) simp

lemma walk_invalid: "\<not> cu_valid table c \<Longrightarrow> walk table c = []"
  by (subst walk.simps) simp

lemma plan_fallback_merge:
  "plan_fallback_from base previous target next = merge_diff (walk base previous) (walk target next)"
proof (induction base previous target "next" rule: plan_fallback_from.induct)
  case (1 base previous target "next")
  consider (both) "cu_valid base previous" "cu_valid target next"
    | (left) "cu_valid base previous" "\<not> cu_valid target next"
    | (right) "\<not> cu_valid base previous" "cu_valid target next"
    | (none) "\<not> cu_valid base previous" "\<not> cu_valid target next" by blast
  then show ?case
  proof cases
    case both
    have IH: "pr_path (cu_rows base previous) < pr_path (cu_rows target next) \<Longrightarrow>
        plan_fallback_from base (cu_next base previous) target next = merge_diff (walk base (cu_next base previous)) (walk target next)"
      "\<not> pr_path (cu_rows base previous) < pr_path (cu_rows target next) \<Longrightarrow>
        pr_path (cu_rows target next) < pr_path (cu_rows base previous) \<Longrightarrow>
        plan_fallback_from base previous target (cu_next target next) = merge_diff (walk base previous) (walk target (cu_next target next))"
      "\<not> pr_path (cu_rows base previous) < pr_path (cu_rows target next) \<Longrightarrow>
        \<not> pr_path (cu_rows target next) < pr_path (cu_rows base previous) \<Longrightarrow>
        plan_fallback_from base (cu_next base previous) target (cu_next target next)
          = merge_diff (walk base (cu_next base previous)) (walk target (cu_next target next))"
      by (rule 1(1) [OF conjI [OF both] refl refl] 1(2) [OF conjI [OF both] refl refl] 1(3) [OF conjI [OF both] refl refl], assumption+)+
    show ?thesis
      unfolding plan_fallback_from.simps [of base previous target "next"] using both IH by (simp add: Let_def walk_valid)
  next
    case left
    have "plan_fallback_from base (cu_next base previous) target next = merge_diff (walk base (cu_next base previous)) (walk target next)"
      using left by (intro 1(4)) simp_all
    with left show ?thesis
      unfolding plan_fallback_from.simps [of base previous target "next"] by (simp add: Let_def walk_valid walk_invalid)
  next
    case right
    have "plan_fallback_from base previous target (cu_next target next) = merge_diff (walk base previous) (walk target (cu_next target next))"
      using right by (intro 1(5)) simp_all
    with right show ?thesis
      unfolding plan_fallback_from.simps [of base previous target "next"] by (simp add: Let_def walk_valid walk_invalid)
  next
    case none
    then show ?thesis
      unfolding plan_fallback_from.simps [of base previous target "next"] by (simp add: walk_invalid)
  qed
qed

lemma rows_difference_path: "rows_difference previous next candidates = Some op \<Longrightarrow> po_path op = pr_path next"
  by (auto simp: rows_difference_def Let_def split: if_splits)

definition rows_or_empty :: "path_rows list \<Rightarrow> str \<Rightarrow> path_rows" where
  "rows_or_empty rows path = (case lookup pr_path rows path of None \<Rightarrow> pr_empty path | Some row \<Rightarrow> row)"

lemma rows_difference_empty: "rows_difference (pr_empty path) (pr_empty path) candidates = None"
  by (simp add: rows_difference_def pr_empty_def source_difference_def entity_difference_def file_difference_def)

lemma rows_or_empty_path [simp]: "pr_path (rows_or_empty rows path) = path"
  by (auto simp: rows_or_empty_def pr_empty_def dest!: lookup_SomeD split: option.split)

lemma pr_empty_path [simp]: "pr_path (pr_empty path) = path"
  by (simp add: pr_empty_def)

lemma merge_diff_paths: "op \<in> set (merge_diff left right) \<Longrightarrow> po_path op \<in> pr_path ` set left \<union> pr_path ` set right"
proof (induction left right rule: merge_diff.induct)
  case (1 previous left "next" right)
  then show ?case by (auto dest: rows_difference_path split: if_splits)
qed (auto dest: rows_difference_path)

lemma emit_step:
  assumes "\<And>x. op = Some x \<Longrightarrow> po_path x = p" "keys_ordered po_path ops" "\<And>x. x \<in> set ops \<Longrightarrow> p < po_path x"
  shows "keys_ordered po_path (option_list op @ ops)"
    "lookup po_path (option_list op @ ops) path = (if path = p then op else lookup po_path ops path)"
proof -
  have "lookup po_path ops p = None" using assms(3) by (auto simp: lookup_None_iff)
  then show "keys_ordered po_path (option_list op @ ops)"
    "lookup po_path (option_list op @ ops) path = (if path = p then op else lookup po_path ops path)"
    using assms by (cases op; auto simp: keys_ordered_append)+
qed

lemma merge_diff_spec:
  assumes "keys_ordered pr_path left" "keys_ordered pr_path right"
  shows "keys_ordered po_path (merge_diff left right)
    \<and> (\<forall>path. lookup po_path (merge_diff left right) path
        = rows_difference (rows_or_empty left path) (rows_or_empty right path) all_candidates)"
  using assms
proof (induction left right rule: merge_diff.induct)
  case (1 previous left "next" right)
  let ?p = "pr_path previous" and ?n = "pr_path next"
  have lo: "\<forall>x\<in>set left. ?p < pr_path x" and ro: "\<forall>x\<in>set right. ?n < pr_path x" using 1(4,5) by auto
  consider "?p < ?n" | "?n < ?p" | "?p = ?n" by force
  then show ?case
  proof cases
    case less: 1
    then have IH: "keys_ordered po_path (merge_diff left (next # right))"
      "\<And>path. lookup po_path (merge_diff left (next # right)) path
        = rows_difference (rows_or_empty left path) (rows_or_empty (next # right) path) all_candidates"
      using 1(1,4,5) by auto
    have after: "?p < po_path x" if "x \<in> set (merge_diff left (next # right))" for x
      using merge_diff_paths [OF that] lo ro less by (auto intro: less_trans)
    note step = emit_step [of "rows_difference previous (pr_empty ?p) all_candidates" ?p, OF _ IH(1) after]
    have "rows_or_empty (next # right) ?p = pr_empty ?p"
      using ro less by (auto simp: rows_or_empty_def lookup_None_iff split: option.split dest!: lookup_SomeD)
    then show ?thesis
      using step IH(2) less rows_difference_path [of previous "pr_empty ?p"] by (auto simp: rows_or_empty_def)
  next
    case greater: 2
    then have IH: "keys_ordered po_path (merge_diff (previous # left) right)"
      "\<And>path. lookup po_path (merge_diff (previous # left) right) path
        = rows_difference (rows_or_empty (previous # left) path) (rows_or_empty right path) all_candidates"
      using 1(2,4,5) by auto
    have after: "?n < po_path x" if "x \<in> set (merge_diff (previous # left) right)" for x
      using merge_diff_paths [OF that] lo ro greater by (auto intro: less_trans)
    note step = emit_step [of "rows_difference (pr_empty ?n) next all_candidates" ?n, OF _ IH(1) after]
    have "rows_or_empty (previous # left) ?n = pr_empty ?n"
      using lo greater by (auto simp: rows_or_empty_def lookup_None_iff split: option.split dest!: lookup_SomeD)
    then show ?thesis
      using step IH(2) greater rows_difference_path [of "pr_empty ?n" "next"] by (auto simp: rows_or_empty_def)
  next
    case equal: 3
    then have IH: "keys_ordered po_path (merge_diff left right)"
      "\<And>path. lookup po_path (merge_diff left right) path
        = rows_difference (rows_or_empty left path) (rows_or_empty right path) all_candidates"
      using 1(3,4,5) by auto
    have after: "?n < po_path x" if "x \<in> set (merge_diff left right)" for x
      using merge_diff_paths [OF that] lo ro equal by auto
    note step = emit_step [of "rows_difference previous next all_candidates" ?n, OF _ IH(1) after]
    then show ?thesis
      using IH(2) equal rows_difference_path [of previous "next"] by (auto simp: rows_or_empty_def)
  qed
next
  case (2 previous left)
  let ?p = "pr_path previous"
  have IH: "keys_ordered po_path (merge_diff left [])"
    "\<And>path. lookup po_path (merge_diff left []) path
      = rows_difference (rows_or_empty left path) (rows_or_empty [] path) all_candidates" using 2 by auto
  have after: "?p < po_path x" if "x \<in> set (merge_diff left [])" for x
    using merge_diff_paths [OF that] 2(2) by auto
  note step = emit_step [of "rows_difference previous (pr_empty ?p) all_candidates" ?p, OF _ IH(1) after]
  then show ?case
    using IH(2) rows_difference_path [of previous "pr_empty ?p"] by (auto simp: rows_or_empty_def)
next
  case (3 "next" right)
  let ?n = "pr_path next"
  have IH: "keys_ordered po_path (merge_diff [] right)"
    "\<And>path. lookup po_path (merge_diff [] right) path
      = rows_difference (rows_or_empty [] path) (rows_or_empty right path) all_candidates" using 3 by auto
  have after: "?n < po_path x" if "x \<in> set (merge_diff [] right)" for x
    using merge_diff_paths [OF that] 3(3) by auto
  note step = emit_step [of "rows_difference (pr_empty ?n) next all_candidates" ?n, OF _ IH(1) after]
  then show ?case
    using IH(2) rows_difference_path [of "pr_empty ?n" "next"] by (auto simp: rows_or_empty_def)
next
  case 4
  then show ?case by (simp add: rows_or_empty_def rows_difference_empty)
qed

text \<open>
  Every planner yields operations in path order, and is characterised by the operation it finds for
  one path.
\<close>

definition finds :: "path_op list \<Rightarrow> (str \<Rightarrow> path_op option) \<Rightarrow> bool" where
  "finds ops f \<longleftrightarrow> keys_ordered po_path ops \<and> (\<forall>path. lookup po_path ops path = f path)"

lemma rows_or_empty_walk:
  assumes "pt_ordered table"
  shows "rows_or_empty (walk table cu_new) path = pr_at table path"
  using walk_new [OF assms] pr_at_outside [OF assms] by (simp add: rows_or_empty_def)

lemma finds_fallback:
  assumes "pt_ordered base" "pt_ordered target"
  shows "finds (plan_fallback_path_delta base target)
    (\<lambda>path. rows_difference (pr_at base path) (pr_at target path) all_candidates)"
  using merge_diff_spec [OF walk_new(1) [OF assms(1)] walk_new(1) [OF assms(2)]]
  by (simp add: finds_def plan_fallback_path_delta_def plan_fallback_merge rows_or_empty_walk assms)

lemma finds_filter:
  assumes "sorted_wrt (<) paths" "\<And>path op. f path = Some op \<Longrightarrow> po_path op = path"
  shows "finds (List.map_filter f paths) (\<lambda>path. if path \<in> set paths then f path else None)"
  using assms(1)
proof (induction paths)
  case (Cons path paths)
  let ?ops = "List.map_filter f paths"
  have IH: "keys_ordered po_path ?ops" "\<And>q. lookup po_path ?ops q = (if q \<in> set paths then f q else None)"
    using Cons by (auto simp: finds_def)
  have after: "path < po_path x" if "x \<in> set ?ops" for x
    using that Cons.prems assms(2) by (auto simp: List.map_filter_def)
  have "List.map_filter f (path # paths) = option_list (f path) @ ?ops"
    by (simp add: List.map_filter_simps split: option.split)
  with emit_step [of "f path" path ?ops, OF assms(2) IH(1) after] IH(2) show ?case
    unfolding finds_def by simp
qed (simp add: finds_def List.map_filter_simps)

lemma path_difference_path: "path_difference base target path candidates = Some op \<Longrightarrow> po_path op = path"
  by (auto simp: path_difference_def Let_def pr_at_def dest!: rows_difference_path)

lemma sorted_paths: "sorted_wrt (<) (sorted_manifest_paths manifest)"
  by (simp add: sorted_manifest_paths_def)

definition manifest_paths :: "transport_changes \<Rightarrow> str set" where
  "manifest_paths manifest = tm_source_paths manifest \<union> tm_entity_paths manifest \<union> tm_file_paths manifest"

definition manifest_candidates :: "transport_changes \<Rightarrow> str \<Rightarrow> candidates" where
  "manifest_candidates manifest path =
     \<lparr>cd_source = path \<in> tm_source_paths manifest, cd_entity = path \<in> tm_entity_paths manifest,
      cd_file = path \<in> tm_file_paths manifest\<rparr>"

lemma finds_exact:
  assumes "finite (manifest_paths manifest)"
  shows "finds (plan_exact_path_delta base target manifest)
    (\<lambda>path. rows_difference (pr_at base path) (pr_at target path) (manifest_candidates manifest path))"
proof -
  let ?f = "\<lambda>path. path_difference (Some base) target path (manifest_candidates manifest path)"
  have paths: "set (sorted_manifest_paths manifest) = manifest_paths manifest"
    using assms by (simp add: sorted_manifest_paths_def manifest_paths_def)
  have none: "rows_difference a b (manifest_candidates manifest path) = None" if "path \<notin> manifest_paths manifest" for a b path
    using that by (simp add: rows_difference_def manifest_candidates_def manifest_paths_def Let_def)
  have "finds (List.map_filter ?f (sorted_manifest_paths manifest))
      (\<lambda>path. if path \<in> set (sorted_manifest_paths manifest) then ?f path else None)"
    by (rule finds_filter [OF sorted_paths path_difference_path])
  then show ?thesis
    unfolding plan_exact_path_delta_def Let_def manifest_candidates_def [symmetric] finds_def paths
    using none by (simp add: path_difference_def)
qed

lemma finds_sparse:
  assumes "finite (manifest_paths manifest)"
  shows "finds (plan_sparse_paths target manifest)
    (\<lambda>path. if path \<in> manifest_paths manifest then Some (sparse_operation target manifest path) else None)"
proof -
  have "finds (List.map_filter (\<lambda>path. Some (sparse_operation target manifest path)) (sorted_manifest_paths manifest))
      (\<lambda>path. if path \<in> set (sorted_manifest_paths manifest) then Some (sparse_operation target manifest path) else None)"
    by (rule finds_filter [OF sorted_paths]) (auto simp: sparse_operation_def Let_def)
  moreover have "List.map_filter (\<lambda>path. Some (sparse_operation target manifest path)) paths = map (sparse_operation target manifest) paths"
    for paths by (induction paths) (simp_all add: List.map_filter_simps)
  moreover have "set (sorted_manifest_paths manifest) = manifest_paths manifest"
    using assms by (simp add: sorted_manifest_paths_def manifest_paths_def)
  ultimately show ?thesis by (simp add: plan_sparse_paths_def)
qed

lemma full_difference:
  assumes "pt_ordered target" "path \<in> pt_paths target"
  shows "\<exists>op. rows_difference (pr_empty path) (pr_at target path) all_candidates = Some op"
proof -
  let ?s = "pt_sources target" and ?r = "er_runs (pt_entities target)" and ?f = "pt_files target"
  have "lookup sd_path ?s path \<noteq> None \<or> lookup ff_path ?f path \<noteq> None \<or> (\<exists>run. lookup run_path ?r path = Some run \<and> run \<noteq> [])"
  proof (cases "lookup run_path ?r path")
    case None
    then show ?thesis using assms(2) by (auto simp: pt_paths_def stream_keys_def lookup_None_iff)
  next
    case (Some run)
    then show ?thesis using assms(1) lookup_SomeD [OF Some] by (auto simp: pt_ordered_def)
  qed
  then show ?thesis
    unfolding pr_at_stream [OF assms(1)]
    by (auto simp: rows_difference_def Let_def stream_rows_def pr_empty_def all_candidates_def source_difference_def
        file_difference_def entity_difference_def entities_eq_def)
qed

lemma plan_full_walk:
  assumes "pt_ordered target" "pr_path ` set (walk target c) \<subseteq> pt_paths target"
  shows "plan_full_from n target c
    = Inr (List.map_filter (\<lambda>path. path_difference None target path all_candidates) (map pr_path (walk target c)))"
  using assms
proof (induction n target c rule: plan_full_from.induct)
  case (1 n target c)
  show ?case
  proof (cases "cu_valid target c")
    case True
    have head: "pr_path (cu_rows target c) = cu_path target c" by (simp add: cu_rows_left)
    then have "cu_path target c \<in> pt_paths target" using 1(3) by (simp add: walk_valid [OF True])
    then obtain op where op: "path_difference None target (cu_path target c) all_candidates = Some op"
      using full_difference [OF 1(2)] by (auto simp: path_difference_def)
    have "plan_full_from (n + 1) target (cu_next target c)
        = Inr (List.map_filter (\<lambda>path. path_difference None target path all_candidates) (map pr_path (walk target (cu_next target c))))"
      using 1(3) by (intro 1(1) [OF True refl op 1(2)]) (simp add: walk_valid [OF True])
    with True op head show ?thesis
      by (subst plan_full_from.simps) (simp add: walk_valid List.map_filter_simps)
  next
    case False
    then show ?thesis by (subst plan_full_from.simps) (simp add: walk_invalid List.map_filter_simps)
  qed
qed

lemma finds_full:
  assumes "pt_ordered target"
  obtains ops where "plan_full target = Inr ops"
    "finds ops (\<lambda>path. rows_difference (pr_empty path) (pr_at target path) all_candidates)"
proof -
  let ?paths = "map pr_path (walk target cu_new)"
  let ?f = "\<lambda>path. path_difference None target path all_candidates"
  have dom: "set ?paths = pt_paths target"
  proof -
    have "path \<in> pr_path ` set (walk target cu_new) \<longleftrightarrow> path \<in> pt_paths target" for path
      using walk_new(2) [OF assms, of path] lookup_None_iff [of pr_path "walk target cu_new" path] by (auto split: if_splits)
    then show ?thesis by auto
  qed
  have "plan_full target = Inr (List.map_filter ?f ?paths)"
    unfolding plan_full_def using dom by (intro plan_full_walk [OF assms]) simp
  moreover have "finds (List.map_filter ?f ?paths) (\<lambda>path. if path \<in> set ?paths then ?f path else None)"
    using walk_new(1) [OF assms] by (intro finds_filter path_difference_path) (simp add: keys_ordered_def sorted_wrt_map)
  then have "finds (List.map_filter ?f ?paths) (\<lambda>path. rows_difference (pr_empty path) (pr_at target path) all_candidates)"
    unfolding finds_def dom using pr_at_outside [OF assms] by (auto simp: path_difference_def rows_difference_empty)
  ultimately show thesis by (rule that)
qed

section \<open>What a planned path delta does\<close>

definition run_agrees :: "entity_fact list \<Rightarrow> entity_fact list \<Rightarrow> bool" where
  "run_agrees a b \<longleftrightarrow> a = b \<or> entities_eq a b"

text \<open>
  Equality of tables up to the derived equality of entity runs, under which a constant of zero equals one
  of minus zero.
\<close>

definition table_agrees :: "abstract_table \<Rightarrow> abstract_table \<Rightarrow> bool" where
  "table_agrees a b \<longleftrightarrow> at_schema a = at_schema b \<and> at_generation a = at_generation b
     \<and> at_project_id a = at_project_id b \<and> at_sources a = at_sources b \<and> at_files a = at_files b
     \<and> at_symbols a = at_symbols b \<and> (\<forall>path. rel_option run_agrees (at_entities a path) (at_entities b path))"

definition some_run :: "entity_fact list \<Rightarrow> entity_fact list option" where
  "some_run run = (if run = [] then None else Some run)"

text \<open>The rows of a producer table as the client can see them at a schema.\<close>

definition pt_view :: "u64 \<Rightarrow> str \<Rightarrow> producer_table \<Rightarrow> abstract_table" where
  "pt_view schema project table =
     \<lparr>at_schema = schema, at_generation = pt_generation table, at_project_id = project,
      at_sources = (\<lambda>path. map_option sd_sha256 (pt_source table path)),
      at_entities = (\<lambda>path. map_option (map (wire_entity schema)) (some_run (er_path (pt_entities table) path))),
      at_files = pt_file table,
      at_symbols = (\<lambda>ident. map_option wire_symbol (pt_symbol table ident))\<rparr>"

lemma constant_eq_wire: "constant_eq a b \<Longrightarrow> constant_eq (wire_constant a) (wire_constant b)"
  by (auto simp: constant_eq_def wire_constant_def f64_eq_def f64_is_nan_def f64_exponent_def f64_mantissa_def
      split: constant_value_kind.split)

lemma candidate_eq_wire: "candidate_eq a b \<Longrightarrow> candidate_eq (wire_candidate a) (wire_candidate b)"
  by (auto simp: candidate_eq_def wire_candidate_def f64_eq_def f64_is_nan_def f64_exponent_def f64_mantissa_def
      split: primitive_literal_kind.split)

lemma entity_eq_wire:
  assumes "entity_eq a b"
  shows "entity_eq (wire_entity schema a) (wire_entity schema b)"
proof -
  have rest: "a\<lparr>ef_constant_value := None, ef_primitive_literal_candidates := None\<rparr>
      = b\<lparr>ef_constant_value := None, ef_primitive_literal_candidates := None\<rparr>"
    and numbers: "rel_option constant_eq (ef_constant_value a) (ef_constant_value b)"
    and literals: "rel_option (list_all2 candidate_eq) (ef_primitive_literal_candidates a) (ef_primitive_literal_candidates b)"
    using assms by (simp_all add: entity_eq_def)
  have "rel_option constant_eq (map_option wire_constant (ef_constant_value a)) (map_option wire_constant (ef_constant_value b))"
    using numbers by (auto simp: option.rel_map constant_eq_wire elim: option.rel_mono_strong)
  moreover have "rel_option (list_all2 candidate_eq)
      (map_option (map wire_candidate) (non_empty (ef_primitive_literal_candidates a)))
      (map_option (map wire_candidate) (non_empty (ef_primitive_literal_candidates b)))"
    using literals
    by (auto simp: non_empty_def list_all2_map1 list_all2_map2 elim!: option.rel_cases split: list.split
        intro: list_all2_mono [OF _ candidate_eq_wire] candidate_eq_wire)
  moreover have "(wire_entity schema a)\<lparr>ef_constant_value := None, ef_primitive_literal_candidates := None\<rparr>
      = (wire_entity schema b)\<lparr>ef_constant_value := None, ef_primitive_literal_candidates := None\<rparr>"
    using rest by (cases a; cases b) (simp add: wire_entity_def)
  ultimately show ?thesis by (simp add: entity_eq_def wire_entity_def)
qed

lemma run_agrees_wire: "run_agrees a b \<Longrightarrow> run_agrees (map (wire_entity schema) a) (map (wire_entity schema) b)"
  by (auto simp: run_agrees_def entities_eq_def list_all2_map1 list_all2_map2 intro: list_all2_mono [OF _ entity_eq_wire])

lemma f64_eq_trans: "f64_eq x y \<Longrightarrow> f64_eq y z \<Longrightarrow> f64_eq x z"
  by (auto simp: f64_eq_def)

lemma constant_eq_trans: "constant_eq a b \<Longrightarrow> constant_eq b c \<Longrightarrow> constant_eq a c"
  by (auto simp: constant_eq_def intro: f64_eq_trans)

lemma candidate_eq_trans: "candidate_eq a b \<Longrightarrow> candidate_eq b c \<Longrightarrow> candidate_eq a c"
  by (auto simp: candidate_eq_def intro: f64_eq_trans)

lemma entity_eq_trans:
  assumes "entity_eq a b" "entity_eq b c"
  shows "entity_eq a c"
proof -
  have "rel_option constant_eq (ef_constant_value a) (ef_constant_value c)"
    using assms by (auto simp: entity_eq_def elim!: option.rel_cases intro: constant_eq_trans)
  moreover have "rel_option (list_all2 candidate_eq) (ef_primitive_literal_candidates a) (ef_primitive_literal_candidates c)"
    using assms by (auto simp: entity_eq_def elim!: option.rel_cases intro: list_all2_trans [OF candidate_eq_trans])
  ultimately show ?thesis using assms by (simp add: entity_eq_def)
qed

lemma run_agrees_trans: "run_agrees a b \<Longrightarrow> run_agrees b c \<Longrightarrow> run_agrees a c"
  by (auto simp: run_agrees_def entities_eq_def intro: list_all2_trans [OF entity_eq_trans])

lemma spec_path_op_rows [simp]:
  "at_sources (spec_path_op op t) = (at_sources t)(po_path op := slot_after (po_source op) (at_sources t (po_path op)))"
  "at_entities (spec_path_op op t) = (at_entities t)(po_path op := slot_after (po_entities op) (at_entities t (po_path op)))"
  "at_files (spec_path_op op t) = (at_files t)(po_path op := slot_after (po_file op) (at_files t (po_path op)))"
  "at_symbols (spec_path_op op t) = at_symbols t" "at_project_id (spec_path_op op t) = at_project_id t"
  by (simp_all add: spec_path_op_def Let_def)

lemma fold_spec_path:
  assumes "keys_ordered po_path ops"
  shows "at_sources (fold spec_path_op ops t) path =
      (case lookup po_path ops path of None \<Rightarrow> at_sources t path | Some op \<Rightarrow> slot_after (po_source op) (at_sources t path))
    \<and> at_entities (fold spec_path_op ops t) path =
      (case lookup po_path ops path of None \<Rightarrow> at_entities t path | Some op \<Rightarrow> slot_after (po_entities op) (at_entities t path))
    \<and> at_files (fold spec_path_op ops t) path =
      (case lookup po_path ops path of None \<Rightarrow> at_files t path | Some op \<Rightarrow> slot_after (po_file op) (at_files t path))
    \<and> at_symbols (fold spec_path_op ops t) = at_symbols t \<and> at_project_id (fold spec_path_op ops t) = at_project_id t"
  using assms
proof (induction ops arbitrary: t)
  case (Cons op ops)
  have none: "lookup po_path ops (po_path op) = None" using Cons.prems by (auto simp: lookup_None_iff)
  have "keys_ordered po_path ops" using Cons.prems by simp
  from Cons.IH [OF this, of "spec_path_op op t"] none show ?case by (auto split: option.split)
qed simp

lemma finds_wire:
  assumes "finds ops f"
  shows "keys_ordered po_path (map (wire_path_op schema) ops)"
    "lookup po_path (map (wire_path_op schema) ops) path = map_option (wire_path_op schema) (f path)"
proof -
  have "lookup po_path (map (wire_path_op schema) ops) path = map_option (wire_path_op schema) (lookup po_path ops path)"
    by (induction ops) (auto simp: wire_path_op_def)
  then show "lookup po_path (map (wire_path_op schema) ops) path = map_option (wire_path_op schema) (f path)"
    using assms by (simp add: finds_def)
  show "keys_ordered po_path (map (wire_path_op schema) ops)"
    using assms by (simp add: finds_def keys_ordered_def sorted_wrt_map wire_path_op_def)
qed

text \<open>
  An operation for one path that leads from the rows of \<open>base\<close> to those of \<open>target\<close>.
\<close>

definition leads :: "path_rows \<Rightarrow> path_rows \<Rightarrow> path_op option \<Rightarrow> bool" where
  "leads base target op \<longleftrightarrow>
     (let slots = (case op of None \<Rightarrow> (SlotUnchanged, SlotUnchanged, SlotUnchanged)
          | Some op \<Rightarrow> (po_source op, po_entities op, po_file op))
      in case slots of (source, entities, file) \<Rightarrow>
           slot_after source (map_option sd_sha256 (pr_source base)) = map_option sd_sha256 (pr_source target)
           \<and> rel_option run_agrees (slot_after entities (some_run (pr_entities base))) (some_run (pr_entities target))
           \<and> slot_after file (pr_file base) = pr_file target)"

lemma rel_run_refl [simp]: "rel_option run_agrees x x"
  by (rule option.rel_refl) (simp add: run_agrees_def)

text \<open>Which slots of a path agree in two tables.\<close>

definition agree_outside :: "candidates \<Rightarrow> path_rows \<Rightarrow> path_rows \<Rightarrow> bool" where
  "agree_outside candidates base target \<longleftrightarrow>
     (\<not> cd_source candidates \<longrightarrow> map_option sd_sha256 (pr_source base) = map_option sd_sha256 (pr_source target))
     \<and> (\<not> cd_entity candidates \<longrightarrow> pr_entities base = pr_entities target)
     \<and> (\<not> cd_file candidates \<longrightarrow> pr_file base = pr_file target)"

lemma leads_difference:
  assumes "agree_outside candidates base target"
  shows "leads base target (rows_difference base target candidates)"
proof -
  define source where "source = (if cd_source candidates then source_difference (pr_source base) (pr_source target) else SlotUnchanged)"
  define entities where "entities = (if cd_entity candidates then entity_difference (pr_entities base) (pr_entities target) else SlotUnchanged)"
  define filed where "filed = (if cd_file candidates then file_difference (pr_file base) (pr_file target) else SlotUnchanged)"
  have s: "slot_after source (map_option sd_sha256 (pr_source base)) = map_option sd_sha256 (pr_source target)"
    using assms by (auto simp: source_def agree_outside_def source_difference_def split: option.splits)
  have f: "slot_after filed (pr_file base) = pr_file target"
    using assms by (auto simp: filed_def agree_outside_def file_difference_def split: option.splits)
  have e: "rel_option run_agrees (slot_after entities (some_run (pr_entities base))) (some_run (pr_entities target))"
    using assms by (auto simp: entities_def agree_outside_def entity_difference_def run_agrees_def entities_eq_def some_run_def)
  have "rows_difference base target candidates = (if source \<noteq> SlotUnchanged \<or> entities \<noteq> SlotUnchanged \<or> filed \<noteq> SlotUnchanged
      then Some \<lparr>po_path = pr_path target, po_source = source, po_entities = entities, po_file = filed\<rparr> else None)"
    by (simp add: rows_difference_def Let_def source_def entities_def filed_def)
  with s e f show ?thesis by (auto simp: leads_def)
qed

lemma leads_sparse:
  assumes "agree_outside (manifest_candidates manifest path) base (pr_at target path)"
  shows "leads base (pr_at target path)
    (if path \<in> manifest_paths manifest then Some (sparse_operation target manifest path) else None)"
  using assms
  by (auto simp: leads_def Let_def sparse_operation_def agree_outside_def manifest_candidates_def manifest_paths_def run_agrees_def some_run_def
      split: option.splits)

text \<open>A list of operations that leads every path from one table to another takes the one's view to the other's.\<close>

lemma leads_transition:
  assumes finds: "finds ops f" and leads: "\<And>path. leads (base path) (pr_at target path) (f path)"
    and sources: "\<And>path. at_sources t path = map_option sd_sha256 (pr_source (base path))"
    and entities: "\<And>path. rel_option run_agrees (at_entities t path)
        (map_option (map (wire_entity schema)) (some_run (pr_entities (base path))))"
    and files: "\<And>path. at_files t path = pr_file (base path)"
  shows "at_sources (fold spec_path_op (map (wire_path_op schema) ops) t) = at_sources (pt_view schema project target)
    \<and> at_files (fold spec_path_op (map (wire_path_op schema) ops) t) = at_files (pt_view schema project target)
    \<and> (\<forall>path. rel_option run_agrees (at_entities (fold spec_path_op (map (wire_path_op schema) ops) t) path)
        (at_entities (pt_view schema project target) path))"
proof -
  let ?ops = "map (wire_path_op schema) ops"
  let ?t = "fold spec_path_op ?ops t"
  have run: "rel_option run_agrees (slot_after (map_slot_op (map (wire_entity schema)) slot) z)
      (map_option (map (wire_entity schema)) y)"
    if "rel_option run_agrees (slot_after slot x) y" "rel_option run_agrees z (map_option (map (wire_entity schema)) x)" for slot x y z
    using that by (cases slot) (auto simp: option.rel_map elim!: option.rel_cases intro: run_agrees_wire run_agrees_trans [OF _ run_agrees_wire])
  have "at_sources ?t path = at_sources (pt_view schema project target) path
      \<and> at_files ?t path = at_files (pt_view schema project target) path
      \<and> rel_option run_agrees (at_entities ?t path) (at_entities (pt_view schema project target) path)" for path
  proof -
    define slots where "slots = (case f path of None \<Rightarrow> (SlotUnchanged, SlotUnchanged, SlotUnchanged)
        | Some op \<Rightarrow> (po_source op, po_entities op, po_file op))"
    obtain s e g where slots: "slots = (s, e, g)" by (metis prod_cases3)
    have led: "slot_after s (map_option sd_sha256 (pr_source (base path))) = map_option sd_sha256 (pr_source (pr_at target path))"
      "rel_option run_agrees (slot_after e (some_run (pr_entities (base path)))) (some_run (pr_entities (pr_at target path)))"
      "slot_after g (pr_file (base path)) = pr_file (pr_at target path)"
      using leads [of path] slots by (simp_all add: leads_def slots_def [symmetric])
    note at = fold_spec_path [OF finds_wire(1) [OF finds], of schema t path, unfolded finds_wire(2) [OF finds]]
    have "at_sources ?t path = slot_after s (at_sources t path)" "at_files ?t path = slot_after g (at_files t path)"
      "at_entities ?t path = slot_after (map_slot_op (map (wire_entity schema)) e) (at_entities t path)"
      using at slots by (auto simp: slots_def wire_path_op_def split: option.splits)
    with led run [OF led(2) entities] show ?thesis
      by (simp add: sources files pt_view_def pr_at_def Let_def)
  qed
  then show ?thesis by auto
qed

section \<open>What a planned symbol delta does\<close>

lemma wire_symbol_id [simp]: "sf_id (wire_symbol row) = sf_id row"
  by (simp add: wire_symbol_def)

lemma fold_symbol_removes:
  "fold spec_symbol_op (map wire_symbol_op (map (\<lambda>row. \<lparr>sor_id = sf_id row, sor_body = BodyRemove\<rparr>) rows)) m ident
   = (if ident \<in> sf_id ` set rows then None else m ident)"
  by (induction rows arbitrary: m) auto

lemma fold_symbol_replaces:
  "keys_ordered sf_id rows \<Longrightarrow>
   fold spec_symbol_op (map wire_symbol_op (map (\<lambda>row. \<lparr>sor_id = sf_id row, sor_body = BodyReplace row\<rparr>) rows)) m ident
   = (if ident \<in> sf_id ` set rows then map_option wire_symbol (lookup sf_id rows ident) else m ident)"
proof (induction rows arbitrary: m)
  case (Cons row rows)
  have "sf_id row \<notin> sf_id ` set rows" using Cons.prems by auto
  with Cons show ?case by auto
qed simp

lemma fallback_edges:
  "keys_ordered sf_id right \<Longrightarrow> fold spec_symbol_op (map wire_symbol_op (fallback_symbols [] right)) m ident
    = (if ident \<in> sf_id ` set right then map_option wire_symbol (lookup sf_id right ident) else m ident)"
  "fold spec_symbol_op (map wire_symbol_op (fallback_symbols left [])) m ident = (if ident \<in> sf_id ` set left then None else m ident)"
  using fold_symbol_replaces [of right m ident] fold_symbol_removes [of left m ident] by (cases left; simp)+

lemma fallback_effect:
  assumes "keys_ordered sf_id left" "keys_ordered sf_id right"
    "\<forall>row\<in>set left. m (sf_id row) = Some (wire_symbol row)"
  shows "fold spec_symbol_op (map wire_symbol_op (fallback_symbols left right)) m ident
    = (if ident \<in> sf_id ` set left \<union> sf_id ` set right then map_option wire_symbol (lookup sf_id right ident) else m ident)"
  using assms
proof (induction left right arbitrary: m rule: fallback_symbols.induct)
  case (1 previous left "next" right)
  have lo: "\<forall>row\<in>set left. sf_id previous < sf_id row" and ro: "\<forall>row\<in>set right. sf_id next < sf_id row"
    using 1(4,5) by auto
  have fresh: "sf_id previous \<notin> sf_id ` set left" "sf_id next \<notin> sf_id ` set right" using lo ro by auto
  consider "sf_id previous < sf_id next" | "sf_id next < sf_id previous" | "sf_id previous = sf_id next" by force
  then show ?case
  proof cases
    case less: 1
    define m' where "m' = m(sf_id previous := None)"
    have "\<forall>row\<in>set left. m' (sf_id row) = Some (wire_symbol row)" using 1(6) lo by (auto simp: m'_def)
    then have IH: "fold spec_symbol_op (map wire_symbol_op (fallback_symbols left (next # right))) m' ident
        = (if ident \<in> sf_id ` set left \<union> sf_id ` set (next # right)
           then map_option wire_symbol (lookup sf_id (next # right) ident) else m' ident)"
      using 1(1) [OF less, of m'] 1(4,5) by simp
    have "lookup sf_id (next # right) (sf_id previous) = None" using less ro by (auto simp: lookup_None_iff)
    moreover have "m' (sf_id previous) = None" "\<And>k. k \<noteq> sf_id previous \<Longrightarrow> m' k = m k" by (simp_all add: m'_def)
    moreover have "fold spec_symbol_op (map wire_symbol_op (fallback_symbols (previous # left) (next # right))) m ident
        = fold spec_symbol_op (map wire_symbol_op (fallback_symbols left (next # right))) m' ident"
      using less by (simp add: m'_def)
    ultimately show ?thesis using IH by (cases "ident = sf_id previous") auto
  next
    case greater: 2
    define m' where "m' = m(sf_id next \<mapsto> wire_symbol next)"
    have other: "sf_id next \<notin> sf_id ` set (previous # left)" using greater lo by auto
    have "\<forall>row\<in>set (previous # left). m' (sf_id row) = Some (wire_symbol row)"
      unfolding m'_def using 1(6) other by (metis fun_upd_other imageI)
    then have IH: "fold spec_symbol_op (map wire_symbol_op (fallback_symbols (previous # left) right)) m' ident
        = (if ident \<in> sf_id ` set (previous # left) \<union> sf_id ` set right
           then map_option wire_symbol (lookup sf_id right ident) else m' ident)"
      using 1(2) [OF _ greater, of m'] 1(4,5) greater by simp
    have "lookup sf_id right (sf_id next) = None" using fresh(2) by (simp add: lookup_None_iff)
    moreover have "m' (sf_id next) = Some (wire_symbol next)" "\<And>k. k \<noteq> sf_id next \<Longrightarrow> m' k = m k" by (simp_all add: m'_def)
    moreover have "fold spec_symbol_op (map wire_symbol_op (fallback_symbols (previous # left) (next # right))) m ident
        = fold spec_symbol_op (map wire_symbol_op (fallback_symbols (previous # left) right)) m' ident"
      using greater by (auto simp: m'_def)
    ultimately show ?thesis using IH other fresh(2) by (cases "ident = sf_id next") auto
  next
    case equal: 3
    define m' where "m' = (if previous \<noteq> next then m(sf_id next \<mapsto> wire_symbol next) else m)"
    have "\<forall>row\<in>set left. m' (sf_id row) = Some (wire_symbol row)"
      using 1(6) lo equal by (auto simp: m'_def)
    then have IH: "fold spec_symbol_op (map wire_symbol_op (fallback_symbols left right)) m' ident
        = (if ident \<in> sf_id ` set left \<union> sf_id ` set right then map_option wire_symbol (lookup sf_id right ident) else m' ident)"
      using 1(3) [of m'] 1(4,5) equal by simp
    have "m' (sf_id next) = Some (wire_symbol next)" "\<And>k. k \<noteq> sf_id next \<Longrightarrow> m' k = m k"
      using 1(6) equal by (auto simp: m'_def)
    moreover have "fold spec_symbol_op (map wire_symbol_op (fallback_symbols (previous # left) (next # right))) m ident
        = fold spec_symbol_op (map wire_symbol_op (fallback_symbols left right)) m' ident"
      using equal by (simp add: m'_def)
    ultimately show ?thesis using IH fresh equal by (cases "ident = sf_id next") auto
  qed
qed (simp_all add: fallback_edges del: fallback_symbols.simps)

lemma reference_runs_split:
  assumes "sorted (map loc_path locations)" "\<forall>l\<in>set locations. path \<le> loc_path l"
  shows "take (reference_path_end locations path) locations = filter (\<lambda>l. loc_path l = path) locations"
    "drop (reference_path_end locations path) locations = filter (\<lambda>l. path < loc_path l) locations"
    "locations = filter (\<lambda>l. loc_path l = path) locations @ filter (\<lambda>l. path < loc_path l) locations"
proof -
  have tw: "takeWhile (\<lambda>l. loc_path l = path) locations = filter (\<lambda>l. loc_path l = path) locations
      \<and> dropWhile (\<lambda>l. loc_path l = path) locations = filter (\<lambda>l. path < loc_path l) locations"
    using assms
  proof (induction locations)
    case (Cons l locations)
    show ?case
    proof (cases "loc_path l = path")
      case False
      then have "path < loc_path l" using Cons.prems by auto
      then have "\<forall>x\<in>set (l # locations). path < loc_path x" using Cons.prems by force
      then have "filter (\<lambda>l. loc_path l = path) (l # locations) = []" "filter (\<lambda>l. path < loc_path l) (l # locations) = l # locations"
        by (auto simp: filter_empty_conv)
      then show ?thesis using False by simp
    qed (use Cons in auto)
  qed simp
  show "take (reference_path_end locations path) locations = filter (\<lambda>l. loc_path l = path) locations"
    unfolding reference_path_end_def tw [THEN conjunct1, symmetric] by (metis takeWhile_eq_take)
  show "drop (reference_path_end locations path) locations = filter (\<lambda>l. path < loc_path l) locations"
    unfolding reference_path_end_def tw [THEN conjunct2, symmetric] by (metis dropWhile_eq_drop)
  show "locations = filter (\<lambda>l. loc_path l = path) locations @ filter (\<lambda>l. path < loc_path l) locations"
    by (metis takeWhile_dropWhile_id tw)
qed

lemma reference_head_least:
  assumes "sorted (map loc_path previous)" "sorted (map loc_path next)"
  shows "\<forall>l\<in>set previous \<union> set next. reference_head previous next \<le> loc_path l"
proof (cases "(previous, next)" rule: reference_head.cases)
  case (1 n)
  then show ?thesis using assms by (cases n) auto
next
  case (2 a as)
  then show ?thesis using assms by auto
next
  case (3 a as b bs)
  then show ?thesis using assms by (auto simp: not_less intro: order_trans less_imp_le less_le_trans)
qed

definition reference_step :: "symbol_op_ref \<Rightarrow> location list \<Rightarrow> location list" where
  "reference_step op references =
     (case sor_body op of
        BodyReplaceReferencePath path replacement \<Rightarrow> replace_path_references path replacement references
      | _ \<Rightarrow> references)"

lemma reference_head_member:
  "\<not> (previous = [] \<and> next = []) \<Longrightarrow> \<exists>l\<in>set previous \<union> set next. loc_path l = reference_head previous next"
  by (cases "(previous, next)" rule: reference_head.cases) (auto simp: neq_Nil_conv)

lemma reference_delta_unfold:
  fixes previous "next" :: "location list"
  assumes "sorted (map loc_path previous)" "sorted (map loc_path next)" "\<not> (previous = [] \<and> next = [])"
  defines "path \<equiv> reference_head previous next"
  shows "plan_exact_reference_delta ident previous next =
    (if filter (\<lambda>l. loc_path l = path) previous \<noteq> filter (\<lambda>l. loc_path l = path) next
     then [\<lparr>sor_id = ident, sor_body = BodyReplaceReferencePath path (filter (\<lambda>l. loc_path l = path) next)\<rparr>] else [])
    @ plan_exact_reference_delta ident (filter (\<lambda>l. path < loc_path l) previous) (filter (\<lambda>l. path < loc_path l) next)"
proof -
  have least: "\<forall>l\<in>set previous. path \<le> loc_path l" "\<forall>l\<in>set next. path \<le> loc_path l"
    using reference_head_least [OF assms(1,2)] by (auto simp: path_def)
  note p = reference_runs_split [OF assms(1) least(1)] and n = reference_runs_split [OF assms(2) least(2)]
  show ?thesis
    unfolding plan_exact_reference_delta.simps [of ident previous "next"] Let_def path_def [symmetric] p(1,2) n(1,2)
    using assms(3) by (auto simp del: de_Morgan_conj)
qed

lemma reference_delta_effect:
  assumes "sorted (map loc_path previous)" "sorted (map loc_path next)"
    "\<forall>b\<in>set before. \<forall>l\<in>set previous \<union> set next. loc_path b < loc_path l"
  shows "fold reference_step (plan_exact_reference_delta ident previous next) (before @ previous) = before @ next"
  using assms
proof (induction ident previous "next" arbitrary: before rule: plan_exact_reference_delta.induct)
  case (1 ident previous "next")
  show ?case
  proof (cases "previous = [] \<and> next = []")
    case True
    then show ?thesis by (subst plan_exact_reference_delta.simps) simp
  next
    case False
    define path where "path = reference_head previous next"
    have least: "\<forall>l\<in>set previous. path \<le> loc_path l" "\<forall>l\<in>set next. path \<le> loc_path l"
      using reference_head_least [OF 1(2,3)] by (auto simp: path_def)
    note p = reference_runs_split [OF 1(2) least(1)] and n = reference_runs_split [OF 1(3) least(2)]
    let ?pr = "filter (\<lambda>l. loc_path l = path) previous" and ?ps = "filter (\<lambda>l. path < loc_path l) previous"
    let ?nr = "filter (\<lambda>l. loc_path l = path) next" and ?ns = "filter (\<lambda>l. path < loc_path l) next"
    have some: "\<exists>l\<in>set previous \<union> set next. loc_path l = path"
      unfolding path_def by (rule reference_head_member [OF False])
    then have low: "\<forall>b\<in>set before. loc_path b < path" using 1(4) by auto
    have IH: "fold reference_step (plan_exact_reference_delta ident ?ps ?ns) ((before @ ?nr) @ ?ps) = (before @ ?nr) @ ?ns"
    proof -
      have "sorted (map loc_path ?ps)" "sorted (map loc_path ?ns)" using 1(2,3) by (simp_all add: sorted_filter)
      moreover have "\<forall>b\<in>set (before @ ?nr). \<forall>l\<in>set ?ps \<union> set ?ns. loc_path b < loc_path l"
        using low by (auto intro: less_trans)
      ultimately show ?thesis
        using 1(1) [OF False path_def refl refl refl refl, of "before @ ?nr"] unfolding p(2) n(2) by blast
    qed
    have replaced: "replace_path_references path ?nr (before @ previous) = (before @ ?nr) @ ?ps"
    proof -
      have "filter (\<lambda>l. loc_path l < path) (before @ previous) = before"
        using low least(1) by (auto simp: filter_empty_conv filter_id_conv not_less)
      moreover have "filter (\<lambda>l. path < loc_path l) before = []" using low by (auto simp: filter_empty_conv)
      ultimately show ?thesis by (simp add: replace_path_references_def)
    qed
    have unfold: "plan_exact_reference_delta ident previous next =
        (if ?pr \<noteq> ?nr then [\<lparr>sor_id = ident, sor_body = BodyReplaceReferencePath path ?nr\<rparr>] else [])
        @ plan_exact_reference_delta ident ?ps ?ns"
      unfolding path_def by (rule reference_delta_unfold [OF 1(2,3) False])
    have "fold reference_step (plan_exact_reference_delta ident previous next) (before @ previous)
        = fold reference_step (plan_exact_reference_delta ident ?ps ?ns) ((before @ ?nr) @ ?ps)"
      using p(3) replaced by (cases "?pr = ?nr") (simp_all add: unfold reference_step_def)
    also have "\<dots> = before @ next" unfolding IH using n(3) by simp
    finally show ?thesis .
  qed
qed

text \<open>The shape of a reference delta: operations of the one symbol, with ascending paths and the runs of \<open>next\<close>.\<close>

lemma reference_delta_shape:
  assumes "sorted (map loc_path previous)" "sorted (map loc_path next)"
  shows "(\<forall>op\<in>set (plan_exact_reference_delta ident previous next). \<exists>path. op =
      \<lparr>sor_id = ident, sor_body = BodyReplaceReferencePath path (filter (\<lambda>l. loc_path l = path) next)\<rparr>
      \<and> (\<exists>l\<in>set previous \<union> set next. loc_path l = path))
    \<and> sorted_wrt (\<lambda>a b. body_path (sor_body a) < body_path (sor_body b)) (plan_exact_reference_delta ident previous next)"
  using assms
proof (induction ident previous "next" rule: plan_exact_reference_delta.induct)
  case (1 ident previous "next")
  show ?case
  proof (cases "previous = [] \<and> next = []")
    case True
    then show ?thesis by (subst (1 2) plan_exact_reference_delta.simps) simp
  next
    case False
    define path where "path = reference_head previous next"
    have least: "\<forall>l\<in>set previous. path \<le> loc_path l" "\<forall>l\<in>set next. path \<le> loc_path l"
      using reference_head_least [OF 1(2,3)] by (auto simp: path_def)
    note p = reference_runs_split [OF 1(2) least(1)] and n = reference_runs_split [OF 1(3) least(2)]
    let ?pr = "filter (\<lambda>l. loc_path l = path) previous" and ?ps = "filter (\<lambda>l. path < loc_path l) previous"
    let ?nr = "filter (\<lambda>l. loc_path l = path) next" and ?ns = "filter (\<lambda>l. path < loc_path l) next"
    have some: "\<exists>l\<in>set previous \<union> set next. loc_path l = path"
      unfolding path_def by (rule reference_head_member [OF False])
    have sorted: "sorted (map loc_path ?ps)" "sorted (map loc_path ?ns)" using 1(2,3) by (simp_all add: sorted_filter)
    have IH: "\<forall>op\<in>set (plan_exact_reference_delta ident ?ps ?ns). \<exists>q. op =
        \<lparr>sor_id = ident, sor_body = BodyReplaceReferencePath q (filter (\<lambda>l. loc_path l = q) ?ns)\<rparr>
        \<and> (\<exists>l\<in>set ?ps \<union> set ?ns. loc_path l = q)"
      "sorted_wrt (\<lambda>a b. body_path (sor_body a) < body_path (sor_body b)) (plan_exact_reference_delta ident ?ps ?ns)"
      using 1(1) [OF False path_def refl refl refl refl] sorted unfolding p(2) n(2) by blast+
    have same: "filter (\<lambda>l. loc_path l = q) ?ns = filter (\<lambda>l. loc_path l = q) next" if "path < q" for q
      using that by (auto simp: intro: filter_cong)
    have unfold: "plan_exact_reference_delta ident previous next =
        (if ?pr \<noteq> ?nr then [\<lparr>sor_id = ident, sor_body = BodyReplaceReferencePath path ?nr\<rparr>] else [])
        @ plan_exact_reference_delta ident ?ps ?ns"
      unfolding path_def by (rule reference_delta_unfold [OF 1(2,3) False])
    have later: "\<exists>q. path < q \<and> (\<exists>l\<in>set previous \<union> set next. loc_path l = q)
        \<and> op = \<lparr>sor_id = ident, sor_body = BodyReplaceReferencePath q (filter (\<lambda>l. loc_path l = q) next)\<rparr>"
      if "op \<in> set (plan_exact_reference_delta ident ?ps ?ns)" for op
      using IH(1) that same by fastforce
    show ?thesis
      unfolding unfold using later IH(2) some by (auto simp: sorted_wrt_append) fastforce+
  qed
qed

section \<open>Tables the wire can carry\<close>

text \<open>
  The contract of a table's rows: hashes are canonical, runs and references are in order and within the
  decoder's limits, and a symbol that aliases another carries no references of its own.
\<close>

definition pt_fits :: "u64 \<Rightarrow> producer_table \<Rightarrow> bool" where
  "pt_fits schema table \<longleftrightarrow> pt_ordered table
     \<and> (\<forall>source\<in>set (pt_sources table). source_hash_parse (sd_sha256 source) = Inr (sd_sha256 source))
     \<and> (\<forall>run\<in>set (er_runs (pt_entities table)). entities_ok schema (run_path run) run)
     \<and> (\<forall>row\<in>set (pt_files table). ff_fits row)
     \<and> (\<forall>row\<in>set (pt_symbols table). count_ok (sf_declarations row) \<and> count_ok (sf_references row)
          \<and> locations_are_canonical (sf_references row) \<and> (sf_alias_target row \<noteq> [] \<longrightarrow> sf_references row = []))"

lemma pt_lookup:
  assumes "pt_ordered table"
  shows "pt_symbol table = lookup sf_id (pt_symbols table)" "pt_source table = lookup sd_path (pt_sources table)"
    "pt_file table = lookup ff_path (pt_files table)"
  using assms by (simp_all add: fun_eq_iff pt_ordered_def pt_symbol_def pt_source_def pt_file_def sorted_get_lookup)

lemma canonical_sorted: "locations_are_canonical locations \<longleftrightarrow> sorted_wrt (\<lambda>a b. loc_key a \<le> loc_key b) locations"
  unfolding locations_are_canonical_def by (rule successively_conv_sorted_wrt) (auto intro: transpI order_trans)

lemma canonical_filter: "locations_are_canonical locations \<Longrightarrow> locations_are_canonical (filter P locations)"
  unfolding canonical_sorted by (rule sorted_wrt_filter)

lemma symbol_fits:
  assumes "pt_fits schema table" "pt_symbol table ident = Some row"
  shows "sf_id row = ident" "wire_symbol row = row" "sorted (map loc_path (sf_references row))" "symbol_body_ok (BodyReplace row)"
    "locations_are_canonical (sf_references row)" "count_ok (sf_references row)"
proof -
  have "row \<in> set (pt_symbols table) \<and> sf_id row = ident"
    using assms pt_lookup(1) lookup_SomeD [of sf_id "pt_symbols table" ident row] by (simp add: pt_fits_def)
  with assms(1) show "sf_id row = ident" "wire_symbol row = row" "sorted (map loc_path (sf_references row))"
    "symbol_body_ok (BodyReplace row)" "locations_are_canonical (sf_references row)" "count_ok (sf_references row)"
    by (auto simp: pt_fits_def wire_symbol_def canonical_paths)
qed

lemma reference_step_replace [simp]:
  "reference_step \<lparr>sor_id = ident, sor_body = BodyReplaceReferencePath path replacement\<rparr> references
   = replace_path_references path replacement references"
  by (simp add: reference_step_def)

lemma fold_reference_ops:
  assumes "\<forall>op\<in>set ops. \<exists>path references. op = \<lparr>sor_id = ident, sor_body = BodyReplaceReferencePath path references\<rparr>"
    and "m ident = Some row"
  shows "fold spec_symbol_op (map wire_symbol_op ops) m
    = m(ident \<mapsto> row\<lparr>sf_references := fold reference_step ops (sf_references row)\<rparr>)"
  using assms
proof (induction ops arbitrary: m row)
  case (Cons op ops)
  obtain path references where op: "op = \<lparr>sor_id = ident, sor_body = BodyReplaceReferencePath path references\<rparr>"
    using Cons.prems(1) by auto
  let ?row = "row\<lparr>sf_references := replace_path_references path references (sf_references row)\<rparr>"
  have "fold spec_symbol_op (map wire_symbol_op ops) (m(ident \<mapsto> ?row))
      = (m(ident \<mapsto> ?row))(ident \<mapsto> ?row\<lparr>sf_references := fold reference_step ops (sf_references ?row)\<rparr>)"
    using Cons.prems(1) by (intro Cons.IH) auto
  with op Cons.prems(2) show ?case by simp
qed (auto simp: fun_upd_idem)

lemma exact_symbol_effect:
  assumes "pt_fits schema base" "pt_fits schema target" "m ident = pt_symbol base ident"
  shows "fold spec_symbol_op (map wire_symbol_op (exact_symbol_operations base target ident)) m
    = m(ident := pt_symbol target ident)"
proof (cases "pt_symbol base ident")
  case None
  then show ?thesis
    using assms symbol_fits [OF assms(2), of ident]
    by (cases "pt_symbol target ident") (auto simp: exact_symbol_operations_def fun_upd_idem)
next
  case base: (Some previous)
  note p = symbol_fits [OF assms(1) base]
  show ?thesis
  proof (cases "pt_symbol target ident")
    case None
    with base show ?thesis by (simp add: exact_symbol_operations_def)
  next
    case target: (Some "next")
    note n = symbol_fits [OF assms(2) target]
    show ?thesis
    proof (cases "sf_alias_target previous \<noteq> sf_alias_target next \<or> sf_declarations previous \<noteq> sf_declarations next")
      case True
      with base target n show ?thesis by (simp add: exact_symbol_operations_def)
    next
      case False
      let ?ops = "plan_exact_reference_delta ident (sf_references previous) (sf_references next)"
      have "fold spec_symbol_op (map wire_symbol_op ?ops) m
          = m(ident \<mapsto> previous\<lparr>sf_references := fold reference_step ?ops (sf_references previous)\<rparr>)"
        using reference_delta_shape [OF p(3) n(3), of ident, THEN conjunct1] assms(3) base
        by (intro fold_reference_ops ballI) (auto dest!: bspec)
      moreover have "fold reference_step ?ops (sf_references previous) = sf_references next"
        using reference_delta_effect [OF p(3) n(3), of "[]" ident] by simp
      moreover have "previous\<lparr>sf_references := sf_references next\<rparr> = next"
        using False p(1) n(1) by (cases previous; cases "next") simp
      ultimately show ?thesis using base target False by (simp add: exact_symbol_operations_def)
    qed
  qed
qed

lemma exact_symbols_effect:
  assumes "pt_fits schema base" "pt_fits schema target" "distinct idents" "\<forall>ident\<in>set idents. m ident = pt_symbol base ident"
  shows "fold spec_symbol_op (map wire_symbol_op (concat (map (exact_symbol_operations base target) idents))) m ident
    = (if ident \<in> set idents then pt_symbol target ident else m ident)"
  using assms(3,4)
proof (induction idents arbitrary: m)
  case (Cons i idents)
  let ?m = "m(i := pt_symbol target i)"
  have "fold spec_symbol_op (map wire_symbol_op (concat (map (exact_symbol_operations base target) idents))) ?m ident
      = (if ident \<in> set idents then pt_symbol target ident else ?m ident)"
    using Cons.prems by (intro Cons.IH) auto
  with exact_symbol_effect [OF assms(1,2), of m i] Cons.prems show ?case by simp
qed simp

section \<open>A planned transition is one the decoder accepts\<close>

lemma rows_fit:
  assumes "pt_fits schema table"
  shows "pt_source table path = Some source \<Longrightarrow> source_hash_parse (sd_sha256 source) = Inr (sd_sha256 source)"
    "er_path (pt_entities table) path \<noteq> [] \<Longrightarrow> entities_ok schema path (er_path (pt_entities table) path)"
    "pt_file table path = Some row \<Longrightarrow> ff_fits row"
proof -
  have ordered: "pt_ordered table" using assms by (simp add: pt_fits_def)
  note lookups = pt_lookup [OF ordered]
  show "source_hash_parse (sd_sha256 source) = Inr (sd_sha256 source)" if "pt_source table path = Some source"
    using that assms lookups(2) lookup_SomeD [of sd_path "pt_sources table" path source] by (simp add: pt_fits_def)
  show "ff_fits row" if "pt_file table path = Some row"
    using that assms lookups(3) lookup_SomeD [of ff_path "pt_files table" path row] by (simp add: pt_fits_def)
  show "entities_ok schema path (er_path (pt_entities table) path)" if ne: "er_path (pt_entities table) path \<noteq> []"
  proof -
    have eq: "er_path (pt_entities table) path = (case lookup run_path (er_runs (pt_entities table)) path of None \<Rightarrow> [] | Some run \<Rightarrow> run)"
      using ordered by (intro er_path_lookup) (simp add: pt_ordered_def)
    then obtain run where "lookup run_path (er_runs (pt_entities table)) path = Some run"
      using ne by (cases "lookup run_path (er_runs (pt_entities table)) path") simp_all
    with eq lookup_SomeD [OF this] assms show ?thesis by (auto simp: pt_fits_def)
  qed
qed

lemma difference_slots:
  "(\<And>source. next = Some source \<Longrightarrow> P (sd_sha256 source)) \<Longrightarrow> slot_all P (source_difference previous next)"
  "(run \<noteq> [] \<Longrightarrow> Q run) \<Longrightarrow> slot_all Q (entity_difference old run)"
  "(\<And>row. new = Some row \<Longrightarrow> R row) \<Longrightarrow> slot_all R (file_difference prior new)"
  "source_difference None next \<noteq> SlotRemove" "entity_difference [] run \<noteq> SlotRemove" "file_difference None new \<noteq> SlotRemove"
  by (auto simp: source_difference_def entity_difference_def file_difference_def split: option.split)

lemma difference_ok:
  assumes "pt_fits schema target" "rows_difference previous (pr_at target path) candidates = Some op"
    "mode = ModeFull \<Longrightarrow> previous = pr_empty path"
  shows "path_op_ok mode schema op"
proof -
  note fit = rows_fit [OF assms(1)]
  have path: "po_path op = path" using rows_difference_path [OF assms(2)] by (simp add: pr_at_def)
  have s: "po_source op = SlotUnchanged \<or> po_source op = source_difference (pr_source previous) (pt_source target path)"
    and e: "po_entities op = SlotUnchanged \<or> po_entities op = entity_difference (pr_entities previous) (er_path (pt_entities target) path)"
    and f: "po_file op = SlotUnchanged \<or> po_file op = file_difference (pr_file previous) (pt_file target path)"
    and some: "po_source op \<noteq> SlotUnchanged \<or> po_entities op \<noteq> SlotUnchanged \<or> po_file op \<noteq> SlotUnchanged"
    using assms(2) by (auto simp: rows_difference_def Let_def pr_at_def split: if_splits)
  have s': "slot_all (\<lambda>hash. source_hash_parse hash = Inr hash) (source_difference (pr_source previous) (pt_source target path))"
    by (rule difference_slots(1)) (rule fit(1))
  have e': "slot_all (entities_ok schema path) (entity_difference (pr_entities previous) (er_path (pt_entities target) path))"
    by (rule difference_slots(2)) (rule fit(2))
  have f': "slot_all ff_fits (file_difference (pr_file previous) (pt_file target path))"
    by (rule difference_slots(3)) (rule fit(3))
  have "slot_all (\<lambda>hash. source_hash_parse hash = Inr hash) (po_source op)"
    using s s' by (metis slot_all.simps(2))
  moreover have "slot_all (entities_ok schema path) (po_entities op)"
    using e e' by (metis slot_all.simps(2))
  moreover have "slot_all ff_fits (po_file op)"
    using f f' by (metis slot_all.simps(2))
  moreover have "po_source op \<noteq> SlotRemove \<and> po_entities op \<noteq> SlotRemove \<and> po_file op \<noteq> SlotRemove" if "mode = ModeFull"
    using s e f assms(3) [OF that] by (auto simp: pr_empty_def difference_slots(4-6) difference_slots(4-6) [symmetric])
  ultimately show ?thesis using some by (simp add: path_op_ok_def path)
qed

lemma finds_ok:
  assumes "pt_fits schema target" "finds ops f"
    "\<And>path op. f path = Some op \<Longrightarrow> path_op_ok mode schema op"
  shows "list_all (path_op_ok mode schema) ops" "successively (\<lambda>a b. po_path a < po_path b) ops"
proof -
  have "path_op_ok mode schema op" if "op \<in> set ops" for op
    using lookup_member [of po_path ops op] assms(2,3) that by (auto simp: finds_def)
  then show "list_all (path_op_ok mode schema) ops" by (simp add: list_all_iff)
  show "successively (\<lambda>a b. po_path a < po_path b) ops"
    using assms(2) by (intro successively_if_sorted_wrt) (simp add: finds_def keys_ordered_def sorted_wrt_map)
qed

lemma sparse_ok:
  assumes "pt_fits schema target" "path \<in> manifest_paths manifest"
  shows "path_op_ok ModeDelta schema (sparse_operation target manifest path)"
proof -
  note fit = rows_fit [OF assms(1), of path]
  let ?op = "sparse_operation target manifest path"
  have "slot_all (\<lambda>hash. source_hash_parse hash = Inr hash) (po_source ?op)"
    using fit(1) by (simp add: sparse_operation_def Let_def pr_at_def split: option.split)
  moreover have "slot_all (entities_ok schema path) (po_entities ?op)"
    using fit(2) by (simp add: sparse_operation_def Let_def pr_at_def)
  moreover have "slot_all ff_fits (po_file ?op)"
    using fit(3) by (simp add: sparse_operation_def Let_def pr_at_def split: option.split)
  moreover have "po_path ?op = path" by (simp add: sparse_operation_def Let_def)
  moreover have "\<not> (po_source ?op = SlotUnchanged \<and> po_entities ?op = SlotUnchanged \<and> po_file ?op = SlotUnchanged)"
    using assms(2) by (simp add: sparse_operation_def Let_def manifest_paths_def split: option.split) blast
  ultimately show ?thesis by (simp add: path_op_ok_def)
qed

definition symbols_in_order :: "symbol_op_ref list \<Rightarrow> bool" where
  "symbols_in_order ops \<longleftrightarrow> sorted_wrt (\<lambda>a b. symbol_ref_key a < symbol_ref_key b) ops"

lemma fallback_ids: "op \<in> set (fallback_symbols left right) \<Longrightarrow> sor_id op \<in> sf_id ` set left \<union> sf_id ` set right"
  by (induction left right rule: fallback_symbols.induct) (auto split: if_splits)

lemma fallback_in_order:
  assumes "keys_ordered sf_id left" "keys_ordered sf_id right"
  shows "sorted_wrt (\<lambda>a b. sor_id a < sor_id b) (fallback_symbols left right)"
  using assms
proof (induction left right rule: fallback_symbols.induct)
  case (1 previous left "next" right)
  let ?p = "sf_id previous" and ?n = "sf_id next"
  have lo: "\<forall>row\<in>set left. ?p < sf_id row" and ro: "\<forall>row\<in>set right. ?n < sf_id row" using 1(4,5) by auto
  consider "?p < ?n" | "?n < ?p" | "?p = ?n" by force
  then show ?case
  proof cases
    case less: 1
    have "?p < sor_id op" if "op \<in> set (fallback_symbols left (next # right))" for op
      using fallback_ids [OF that] lo ro less by (auto intro: less_trans)
    with 1(1) [OF less] 1(4,5) less show ?thesis by simp
  next
    case greater: 2
    have "?n < sor_id op" if "op \<in> set (fallback_symbols (previous # left) right)" for op
      using fallback_ids [OF that] lo ro greater by (auto intro: less_trans)
    with 1(2) [OF _ greater] 1(4,5) greater show ?thesis by (auto simp: less_not_sym)
  next
    case equal: 3
    have "?n < sor_id op" if "op \<in> set (fallback_symbols left right)" for op
      using fallback_ids [OF that] lo ro equal by auto
    with 1(3) 1(4,5) equal show ?thesis by simp
  qed
qed (simp_all add: sorted_wrt_append sorted_wrt_map keys_ordered_def)

lemma fallback_bodies: "op \<in> set (fallback_symbols left right) \<Longrightarrow>
    sor_body op = BodyRemove \<or> (\<exists>row\<in>set right. sor_body op = BodyReplace row)"
  by (induction left right rule: fallback_symbols.induct) (auto split: if_splits)

lemma exact_operations_ok:
  assumes "pt_fits schema base" "pt_fits schema target"
  shows "(\<forall>op\<in>set (exact_symbol_operations base target ident). sor_id op = ident \<and> symbol_body_ok (sor_body op))
    \<and> symbols_in_order (exact_symbol_operations base target ident)"
proof (cases "pt_symbol target ident")
  case None
  then show ?thesis by (auto simp: exact_symbol_operations_def symbols_in_order_def split: option.splits)
next
  case target: (Some "next")
  note n = symbol_fits [OF assms(2) target]
  show ?thesis
  proof (cases "pt_symbol base ident")
    case None
    with target n show ?thesis by (simp add: exact_symbol_operations_def symbols_in_order_def)
  next
    case base: (Some previous)
    note p = symbol_fits [OF assms(1) base]
    let ?ops = "plan_exact_reference_delta ident (sf_references previous) (sf_references next)"
    note shape = reference_delta_shape [OF p(3) n(3), of ident]
    have bodies: "sor_id op = ident \<and> symbol_body_ok (sor_body op) \<and> symbol_body_tag (sor_body op) = 2" if member: "op \<in> set ?ops" for op
    proof -
      obtain path where op: "op = \<lparr>sor_id = ident, sor_body = BodyReplaceReferencePath path (filter (\<lambda>l. loc_path l = path) (sf_references next))\<rparr>"
        using bspec [OF shape [THEN conjunct1] member] by blast
      have "length (filter (\<lambda>l. loc_path l = path) (sf_references next)) \<le> length (sf_references next)" by (rule length_filter_le)
      then have "count_ok (filter (\<lambda>l. loc_path l = path) (sf_references next))"
        using n(6) unfolding count_ok_def by (rule order_trans)
      then show ?thesis using n(5) by (simp add: op canonical_filter)
    qed
    have "symbols_in_order ?ops"
      unfolding symbols_in_order_def using shape [THEN conjunct2]
      by (rule sorted_wrt_mono_rel [rotated]) (use bodies in \<open>simp add: symbol_ref_key_def less_prod_simp\<close>)
    with base target n bodies show ?thesis
      by (auto simp: exact_symbol_operations_def symbols_in_order_def)
  qed
qed

lemma exact_symbols_ok:
  assumes "pt_fits schema base" "pt_fits schema target" "sorted_wrt (<) idents"
  shows "(\<forall>op\<in>set (concat (map (exact_symbol_operations base target) idents)). symbol_body_ok (sor_body op))
    \<and> symbols_in_order (concat (map (exact_symbol_operations base target) idents))"
  using assms(3)
proof (induction idents)
  case (Cons ident idents)
  have later: "ident < sor_id op" if "op \<in> set (concat (map (exact_symbol_operations base target) idents))" for op
    using that Cons.prems exact_operations_ok [OF assms(1,2)] by fastforce
  with Cons exact_operations_ok [OF assms(1,2), of ident] show ?case
    by (auto simp: symbols_in_order_def sorted_wrt_append symbol_ref_key_def)
qed (simp add: symbols_in_order_def)

section \<open>Planned deltas\<close>

text \<open>
  What a planned delta promises.  \<open>delta_writable\<close>: its operations are ones the writer can send and the
  decoder takes.  \<open>delta_carries\<close>: on any table that agrees with the base's view, the check of the
  reference operations passes and the operations give a table that agrees with the target's view.
\<close>

definition delta_writable :: "u64 \<Rightarrow> path_op list \<Rightarrow> symbol_op_ref list \<Rightarrow> bool" where
  "delta_writable schema paths symbols \<longleftrightarrow>
     list_all (path_op_ok ModeDelta schema) paths \<and> successively (\<lambda>a b. po_path a < po_path b) paths
     \<and> list_all (\<lambda>op. symbol_body_ok (sor_body op)) symbols
     \<and> successively (\<lambda>a b. symbol_ref_key a < symbol_ref_key b) symbols"

definition apply_planned :: "u64 \<Rightarrow> u64 \<Rightarrow> path_op list \<Rightarrow> symbol_op_ref list \<Rightarrow> abstract_table \<Rightarrow> abstract_table" where
  "apply_planned schema generation paths symbols t =
     (fold spec_path_op (map (wire_path_op schema) paths) t)
       \<lparr>at_schema := schema, at_generation := generation,
        at_symbols := fold spec_symbol_op (map wire_symbol_op symbols) (at_symbols t)\<rparr>"

definition delta_carries :: "u64 \<Rightarrow> producer_table \<Rightarrow> producer_table \<Rightarrow> path_op list \<Rightarrow> symbol_op_ref list \<Rightarrow> bool" where
  "delta_carries schema base target paths symbols \<longleftrightarrow>
     (\<forall>project t. table_agrees t (pt_view schema project base) \<longrightarrow>
        spec_validate (map wire_symbol_op symbols) (at_symbols t) = Inr ()
        \<and> table_agrees (apply_planned schema (pt_generation target) paths symbols t) (pt_view schema project target))"

text \<open>A manifest that names every row in which the two tables differ.\<close>

definition manifest_covers :: "transport_changes \<Rightarrow> producer_table \<Rightarrow> producer_table \<Rightarrow> bool" where
  "manifest_covers manifest base target \<longleftrightarrow>
     finite (manifest_paths manifest) \<and> finite (tm_symbol_ids manifest)
     \<and> (\<forall>path. agree_outside (manifest_candidates manifest path) (pr_at base path) (pr_at target path))
     \<and> (\<forall>ident. ident \<notin> tm_symbol_ids manifest \<longrightarrow> pt_symbol base ident = pt_symbol target ident)"

lemma spec_validate_append:
  "spec_validate (ops @ rest) m = rbind (spec_validate ops m) (\<lambda>_. spec_validate rest (fold spec_symbol_op ops m))"
  by (induction ops arbitrary: m) (auto split: symbol_op.split option.split)

lemma carriesI:
  assumes finds: "finds paths f" and leads: "\<And>path. leads (pr_at base path) (pr_at target path) (f path)"
    and symbols: "\<And>m. m = (\<lambda>ident. map_option wire_symbol (pt_symbol base ident)) \<Longrightarrow>
      spec_validate (map wire_symbol_op symbols) m = Inr ()
      \<and> fold spec_symbol_op (map wire_symbol_op symbols) m = (\<lambda>ident. map_option wire_symbol (pt_symbol target ident))"
  shows "delta_carries schema base target paths symbols"
  unfolding delta_carries_def
proof (intro allI impI)
  fix project t assume "table_agrees t (pt_view schema project base)"
  then have t: "at_project_id t = project" "at_sources t path = map_option sd_sha256 (pr_source (pr_at base path))"
    "rel_option run_agrees (at_entities t path) (map_option (map (wire_entity schema)) (some_run (pr_entities (pr_at base path))))"
    "at_files t path = pr_file (pr_at base path)" "at_symbols t = (\<lambda>ident. map_option wire_symbol (pt_symbol base ident))" for path
    by (auto simp: table_agrees_def pt_view_def pr_at_def)
  from leads_transition [OF finds leads t(2) t(3) t(4), where project = project] symbols [OF t(5)] t(1)
  show "spec_validate (map wire_symbol_op symbols) (at_symbols t) = Inr ()
    \<and> table_agrees (apply_planned schema (pt_generation target) paths symbols t) (pt_view schema project target)"
    using fold_spec_path [OF finds_wire(1) [OF finds], of schema t]
    by (simp add: table_agrees_def apply_planned_def t(5)) (simp add: pt_view_def)
qed

lemma difference_writable:
  assumes "pt_fits schema target" "finds paths (\<lambda>path. rows_difference (pr_at base path) (pr_at target path) (c path))"
  shows "list_all (path_op_ok ModeDelta schema) paths \<and> successively (\<lambda>a b. po_path a < po_path b) paths"
proof -
  have ok: "path_op_ok ModeDelta schema op" if "rows_difference (pr_at base path) (pr_at target path) (c path) = Some op" for path op
    using difference_ok [OF assms(1) that, of ModeDelta] by simp
  show ?thesis by (intro conjI finds_ok [OF assms, of ModeDelta]) (erule ok)+
qed

lemma fallback_plan:
  assumes "pt_fits schema base" "pt_fits schema target"
  shows "delta_writable schema (plan_fallback_path_delta base target) (plan_fallback_symbol_delta base target)"
    "delta_carries schema base target (plan_fallback_path_delta base target) (plan_fallback_symbol_delta base target)"
proof -
  let ?symbols = "plan_fallback_symbol_delta base target"
  have ordered: "pt_ordered base" "pt_ordered target" using assms by (simp_all add: pt_fits_def)
  note finds = finds_fallback [OF ordered]
  have rows: "keys_ordered sf_id (pt_symbols base)" "keys_ordered sf_id (pt_symbols target)"
    using ordered by (simp_all add: pt_ordered_def)
  have bodies: "sor_body op = BodyRemove \<or> (\<exists>row\<in>set (pt_symbols target). sor_body op = BodyReplace row)" if "op \<in> set ?symbols" for op
    using fallback_bodies that unfolding plan_fallback_symbol_delta_def .
  have body_ok: "symbol_body_ok (BodyReplace row)" if "row \<in> set (pt_symbols target)" for row
    using assms(2) that by (simp add: pt_fits_def)
  have "list_all (\<lambda>op. symbol_body_ok (sor_body op)) ?symbols"
    unfolding list_all_iff using bodies body_ok by (metis symbol_body_ok.simps(2))
  moreover have "sorted_wrt (\<lambda>a b. symbol_ref_key a < symbol_ref_key b) ?symbols"
    unfolding plan_fallback_symbol_delta_def
    by (rule sorted_wrt_mono_rel [OF _ fallback_in_order [OF rows]]) (simp add: symbol_ref_key_def)
  ultimately show "delta_writable schema (plan_fallback_path_delta base target) ?symbols"
    using difference_writable [OF assms(2) finds] by (simp add: delta_writable_def successively_if_sorted_wrt)
  have "spec_validate (map wire_symbol_op ops) m = Inr ()"
    if "\<forall>op\<in>set ops. sor_body op = BodyRemove \<or> (\<exists>row. sor_body op = BodyReplace row)" for ops m
    using that
  proof (induction ops arbitrary: m)
    case (Cons op ops)
    then show ?case by (cases op) auto
  qed simp
  then have "spec_validate (map wire_symbol_op ?symbols) m = Inr ()" for m using bodies by blast
  moreover have "fold spec_symbol_op (map wire_symbol_op ?symbols) (\<lambda>ident. map_option wire_symbol (pt_symbol base ident))
      = (\<lambda>ident. map_option wire_symbol (pt_symbol target ident))"
  proof
    fix ident
    have "\<forall>row\<in>set (pt_symbols base). map_option wire_symbol (pt_symbol base (sf_id row)) = Some (wire_symbol row)"
      using pt_lookup(1) [OF ordered(1)] lookup_member [OF rows(1)] by simp
    from fallback_effect [OF rows this, of ident]
    show "fold spec_symbol_op (map wire_symbol_op ?symbols) (\<lambda>ident. map_option wire_symbol (pt_symbol base ident)) ident
      = map_option wire_symbol (pt_symbol target ident)"
      using lookup_None_iff [of sf_id "pt_symbols base" ident] lookup_None_iff [of sf_id "pt_symbols target" ident]
      by (auto simp: plan_fallback_symbol_delta_def pt_lookup(1) ordered split: if_splits)
  qed
  ultimately show "delta_carries schema base target (plan_fallback_path_delta base target) ?symbols"
    by (intro carriesI [OF finds] leads_difference) (auto simp: agree_outside_def all_candidates_def)
qed

lemma exact_symbols_plan:
  assumes "pt_fits schema base" "pt_fits schema target" "manifest_covers manifest base target"
  shows "list_all (\<lambda>op. symbol_body_ok (sor_body op)) (plan_exact_symbol_delta base target manifest)"
    "successively (\<lambda>a b. symbol_ref_key a < symbol_ref_key b) (plan_exact_symbol_delta base target manifest)"
    "fold spec_symbol_op (map wire_symbol_op (plan_exact_symbol_delta base target manifest)) (pt_symbol base) = pt_symbol target"
proof -
  let ?idents = "sorted_list_of_set (tm_symbol_ids manifest)"
  have finite: "finite (tm_symbol_ids manifest)" using assms(3) by (simp add: manifest_covers_def)
  have strict: "sorted_wrt (<) ?idents" by simp
  note ok = exact_symbols_ok [OF assms(1,2) strict]
  show "list_all (\<lambda>op. symbol_body_ok (sor_body op)) (plan_exact_symbol_delta base target manifest)"
    using ok by (simp add: plan_exact_symbol_delta_def list_all_iff)
  show "successively (\<lambda>a b. symbol_ref_key a < symbol_ref_key b) (plan_exact_symbol_delta base target manifest)"
    using ok by (intro successively_if_sorted_wrt) (simp add: plan_exact_symbol_delta_def symbols_in_order_def)
  show "fold spec_symbol_op (map wire_symbol_op (plan_exact_symbol_delta base target manifest)) (pt_symbol base) = pt_symbol target"
  proof
    fix ident
    show "fold spec_symbol_op (map wire_symbol_op (plan_exact_symbol_delta base target manifest)) (pt_symbol base) ident
        = pt_symbol target ident"
      using exact_symbols_effect [OF assms(1,2), of ?idents "pt_symbol base" ident] assms(3) finite
      by (simp add: plan_exact_symbol_delta_def manifest_covers_def)
  qed
qed

lemma wire_symbols_fit: "pt_fits schema table \<Longrightarrow> (\<lambda>ident. map_option wire_symbol (pt_symbol table ident)) = pt_symbol table"
  by (rule ext) (auto intro!: option.map_ident_strong symbol_fits(2))

lemma reference_ops_valid:
  assumes "\<forall>op\<in>set ops. \<exists>path references. op = \<lparr>sor_id = ident, sor_body = BodyReplaceReferencePath path references\<rparr>"
    and "m ident = Some row" "sf_alias_target row = []"
  shows "spec_validate (map wire_symbol_op ops) m = Inr ()"
  using assms by (induction ops arbitrary: m row) auto

lemma exact_symbol_valid:
  assumes "pt_fits schema base" "pt_fits schema target" "m ident = pt_symbol base ident"
  shows "spec_validate (map wire_symbol_op (exact_symbol_operations base target ident)) m = Inr ()"
proof (cases "pt_symbol base ident")
  case None
  then show ?thesis by (simp add: exact_symbol_operations_def split: option.split)
next
  case base: (Some previous)
  show ?thesis
  proof (cases "pt_symbol target ident")
    case None
    with base show ?thesis by (simp add: exact_symbol_operations_def)
  next
    case target: (Some "next")
    note p = symbol_fits [OF assms(1) base] and n = symbol_fits [OF assms(2) target]
    have rows: "previous \<in> set (pt_symbols base)" "next \<in> set (pt_symbols target)"
      using base target assms(1,2) pt_lookup(1) lookup_SomeD by (metis pt_fits_def)+
    have "spec_validate (map wire_symbol_op (plan_exact_reference_delta ident (sf_references previous) (sf_references next))) m = Inr ()"
      if "sf_alias_target previous = sf_alias_target next"
    proof (cases "sf_alias_target previous = []")
      case True
      have "\<forall>op\<in>set (plan_exact_reference_delta ident (sf_references previous) (sf_references next)).
          \<exists>path references. op = \<lparr>sor_id = ident, sor_body = BodyReplaceReferencePath path references\<rparr>"
        using reference_delta_shape [OF p(3) n(3), of ident] by blast
      then show ?thesis by (rule reference_ops_valid) (use assms(3) base True in auto)
    next
      case False
      then have "sf_references previous = []" "sf_references next = []"
        using assms(1,2) rows that by (auto simp: pt_fits_def)
      then show ?thesis by (simp add: plan_exact_reference_delta.simps)
    qed
    with base target show ?thesis by (auto simp: exact_symbol_operations_def)
  qed
qed

lemma exact_symbols_valid:
  assumes "pt_fits schema base" "pt_fits schema target" "distinct idents" "\<forall>ident\<in>set idents. m ident = pt_symbol base ident"
  shows "spec_validate (map wire_symbol_op (concat (map (exact_symbol_operations base target) idents))) m = Inr ()"
  using assms(3,4)
proof (induction idents arbitrary: m)
  case (Cons ident idents)
  have "m ident = pt_symbol base ident" using Cons.prems by simp
  note step = exact_symbol_valid [of schema base target m ident, OF assms(1,2) this] exact_symbol_effect [of schema base target m ident, OF assms(1,2) this]
  define m' where "m' = m(ident := pt_symbol target ident)"
  have "\<forall>i\<in>set idents. m' i = pt_symbol base i" using Cons.prems by (auto simp: m'_def)
  from Cons.IH [OF _ this] Cons.prems(1) show ?case by (simp add: spec_validate_append step m'_def [symmetric])
qed simp

lemma exact_plan:
  assumes "pt_fits schema base" "pt_fits schema target" "manifest_covers manifest base target"
  shows "delta_writable schema (plan_exact_path_delta base target manifest) (plan_exact_symbol_delta base target manifest)"
    "delta_carries schema base target (plan_exact_path_delta base target manifest) (plan_exact_symbol_delta base target manifest)"
    "delta_writable schema (plan_sparse_paths target manifest) (plan_exact_symbol_delta base target manifest)"
    "delta_carries schema base target (plan_sparse_paths target manifest) (plan_exact_symbol_delta base target manifest)"
proof -
  let ?symbols = "plan_exact_symbol_delta base target manifest"
  have finite: "finite (manifest_paths manifest)" "finite (tm_symbol_ids manifest)"
    and outside: "agree_outside (manifest_candidates manifest path) (pr_at base path) (pr_at target path)" for path
    using assms(3) by (simp_all add: manifest_covers_def)
  note symbols = exact_symbols_plan [OF assms]
  have "spec_validate (map wire_symbol_op ?symbols) (pt_symbol base) = Inr ()"
    unfolding plan_exact_symbol_delta_def using exact_symbols_valid [OF assms(1,2)] finite(2) by simp
  then have carried: "m = (\<lambda>ident. map_option wire_symbol (pt_symbol base ident)) \<Longrightarrow>
      spec_validate (map wire_symbol_op ?symbols) m = Inr ()
      \<and> fold spec_symbol_op (map wire_symbol_op ?symbols) m = (\<lambda>ident. map_option wire_symbol (pt_symbol target ident))" for m
    using symbols(3) by (simp add: wire_symbols_fit [OF assms(1)] wire_symbols_fit [OF assms(2)])
  note exact = finds_exact [OF finite(1), of base target] and sparse = finds_sparse [OF finite(1), of target]
  show "delta_writable schema (plan_exact_path_delta base target manifest) ?symbols"
    using difference_writable [OF assms(2) exact] symbols(1,2) by (simp add: delta_writable_def)
  show "delta_carries schema base target (plan_exact_path_delta base target manifest) ?symbols"
    by (rule carriesI [OF exact leads_difference [OF outside] carried])
  have ok: "path_op_ok ModeDelta schema op"
    if "(if path \<in> manifest_paths manifest then Some (sparse_operation target manifest path) else None) = Some op" for path op
    using that sparse_ok [OF assms(2), of path manifest] by (auto split: if_splits)
  have "list_all (path_op_ok ModeDelta schema) (plan_sparse_paths target manifest)
      \<and> successively (\<lambda>a b. po_path a < po_path b) (plan_sparse_paths target manifest)"
    by (intro conjI finds_ok [OF assms(2) sparse, of ModeDelta]) (erule ok)+
  then show "delta_writable schema (plan_sparse_paths target manifest) ?symbols"
    using symbols(1,2) by (simp add: delta_writable_def)
  show "delta_carries schema base target (plan_sparse_paths target manifest) ?symbols"
    by (rule carriesI [OF sparse leads_sparse [OF outside] carried])
qed

text \<open>The operations of a full transition, on the empty table.\<close>

definition full_symbols_of :: "producer_table \<Rightarrow> symbol_op_ref list" where
  "full_symbols_of target = map (\<lambda>row. \<lparr>sor_id = sf_id row, sor_body = BodyReplace row\<rparr>) (pt_symbols target)"

lemma full_plan:
  assumes "pt_fits schema target"
  obtains paths where "plan_full target = Inr paths" "list_all (path_op_ok ModeFull schema) paths"
    "successively (\<lambda>a b. po_path a < po_path b) paths" "list_all (\<lambda>op. symbol_body_ok (sor_body op)) (full_symbols_of target)"
    "successively (\<lambda>a b. symbol_ref_key a < symbol_ref_key b) (full_symbols_of target)"
    "table_agrees (apply_planned schema (pt_generation target) paths (full_symbols_of target) (abstract_empty project))
      (pt_view schema project target)"
proof -
  have ordered: "pt_ordered target" using assms by (simp add: pt_fits_def)
  then obtain paths where paths: "plan_full target = Inr paths"
    and finds: "finds paths (\<lambda>path. rows_difference (pr_empty path) (pr_at target path) all_candidates)" by (rule finds_full)
  have rows: "keys_ordered sf_id (pt_symbols target)" using ordered by (simp add: pt_ordered_def)
  have ok: "path_op_ok ModeFull schema op" if "rows_difference (pr_empty path) (pr_at target path) all_candidates = Some op" for path op
    using difference_ok [OF assms that, of ModeFull] by simp
  have leads: "leads (pr_empty path) (pr_at target path) (rows_difference (pr_empty path) (pr_at target path) all_candidates)" for path
    by (rule leads_difference) (simp add: agree_outside_def all_candidates_def)
  have "list_all (\<lambda>op. symbol_body_ok (sor_body op)) (full_symbols_of target)"
    using assms by (simp add: full_symbols_of_def list_all_iff pt_fits_def)
  moreover have "successively (\<lambda>a b. symbol_ref_key a < symbol_ref_key b) (full_symbols_of target)"
    using rows unfolding full_symbols_of_def keys_ordered_def sorted_wrt_map
    by (intro successively_if_sorted_wrt) (auto simp: sorted_wrt_map symbol_ref_key_def elim: sorted_wrt_mono_rel [rotated])
  moreover have "fold spec_symbol_op (map wire_symbol_op (full_symbols_of target)) Map.empty = (\<lambda>ident. map_option wire_symbol (pt_symbol target ident))"
    unfolding full_symbols_of_def fun_eq_iff fold_symbol_replaces [OF rows] pt_lookup(1) [OF ordered]
    using lookup_None_iff [of sf_id "pt_symbols target"] by simp
  then have "table_agrees (apply_planned schema (pt_generation target) paths (full_symbols_of target) (abstract_empty project))
      (pt_view schema project target)"
    using leads_transition [OF finds leads, of "abstract_empty project" schema project] fold_spec_path [OF finds_wire(1) [OF finds], of schema "abstract_empty project"]
    by (simp add: table_agrees_def apply_planned_def abstract_empty_def pr_empty_def some_run_def) (simp add: pt_view_def)
  ultimately show ?thesis
    by (intro that [OF paths] finds_ok [OF assms finds, of ModeFull]) (auto intro: ok)
qed

lemma table_agrees_refl: "table_agrees t t"
  by (simp add: table_agrees_def)

lemma rows_difference_iff:
  "rows_difference (pr_at base path) (pr_at target path) all_candidates \<noteq> None \<longleftrightarrow>
     map_option sd_sha256 (pt_source base path) \<noteq> map_option sd_sha256 (pt_source target path)
     \<or> \<not> entities_eq (er_path (pt_entities base) path) (er_path (pt_entities target) path)
     \<or> pt_file base path \<noteq> pt_file target path"
proof -
  have s: "source_difference a b = SlotUnchanged \<longleftrightarrow> map_option sd_sha256 a = map_option sd_sha256 b" for a b
    by (cases a; cases b) (simp_all add: source_difference_def)
  have e: "entity_difference a b = SlotUnchanged \<longleftrightarrow> entities_eq a b" for a b
    by (cases a; cases b) (simp_all add: entity_difference_def entities_eq_def)
  have f: "file_difference a b = SlotUnchanged \<longleftrightarrow> a = b" for a b
    by (cases a; cases b) (simp_all add: file_difference_def)
  show ?thesis by (simp add: rows_difference_def Let_def all_candidates_def s e f pr_at_def)
qed

section \<open>Properties\<close>

definition ex_previous :: producer_table where
  "ex_previous = (pt_new 1 ''p'')\<lparr>pt_sources := [\<lparr>sd_path = ''a.ts'', sd_sha256 = sha256_prefix @ replicate 64 (CHR ''0'')\<rparr>],
     pt_symbols := [ex_symbol], pt_state_id := 7\<rparr>"

definition ex_manifest :: transport_changes where
  "ex_manifest = \<lparr>tm_base_generation = 1, tm_base_state_id = 7, tm_source_paths = {''a.ts''}, tm_entity_paths = {''a.ts''},
     tm_file_paths = {}, tm_symbol_ids = {''s''}, tm_exact = True\<rparr>"

definition ex_next :: producer_table where
  "ex_next = (pt_new 2 ''p'')\<lparr>pt_entities := Flat [ex_entity], pt_transport := Some ex_manifest\<rparr>"

lemma ex_tables_fit: "pt_fits 24 ex_previous" "pt_fits 24 ex_next"
  by code_simp+

lemma ex_manifest_covers: "manifest_covers ex_manifest ex_previous ex_next"
proof -
  have "agree_outside (manifest_candidates ex_manifest path) (pr_at ex_previous path) (pr_at ex_next path)" for path
    by (simp add: agree_outside_def manifest_candidates_def ex_manifest_def pr_at_def pt_source_def pt_file_def
        sorted_get_def ex_previous_def ex_next_def pt_new_def ex_entity_def ex_location_def partition_point_def get_at_def)
  moreover have "pt_symbol ex_previous ident = pt_symbol ex_next ident" if "ident \<noteq> ''s''" for ident
    using that by (simp add: pt_symbol_def sorted_get_def ex_previous_def ex_next_def pt_new_def partition_point_def get_at_def ex_symbol_def)
  ultimately show ?thesis by (simp add: manifest_covers_def manifest_paths_def ex_manifest_def)
qed

text \<open>C31. A delta planned by comparing two tables is right on every client: when the client's table agrees with
  the base, the client's check passes and the planned operations give a table that agrees with the
  target.  Tables agree when sources, files, symbols and identity are equal and runs are equal up to the
  derived equality of rows, which does not tell the two float zeros apart.  The operations are also in
  the order and of the shape that the decoder requires.\<close>

theorem fallback_delta_correct:
  assumes "pt_fits schema base" "pt_fits schema target" "table_agrees t (pt_view schema project base)"
  shows "delta_writable schema (plan_fallback_path_delta base target) (plan_fallback_symbol_delta base target)
    \<and> spec_validate (map wire_symbol_op (plan_fallback_symbol_delta base target)) (at_symbols t) = Inr ()
    \<and> table_agrees (apply_planned schema (pt_generation target) (plan_fallback_path_delta base target)
          (plan_fallback_symbol_delta base target) t) (pt_view schema project target)"
  using fallback_plan [OF assms(1,2)] assms(3) unfolding delta_carries_def by blast

theorem fallback_delta_correct_witness:
  "table_agrees (apply_planned 24 2 (plan_fallback_path_delta ex_previous ex_next)
     (plan_fallback_symbol_delta ex_previous ex_next) (pt_view 24 ''p'' ex_previous)) (pt_view 24 ''p'' ex_next)
   \<and> at_sources (pt_view 24 ''p'' ex_previous) ''a.ts'' \<noteq> at_sources (pt_view 24 ''p'' ex_next) ''a.ts''"
proof -
  have "at_sources (pt_view 24 ''p'' ex_previous) ''a.ts'' \<noteq> at_sources (pt_view 24 ''p'' ex_next) ''a.ts''"
    "pt_generation ex_next = 2" by code_simp+
  with fallback_delta_correct [OF ex_tables_fit table_agrees_refl] show ?thesis by metis
qed

text \<open>C32. A delta planned from a manifest is as good as one planned by comparing everything: when the manifest
  names every row in which the tables differ, both the exact plan, which still compares the named
  rows, and the sparse plan, which sends them unconditionally, take a client's table that agrees with
  the base to one that agrees with the target.\<close>

theorem manifest_delta_correct:
  assumes "pt_fits schema base" "pt_fits schema target" "manifest_covers manifest base target"
    and "table_agrees t (pt_view schema project base)"
    and "paths = plan_exact_path_delta base target manifest \<or> paths = plan_sparse_paths target manifest"
  shows "delta_writable schema paths (plan_exact_symbol_delta base target manifest)
    \<and> spec_validate (map wire_symbol_op (plan_exact_symbol_delta base target manifest)) (at_symbols t) = Inr ()
    \<and> table_agrees (apply_planned schema (pt_generation target) paths
          (plan_exact_symbol_delta base target manifest) t) (pt_view schema project target)"
  using exact_plan [OF assms(1-3)] assms(4,5) unfolding delta_carries_def by blast

theorem manifest_delta_correct_witness:
  "table_agrees (apply_planned 24 2 (plan_sparse_paths ex_next ex_manifest)
     (plan_exact_symbol_delta ex_previous ex_next ex_manifest) (pt_view 24 ''p'' ex_previous)) (pt_view 24 ''p'' ex_next)
   \<and> at_symbols (pt_view 24 ''p'' ex_previous) ''s'' \<noteq> at_symbols (pt_view 24 ''p'' ex_next) ''s''"
proof -
  have "at_symbols (pt_view 24 ''p'' ex_previous) ''s'' \<noteq> at_symbols (pt_view 24 ''p'' ex_next) ''s''"
    "pt_generation ex_next = 2" by code_simp+
  with manifest_delta_correct [OF ex_tables_fit ex_manifest_covers table_agrees_refl disjI2 [OF refl]] show ?thesis by metis
qed

text \<open>C33. Comparing two tables names exactly the paths that changed, in order and each once: a path has an
  operation if and only if its hash, its run (by the derived equality, under which a row that holds a
  NaN differs from itself) or its file row differs.\<close>

theorem fallback_delta_minimal:
  assumes "pt_ordered base" "pt_ordered target"
  shows "sorted_wrt (<) (map po_path (plan_fallback_path_delta base target))
    \<and> po_path ` set (plan_fallback_path_delta base target)
      = {path. map_option sd_sha256 (pt_source base path) \<noteq> map_option sd_sha256 (pt_source target path)
          \<or> \<not> entities_eq (pt_entities_in base path) (pt_entities_in target path)
          \<or> pt_file base path \<noteq> pt_file target path}"
proof -
  note finds = finds_fallback [OF assms]
  have "path \<in> po_path ` set (plan_fallback_path_delta base target)
      \<longleftrightarrow> map_option sd_sha256 (pt_source base path) \<noteq> map_option sd_sha256 (pt_source target path)
          \<or> \<not> entities_eq (pt_entities_in base path) (pt_entities_in target path)
          \<or> pt_file base path \<noteq> pt_file target path" for path
  proof -
    have "path \<in> po_path ` set (plan_fallback_path_delta base target)
        \<longleftrightarrow> rows_difference (pr_at base path) (pr_at target path) all_candidates \<noteq> None"
      using finds lookup_None_iff [of po_path "plan_fallback_path_delta base target" path] by (auto simp: finds_def)
    then show ?thesis unfolding rows_difference_iff pt_entities_in_def .
  qed
  then show ?thesis using finds by (auto simp: finds_def keys_ordered_def)
qed

theorem fallback_delta_minimal_witness:
  "po_path ` set (plan_fallback_path_delta ex_previous ex_next)
     = {path. map_option sd_sha256 (pt_source ex_previous path) \<noteq> map_option sd_sha256 (pt_source ex_next path)
          \<or> \<not> entities_eq (pt_entities_in ex_previous path) (pt_entities_in ex_next path)
          \<or> pt_file ex_previous path \<noteq> pt_file ex_next path}"
proof -
  have "pt_ordered ex_previous" "pt_ordered ex_next" using ex_tables_fit by (simp_all add: pt_fits_def)
  from fallback_delta_minimal [OF this] show ?thesis by blast
qed

end
