(* ===== verification/TF_Encoder.thy ===== *)
theory TF_Encoder
  imports TF_Plan
begin

text \<open>
  The table-transition encoder (\<^verbatim>\<open>producer/encoder.rs\<close>): the checks of its inputs, the choice of a
  plan, the reuse of an unchanged table and the writing of the frame, buffered or streamed to a sink.
  The properties join the producer to the client: what the encoder sends for a table, the client's
  session turns into a table that agrees with it.
\<close>

section \<open>Inputs and results\<close>

record transition_input =
  ti_project_id :: str
  ti_base_state_token :: str
  ti_base :: "producer_table option"
  ti_target :: producer_table
  ti_sparse :: bool

record encoded_transition =
  et_bytes :: "u8 list"
  et_mode :: transition_mode
  et_path_operations :: nat
  et_symbol_operations :: nat

record transition_encoder =
  te_table_schema :: u64

definition encoder_new :: "u64 \<Rightarrow> transition_encoder" where
  "encoder_new table_schema =
     \<lparr>te_table_schema = (if table_schema = 0 then type_facts_table_schema_v24 else table_schema)\<rparr>"

definition validate_input :: "transition_input \<Rightarrow> encode_error + (transition_mode \<times> u64)" where
  "validate_input input =
     (let target = ti_target input in
      if ti_project_id input = [] then Inl (EncInvalid EncProjectIdEmpty)
      else if pt_schema target \<noteq> type_facts_schema_v1 then Inl (EncInvalid (TargetSchema (pt_schema target)))
      else if pt_generation target = 0 then Inl (EncInvalid TargetGenerationIsZero)
      else case ti_base input of
        None \<Rightarrow>
          if ti_base_state_token input \<noteq> [] then Inl (EncInvalid FullCarriesBaseToken)
          else Inr (ModeFull, 0)
      | Some base \<Rightarrow>
          if pt_schema base \<noteq> type_facts_schema_v1 then Inl (EncInvalid (BaseSchema (pt_schema base)))
          else if ti_base_state_token input = [] then Inl (EncInvalid DeltaWithoutBaseToken)
          else if pt_generation base = 0 then Inl (EncInvalid DeltaBaseGenerationZero)
          else if pt_generation target < pt_generation base
          then Inl (EncInvalid (TargetPrecedesBase (pt_generation target) (pt_generation base)))
          else Inr (ModeDelta, pt_generation base))"

section \<open>Choosing a plan\<close>

text \<open>The operations of a full transition, which rebuilds every row.\<close>

definition plan_full_operations :: "producer_table \<Rightarrow> encode_error + (path_op list \<times> symbol_op_ref list)" where
  "plan_full_operations target =
     rbind (plan_full target) (\<lambda>paths.
     Inr (paths, map (\<lambda>fact. \<lparr>sor_id = sf_id fact, sor_body = BodyReplace fact\<rparr>) (pt_symbols target)))"

definition exact_manifest_for :: "producer_table \<Rightarrow> producer_table \<Rightarrow> transport_changes option" where
  "exact_manifest_for base target =
     (case pt_transport target of
        None \<Rightarrow> None
      | Some manifest \<Rightarrow>
          if tm_exact manifest \<and> pt_state_id base \<noteq> 0 \<and> tm_base_generation manifest = pt_generation base
            \<and> tm_base_state_id manifest = pt_state_id base
          then Some manifest else None)"

definition plan_operations ::
    "transition_input \<Rightarrow> transition_mode \<Rightarrow> encode_error + (path_op list \<times> symbol_op_ref list)" where
  "plan_operations input mode =
     (let target = ti_target input in
      case (mode, ti_base input) of
        (ModeDelta, Some base) \<Rightarrow>
          if ti_sparse input then
            case pt_transport target of
              Some manifest \<Rightarrow>
                if tm_exact manifest
                then Inr (plan_sparse_paths target manifest, plan_exact_symbol_delta base target manifest)
                else Inl SparseUnavailable
            | None \<Rightarrow> Inl SparseUnavailable
          else
            (case exact_manifest_for base target of
               Some manifest \<Rightarrow>
                 Inr (plan_exact_path_delta base target manifest, plan_exact_symbol_delta base target manifest)
             | None \<Rightarrow> Inr (plan_fallback_path_delta base target, plan_fallback_symbol_delta base target))
      | _ \<Rightarrow> plan_full_operations target)"

text \<open>The first half of \<^verbatim>\<open>encode_with\<close>: everything up to the plan that is written.\<close>

definition encoder_plan :: "transition_encoder \<Rightarrow> transition_input \<Rightarrow> encode_error + wire_plan" where
  "encoder_plan encoder input =
     (if te_table_schema encoder \<notin> set supported_table_schemas
      then Inl (EncInvalid (EncUnsupportedSchema (te_table_schema encoder)))
      else
        rbind (validate_input input) (\<lambda>(mode, base_generation).
        rbind (plan_operations input mode) (\<lambda>(paths, symbols).
        Inr \<lparr>wp_mode = mode, wp_table_schema = te_table_schema encoder, wp_base_generation = base_generation,
             wp_target_generation = pt_generation (ti_target input), wp_project_id = ti_project_id input,
             wp_base_state_token = ti_base_state_token input, wp_paths = paths, wp_symbols = symbols\<rparr>)))"

definition plan_reuses :: "wire_plan \<Rightarrow> bool" where
  "plan_reuses plan \<longleftrightarrow> wp_mode plan = ModeDelta \<and> wp_base_generation plan = wp_target_generation plan
     \<and> length (wp_paths plan) = 0 \<and> length (wp_symbols plan) = 0"

definition encode_with ::
    "transition_encoder \<Rightarrow> transition_input \<Rightarrow> 's dyn_sink option
       \<Rightarrow> encode_error + (encoded_transition \<times> 's dyn_sink option)" where
  "encode_with encoder input sink =
     rbind (encoder_plan encoder input) (\<lambda>plan.
     if plan_reuses plan
     then Inr (\<lparr>et_bytes = [], et_mode = wp_mode plan, et_path_operations = 0, et_symbol_operations = 0\<rparr>, sink)
     else
       rbind (write_transition plan sink) (\<lambda>(bytes, sink).
       Inr (\<lparr>et_bytes = bytes, et_mode = wp_mode plan, et_path_operations = length (wp_paths plan),
             et_symbol_operations = length (wp_symbols plan)\<rparr>, sink)))"

definition encode :: "transition_encoder \<Rightarrow> transition_input \<Rightarrow> encode_error + encoded_transition" where
  "encode encoder input =
     rbind (encode_with encoder input (None :: unit dyn_sink option)) (\<lambda>(encoded, _). Inr encoded)"

definition encode_into ::
    "transition_encoder \<Rightarrow> transition_input \<Rightarrow> 's dyn_sink \<Rightarrow> encode_error + (encoded_transition \<times> 's dyn_sink option)" where
  "encode_into encoder input sink = encode_with encoder input (Some sink)"

text \<open>The symbol rows of a full frame; the inner option is \<^verbatim>\<open>None\<close> where building the table panics.\<close>

datatype full_rows_error = FullRowsDecode decode_error | NotAFullTable

definition symbol_facts_of_full_transition :: "u8 list \<Rightarrow> full_rows_error + symbol_fact list option" where
  "symbol_facts_of_full_transition input =
     (case decode_table_transition input of
        Inl e \<Rightarrow> Inl (FullRowsDecode e)
      | Inr transition \<Rightarrow>
          if wt_mode transition \<noteq> ModeFull then Inl NotAFullTable
          else Inr (map_option (\<lambda>table. map ss_to_fact (pi_rows (ft_symbols table))) (materialize_full transition)))"

section \<open>What the encoder relies on\<close>

text \<open>The manifest that \<^verbatim>\<open>encode_with\<close> plans from, if any.\<close>

definition manifest_used :: "transition_input \<Rightarrow> transport_changes option" where
  "manifest_used input =
     (case ti_base input of
        None \<Rightarrow> None
      | Some base \<Rightarrow>
          if ti_sparse input
          then (case pt_transport (ti_target input) of
                  Some manifest \<Rightarrow> if tm_exact manifest then Some manifest else None
                | None \<Rightarrow> None)
          else exact_manifest_for base (ti_target input))"

text \<open>
  The rows of both tables can be sent, and a manifest that is used names every row in which they
  differ (the contract of \<^verbatim>\<open>exact\<close>).
\<close>

definition input_fits :: "u64 \<Rightarrow> transition_input \<Rightarrow> bool" where
  "input_fits schema input \<longleftrightarrow> pt_fits schema (ti_target input)
     \<and> (\<forall>base. ti_base input = Some base \<longrightarrow> pt_fits schema base
          \<and> (\<forall>manifest. manifest_used input = Some manifest \<longrightarrow> manifest_covers manifest base (ti_target input)))"

text \<open>The client of a delta retains a table that agrees with the base, under the token the delta names.\<close>

definition client_has :: "transition_input \<Rightarrow> u64 \<Rightarrow> fact_table option \<Rightarrow> str \<Rightarrow> bool" where
  "client_has input schema retained token \<longleftrightarrow> retained_inv retained
     \<and> (\<forall>base. ti_base input = Some base \<longrightarrow> token = ti_base_state_token input
          \<and> (\<exists>table. retained = Some table
               \<and> table_agrees (ft_abs table) (pt_view schema (ti_project_id input) base)))"

lemma delta_operations:
  assumes "plan_operations input ModeDelta = Inr (paths, symbols)" "ti_base input = Some base" "input_fits schema input"
  shows "delta_writable schema paths symbols \<and> delta_carries schema base (ti_target input) paths symbols"
proof -
  let ?target = "ti_target input"
  have fit: "pt_fits schema base" "pt_fits schema ?target"
    and covers: "manifest_used input = Some manifest \<Longrightarrow> manifest_covers manifest base ?target" for manifest
    using assms(2,3) by (auto simp: input_fits_def)
  show ?thesis
  proof (cases "manifest_used input")
    case None
    then have "paths = plan_fallback_path_delta base ?target" "symbols = plan_fallback_symbol_delta base ?target"
      using assms(1,2) by (auto simp: plan_operations_def manifest_used_def Let_def split: if_splits option.splits)
    then show ?thesis using fallback_plan [OF fit] by simp
  next
    case (Some manifest)
    then have "symbols = plan_exact_symbol_delta base ?target manifest"
      "paths = plan_exact_path_delta base ?target manifest \<or> paths = plan_sparse_paths ?target manifest"
      using assms(1,2) by (auto simp: plan_operations_def manifest_used_def Let_def split: if_splits option.splits)
    then show ?thesis using exact_plan [OF fit covers [OF Some]] by auto
  qed
qed

lemma validate_input_Inr:
  "validate_input input = Inr (mode, generation) \<longleftrightarrow>
     ti_project_id input \<noteq> [] \<and> pt_schema (ti_target input) = type_facts_schema_v1 \<and> pt_generation (ti_target input) \<noteq> 0
     \<and> (case ti_base input of
          None \<Rightarrow> ti_base_state_token input = [] \<and> mode = ModeFull \<and> generation = 0
        | Some base \<Rightarrow> pt_schema base = type_facts_schema_v1 \<and> ti_base_state_token input \<noteq> [] \<and> pt_generation base \<noteq> 0
            \<and> pt_generation base \<le> pt_generation (ti_target input) \<and> mode = ModeDelta \<and> generation = pt_generation base)"
  by (auto simp: validate_input_def Let_def not_less split: option.split)

lemma encoder_plan_fields:
  assumes "encoder_plan encoder input = Inr plan"
  shows "validate_input input = Inr (wp_mode plan, wp_base_generation plan)"
    "plan_operations input (wp_mode plan) = Inr (wp_paths plan, wp_symbols plan)"
    "wp_table_schema plan = te_table_schema encoder" "te_table_schema encoder \<in> set supported_table_schemas"
    "wp_target_generation plan = pt_generation (ti_target input)" "wp_project_id plan = ti_project_id input"
    "wp_base_state_token plan = ti_base_state_token input"
  using assms by (auto simp: encoder_plan_def rbind_Inr_iff split: if_splits)

lemma encoder_plan_ok:
  assumes plan: "encoder_plan encoder input = Inr plan" and fits: "input_fits (te_table_schema encoder) input"
    and counts: "count_ok (wp_paths plan)" "count_ok (wp_symbols plan)"
  shows "plan_ok plan"
proof (cases "ti_base input")
  note fields = encoder_plan_fields [OF plan]
  note valid = fields(1) [unfolded validate_input_Inr]
  case None
  then have mode: "wp_mode plan = ModeFull" using valid by simp
  have target: "pt_fits (te_table_schema encoder) (ti_target input)" using fits by (simp add: input_fits_def)
  obtain paths where "plan_full (ti_target input) = Inr paths" "list_all (path_op_ok ModeFull (te_table_schema encoder)) paths"
    "successively (\<lambda>a b. po_path a < po_path b) paths" "list_all (\<lambda>op. symbol_body_ok (sor_body op)) (full_symbols_of (ti_target input))"
    "successively (\<lambda>a b. symbol_ref_key a < symbol_ref_key b) (full_symbols_of (ti_target input))"
    by (rule full_plan [OF target])
  then show ?thesis using fields counts valid None mode
    by (auto simp: plan_ok_def plan_operations_def plan_full_operations_def full_symbols_of_def check_base_identity_def)
next
  note fields = encoder_plan_fields [OF plan]
  note valid = fields(1) [unfolded validate_input_Inr]
  case (Some base)
  then have "wp_mode plan = ModeDelta" using valid by simp
  then show ?thesis using delta_operations [OF _ Some fits, of "wp_paths plan" "wp_symbols plan"] fields counts valid Some
    by (auto simp: plan_ok_def delta_writable_def check_base_identity_def)
qed

text \<open>A planned transition on its client's table, full or delta.\<close>

lemma encoder_plan_delta:
  assumes plan: "encoder_plan encoder input = Inr plan" and fits: "input_fits (te_table_schema encoder) input"
    and base: "ti_base input = Some base"
    and t: "table_agrees t (pt_view (te_table_schema encoder) (ti_project_id input) base)"
  shows "spec_validate (map wire_symbol_op (wp_symbols plan)) (at_symbols t) = Inr ()"
    "table_agrees (apply_planned (te_table_schema encoder) (pt_generation (ti_target input)) (wp_paths plan) (wp_symbols plan) t)
       (pt_view (te_table_schema encoder) (ti_project_id input) (ti_target input))"
proof -
  note fields = encoder_plan_fields [OF plan]
  have "wp_mode plan = ModeDelta" using fields(1) [unfolded validate_input_Inr] base by simp
  with delta_operations [OF _ base fits, of "wp_paths plan" "wp_symbols plan"] fields(2) t
  show "spec_validate (map wire_symbol_op (wp_symbols plan)) (at_symbols t) = Inr ()"
    "table_agrees (apply_planned (te_table_schema encoder) (pt_generation (ti_target input)) (wp_paths plan) (wp_symbols plan) t)
       (pt_view (te_table_schema encoder) (ti_project_id input) (ti_target input))"
    by (auto simp: delta_carries_def)
qed

lemma encoder_plan_full:
  assumes plan: "encoder_plan encoder input = Inr plan" and fits: "input_fits (te_table_schema encoder) input"
    and base: "ti_base input = None"
  shows "table_agrees (apply_planned (te_table_schema encoder) (pt_generation (ti_target input)) (wp_paths plan) (wp_symbols plan)
       (abstract_empty (ti_project_id input))) (pt_view (te_table_schema encoder) (ti_project_id input) (ti_target input))"
proof -
  note fields = encoder_plan_fields [OF plan]
  have "pt_fits (te_table_schema encoder) (ti_target input)" using fits by (simp add: input_fits_def)
  then obtain paths where "plan_full (ti_target input) = Inr paths"
    "table_agrees (apply_planned (te_table_schema encoder) (pt_generation (ti_target input)) paths (full_symbols_of (ti_target input))
       (abstract_empty (ti_project_id input))) (pt_view (te_table_schema encoder) (ti_project_id input) (ti_target input))"
    by (rule full_plan)
  moreover have "wp_mode plan = ModeFull" using fields(1) [unfolded validate_input_Inr] base by simp
  ultimately show ?thesis using fields(2) base
    by (auto simp: plan_operations_def plan_full_operations_def full_symbols_of_def)
qed

lemma planned_meaning:
  "spec_transition (wire_transition plan) t
   = apply_planned (wp_table_schema plan) (wp_target_generation plan) (wp_paths plan) (wp_symbols plan) t"
  "wt_mode (wire_transition plan) = wp_mode plan" "wt_project_id (wire_transition plan) = wp_project_id plan"
  by (simp_all add: spec_transition_def apply_planned_def wire_transition_def)

section \<open>From the producer's table to the client's\<close>

lemma frame_not_empty:
  assumes "plan_ok plan" "transition_frame plan = Inr bytes" "strings_ok (transition_strings plan)" "length bytes < 2 ^ 64"
  shows "bytes \<noteq> []"
proof
  assume "bytes = []"
  with decode_write [OF assms] have "decode_table_transition [] = Inr (wire_transition plan)" by simp
  moreover have "decode_table_transition [] \<noteq> Inr t" for t by code_simp
  ultimately show False by blast
qed

lemma encode_Inr:
  assumes "encode encoder input = Inr encoded"
  obtains plan where "encoder_plan encoder input = Inr plan" "et_mode encoded = wp_mode plan"
    "if plan_reuses plan then et_bytes encoded = [] else transition_frame plan = Inr (et_bytes encoded)"
    "et_path_operations encoded = length (wp_paths plan)" "et_symbol_operations encoded = length (wp_symbols plan)"
proof -
  obtain plan where plan: "encoder_plan encoder input = Inr plan"
    using assms by (auto simp: encode_def encode_with_def rbind_Inr_iff)
  show ?thesis
  proof (rule that [OF plan])
    show "if plan_reuses plan then et_bytes encoded = [] else transition_frame plan = Inr (et_bytes encoded)"
      "et_mode encoded = wp_mode plan"
      "et_path_operations encoded = length (wp_paths plan)" "et_symbol_operations encoded = length (wp_symbols plan)"
      using assms plan
      by (auto simp: encode_def encode_with_def rbind_Inr_iff transition_frame_def plan_reuses_def split: if_splits)
  qed
qed

lemma reuse_agrees:
  assumes plan: "encoder_plan encoder input = Inr plan" and reuse: "plan_reuses plan"
    and fits: "input_fits (te_table_schema encoder) input" and base: "ti_base input = Some base"
    and t: "table_agrees t (pt_view (te_table_schema encoder) (ti_project_id input) base)"
  shows "pt_generation base = pt_generation (ti_target input)"
    "table_agrees t (pt_view (te_table_schema encoder) (ti_project_id input) (ti_target input))"
proof -
  note fields = encoder_plan_fields [OF plan]
  have empty: "wp_paths plan = []" "wp_symbols plan = []" using reuse by (simp_all add: plan_reuses_def)
  show generation: "pt_generation base = pt_generation (ti_target input)"
    using fields(1,5) reuse base by (simp add: validate_input_Inr plan_reuses_def)
  have same: "apply_planned (te_table_schema encoder) (pt_generation (ti_target input)) [] [] t = t"
    using t generation by (simp add: apply_planned_def table_agrees_def pt_view_def)
  from encoder_plan_delta(2) [OF plan fits base t]
  show "table_agrees t (pt_view (te_table_schema encoder) (ti_project_id input) (ti_target input))"
    unfolding empty same .
qed

lemma client_base_matches:
  assumes plan: "encoder_plan encoder input = Inr plan" "plan_ok plan" and fits: "input_fits (te_table_schema encoder) input"
    and client: "client_has input (te_table_schema encoder) retained token"
    and shape: "transition_shape (wire_transition plan)"
  shows "base_matches (wire_transition plan) retained token"
proof (cases "ti_base input")
  case None
  then show ?thesis using encoder_plan_fields(1) [OF plan(1)]
    by (simp add: base_matches_def validate_input_Inr wire_transition_def)
next
  case (Some base)
  note fields = encoder_plan_fields [OF plan(1)]
  obtain table where table: "retained = Some table" "ft_inv table" "token = ti_base_state_token input"
    and agrees: "table_agrees (ft_abs table) (pt_view (te_table_schema encoder) (ti_project_id input) base)"
    using client Some by (auto simp: client_has_def)
  have "validate_delta table (wire_transition plan) = Inr ()"
    using encoder_plan_delta(1) [OF plan(1) fits Some agrees] validate_delta_spec [OF table(2) shape] by (simp add: wire_transition_def)
  then show ?thesis using fields table agrees Some
    by (simp add: base_matches_def validate_input_Inr wire_transition_def table_agrees_def pt_view_def)
qed

lemma encoded_arrives:
  assumes encoded: "encode encoder input = Inr encoded" and plan: "encoder_plan encoder input = Inr plan"
    and schema: "te_table_schema encoder = type_facts_table_schema_v24"
    and limits: "count_ok (wp_paths plan)" "count_ok (wp_symbols plan)" "strings_ok (transition_strings plan)"
      "length (et_bytes encoded) < 2 ^ 64"
    and fits: "input_fits (te_table_schema encoder) input"
    and client: "client_has input (te_table_schema encoder) retained token"
    and response: "rs_schema response = type_facts_schema_v1" "rs_state_token response \<noteq> []"
      "rs_table_transition response = et_bytes encoded" "rs_project_id response = ti_project_id input"
      "rs_generation response = pt_generation (ti_target input)"
  shows "\<exists>table changes derived.
    prepare_analyze_response_mode response (ti_project_id input) (pt_generation (ti_target input)) retained token
      = Some (Inr (table, changes, derived))
    \<and> ft_inv table \<and> table_agrees (ft_abs table) (pt_view type_facts_table_schema_v24 (ti_project_id input) (ti_target input))"
proof (cases "plan_reuses plan")
  note fields = encoder_plan_fields [OF plan]
  case True
  then have empty: "et_bytes encoded = []" using encode_Inr [OF encoded] plan by (metis Inr_inject)
  obtain base where base: "ti_base input = Some base"
    using True fields(1) by (cases "ti_base input") (simp_all add: plan_reuses_def validate_input_Inr)
  obtain table where table: "retained = Some table" "ft_inv table"
    and agrees: "table_agrees (ft_abs table) (pt_view (te_table_schema encoder) (ti_project_id input) base)"
    using client base by (auto simp: client_has_def)
  from reuse_agrees(2) [OF plan True fits base agrees]
  show ?thesis using table empty response schema
    by (auto simp: prepare_analyze_response_mode_def table_agrees_def pt_view_def)
next
  note fields = encoder_plan_fields [OF plan]
  case False
  then have frame: "transition_frame plan = Inr (et_bytes encoded)" using encode_Inr [OF encoded] plan by (metis Inr_inject)
  have ok: "plan_ok plan" by (rule encoder_plan_ok [OF plan fits limits(1,2)])
  have shape: "transition_shape (wire_transition plan)" by (rule decode_shape [OF decode_write [OF ok frame limits(3,4)]])
  have retained: "retained_inv retained" using client by (simp add: client_has_def)
  obtain table changes derived where
    ok': "prepare_analyze_response_mode response (ti_project_id input) (pt_generation (ti_target input)) retained token
      = Some (Inr (table, changes, derived))" "ft_inv table"
    and meaning: "Some (ft_abs table) = transition_meaning (wire_transition plan) retained"
    using frame_accepted [OF ok frame limits(3,4) _ response(1-3) _ _ retained client_base_matches [OF plan ok fits client shape]]
      response(4,5) schema fields by auto
  have "table_agrees (ft_abs table) (pt_view type_facts_table_schema_v24 (ti_project_id input) (ti_target input))"
  proof (cases "ti_base input")
    case None
    then show ?thesis using meaning encoder_plan_full [OF plan fits None] fields(1,3,5,6) schema
      by (simp add: transition_meaning_def planned_meaning validate_input_Inr)
  next
    case (Some base)
    then obtain old where "retained = Some old"
      "table_agrees (ft_abs old) (pt_view (te_table_schema encoder) (ti_project_id input) base)"
      using client by (auto simp: client_has_def)
    then show ?thesis using meaning encoder_plan_delta(2) [OF plan fits Some] fields(1,3,5,6) schema Some
      by (simp add: transition_meaning_def planned_meaning validate_input_Inr)
  qed
  with ok' show ?thesis by blast
qed

section \<open>A transition to send\<close>

definition ex_input :: transition_input where
  "ex_input = \<lparr>ti_project_id = ''p'', ti_base_state_token = ''t'', ti_base = Some ex_previous, ti_target = ex_next,
     ti_sparse = True\<rparr>"

lemma ex_encoder_plan: "encoder_plan (encoder_new 0) ex_input = Inr ex_plan"
  by code_simp

lemma ex_schema: "te_table_schema (encoder_new 0) = 24" "type_facts_table_schema_v24 = 24"
  by (simp_all add: encoder_new_def type_facts_table_schema_v24_def)

lemma ex_encode: "encode (encoder_new 0) ex_input = Inr \<lparr>et_bytes = ex_frame, et_mode = ModeDelta, et_path_operations = 1, et_symbol_operations = 1\<rparr>"
proof -
  have "\<not> plan_reuses ex_plan" "wp_mode ex_plan = ModeDelta" "length (wp_paths ex_plan) = 1" "length (wp_symbols ex_plan) = 1"
    by (simp_all add: plan_reuses_def ex_plan_def)
  then show ?thesis
    using ex_frame_written by (auto simp: encode_def encode_with_def ex_encoder_plan transition_frame_def rbind_Inr_iff)
qed

lemma ex_input_fits: "input_fits 24 ex_input"
  using ex_tables_fit ex_manifest_covers
  by (auto simp: input_fits_def ex_input_def manifest_used_def ex_next_def split: if_splits)

text \<open>The client's table before the transition: what a full transition for the base built.\<close>

definition ex_base_plan :: wire_plan where
  "ex_base_plan = \<lparr>wp_mode = ModeFull, wp_table_schema = 24, wp_base_generation = 0, wp_target_generation = 1, wp_project_id = ''p'',
     wp_base_state_token = [], wp_paths = [\<lparr>po_path = ''a.ts'', po_source = SlotReplace (sha256_prefix @ replicate 64 (CHR ''0'')),
       po_entities = SlotUnchanged, po_file = SlotUnchanged\<rparr>], wp_symbols = [\<lparr>sor_id = ''s'', sor_body = BodyReplace ex_symbol\<rparr>]\<rparr>"

lemma ex_base_plan: "encoder_plan (encoder_new 0) (ex_input\<lparr>ti_base := None, ti_base_state_token := [], ti_target := ex_previous\<rparr>) = Inr ex_base_plan"
  by code_simp

lemma ex_client:
  "\<exists>table. ft_inv table \<and> table_agrees (ft_abs table) (pt_view 24 ''p'' ex_previous)"
proof -
  let ?input = "ex_input\<lparr>ti_base := None, ti_base_state_token := [], ti_target := ex_previous\<rparr>"
  have "transition_shape (wire_transition ex_base_plan)" "wt_mode (wire_transition ex_base_plan) = ModeFull" by code_simp+
  from materialize_full_refines [OF this] obtain table where table: "ft_inv table"
    "ft_abs table = spec_transition (wire_transition ex_base_plan) (abstract_empty ''p'')"
    by (auto simp: planned_meaning ex_base_plan_def)
  have "input_fits 24 ?input" using ex_tables_fit(1) by (simp add: input_fits_def)
  from encoder_plan_full [OF ex_base_plan, unfolded ex_schema(1), OF this]
  have "table_agrees (ft_abs table) (pt_view 24 ''p'' ex_previous)"
    by (simp add: table(2) planned_meaning ex_input_def ex_previous_def pt_new_def ex_base_plan_def)
  with table(1) show ?thesis by blast
qed

section \<open>Properties\<close>

text \<open>C34. What the encoder sends is what the client ends with.  When both tables can be sent, a used manifest names
  every difference, and the client retains a table that agrees with the base under the token of the
  delta, the client's session accepts the encoder's answer, be it a frame or the empty answer that
  means reuse, and its next table agrees with the producer's target.\<close>

theorem encoded_table_arrives:
  assumes "encode encoder input = Inr encoded" "encoder_plan encoder input = Inr plan"
    and "te_table_schema encoder = type_facts_table_schema_v24"
    and "count_ok (wp_paths plan)" "count_ok (wp_symbols plan)" "strings_ok (transition_strings plan)"
      "length (et_bytes encoded) < 2 ^ 64"
    and "input_fits (te_table_schema encoder) input" "client_has input (te_table_schema encoder) retained token"
    and "rs_schema response = type_facts_schema_v1" "rs_state_token response \<noteq> []"
      "rs_table_transition response = et_bytes encoded" "rs_project_id response = ti_project_id input"
      "rs_generation response = pt_generation (ti_target input)"
  shows "\<exists>table changes derived.
    prepare_analyze_response_mode response (ti_project_id input) (pt_generation (ti_target input)) retained token
      = Some (Inr (table, changes, derived))
    \<and> ft_inv table \<and> table_agrees (ft_abs table) (pt_view type_facts_table_schema_v24 (ti_project_id input) (ti_target input))"
  using assms by (rule encoded_arrives)

theorem encoded_table_arrives_witness:
  "\<exists>retained table changes derived. prepare_analyze_response_mode ex_response ''p'' 2 (Some retained) ''t'' = Some (Inr (table, changes, derived))
     \<and> table_agrees (ft_abs retained) (pt_view 24 ''p'' ex_previous) \<and> table_agrees (ft_abs table) (pt_view 24 ''p'' ex_next)"
proof -
  obtain retained where retained: "ft_inv retained" "table_agrees (ft_abs retained) (pt_view 24 ''p'' ex_previous)"
    using ex_client by blast
  then have client: "client_has ex_input (te_table_schema (encoder_new 0)) (Some retained) ''t''"
    unfolding ex_schema by (simp add: client_has_def ex_input_def)
  have plan: "count_ok (wp_paths ex_plan)" "count_ok (wp_symbols ex_plan)" using ex_plan_ok by (simp_all add: plan_ok_def)
  have ids: "ti_project_id ex_input = ''p''" "pt_generation ex_next = 2" "ti_target ex_input = ex_next"
    by (simp_all add: ex_input_def ex_next_def pt_new_def)
  have response: "rs_schema ex_response = type_facts_schema_v1" "rs_state_token ex_response \<noteq> []"
    "rs_table_transition ex_response = ex_frame" "rs_project_id ex_response = ''p''" "rs_generation ex_response = 2"
    by (simp_all add: ex_response_def type_facts_schema_v1_def)
  from encoded_table_arrives [OF ex_encode ex_encoder_plan _ plan ex_strings_ok _ _ client, of ex_response]
  show ?thesis using retained(2) ex_input_fits ex_frame_length response by (auto simp: ids ex_schema)
qed



end
