(* ===== verification/TF_Arena.thy ===== *)
theory TF_Arena
  imports TF_Stream TF_Encoder
begin

unbundle bit_operations_syntax

text \<open>
  The shared file that carries large transitions.  The producer side is
  \<^verbatim>\<open>apps/solid-typefacts/src/arena.rs\<close>, a \<^verbatim>\<open>TransitionSink\<close> that writes the rows behind a fixed
  offset, the prefix before them and a header last; the client side is
  \<^verbatim>\<open>rust/crates/typefacts/src/shared_transition_arena.rs\<close>, which checks the header and reads the
  transition back.

  The file is its length and its bytes; the kernel addresses it with a signed 64-bit offset.  Writes
  may fail, after any number of bytes, as its schedule of faults says.  \<^verbatim>\<open>usize\<close> has 64 bits.
\<close>

section \<open>Files\<close>

record arena_file =
  fl_len :: nat
  fl_byte :: "nat \<Rightarrow> u8"
  fl_faults :: "(io_error \<times> nat) option list"

definition fl_put :: "u8 list \<Rightarrow> nat \<Rightarrow> arena_file \<Rightarrow> arena_file" where
  "fl_put bytes offset f =
     (if bytes = [] then f
      else f\<lparr>fl_len := max (fl_len f) (offset + length bytes),
             fl_byte := (\<lambda>i. if offset \<le> i \<and> i < offset + length bytes then bytes ! (i - offset) else fl_byte f i)\<rparr>)"

definition max_file_offset :: nat where
  "max_file_offset = 2 ^ 63 - 1"

text \<open>\<^verbatim>\<open>FileExt::write_all_at\<close>.\<close>

definition write_at :: "u8 list \<Rightarrow> nat \<Rightarrow> arena_file \<Rightarrow> (io_error + unit) \<times> arena_file" where
  "write_at bytes offset f =
     (if bytes = [] then (Inr (), f)
      else if offset + length bytes > max_file_offset then (Inl ''file too large'', f)
      else case fl_faults f of
        Some (e, k) # faults \<Rightarrow> (Inl e, (fl_put (take k bytes) offset f)\<lparr>fl_faults := faults\<rparr>)
      | None # faults \<Rightarrow> (Inr (), (fl_put bytes offset f)\<lparr>fl_faults := faults\<rparr>)
      | [] \<Rightarrow> (Inr (), fl_put bytes offset f))"

text \<open>\<^verbatim>\<open>File::set_len\<close>: bytes past the new length are dropped, and bytes past the old one read as zero.\<close>

definition set_len :: "nat \<Rightarrow> arena_file \<Rightarrow> (io_error + unit) \<times> arena_file" where
  "set_len len f =
     (case fl_faults f of
        Some (e, k) # faults \<Rightarrow> (Inl e, f\<lparr>fl_faults := faults\<rparr>)
      | faults \<Rightarrow> (Inr (), f\<lparr>fl_len := len, fl_faults := tl faults,
             fl_byte := (\<lambda>i. if i < len \<and> i < fl_len f then fl_byte f i else 0)\<rparr>))"

text \<open>\<^verbatim>\<open>seek\<close> and \<^verbatim>\<open>read_exact\<close>.\<close>

definition read_exact_at :: "nat \<Rightarrow> nat \<Rightarrow> arena_file \<Rightarrow> io_error + u8 list" where
  "read_exact_at offset len f =
     (if offset + len \<le> fl_len f then Inr (map (fl_byte f) [offset..<offset + len])
      else Inl ''failed to fill whole buffer'')"

section \<open>Little-endian words\<close>

fun le_bytes :: "nat \<Rightarrow> u64 \<Rightarrow> u8 list" where
  "le_bytes 0 word = []"
| "le_bytes (Suc n) word = ucast word # le_bytes n (drop_bit 8 word)"

text \<open>\<^verbatim>\<open>to_le_bytes\<close> and \<^verbatim>\<open>from_le_bytes\<close>.\<close>

definition to_le_bytes :: "u64 \<Rightarrow> u8 list" where
  "to_le_bytes word = le_bytes 8 word"

fun from_le_bytes :: "u8 list \<Rightarrow> u64" where
  "from_le_bytes [] = 0"
| "from_le_bytes (byte # bytes) = ucast byte OR push_bit 8 (from_le_bytes bytes)"

lemma le_bytes_length [simp]: "length (le_bytes n word) = n"
  by (induction n arbitrary: word) simp_all

lemma from_le_bytes_le_bytes: "from_le_bytes (le_bytes n word) = take_bit (8 * n) word"
proof (induction n arbitrary: word)
  case (Suc n)
  have "ucast (ucast word :: u8) OR push_bit 8 (take_bit (8 * n) (drop_bit 8 word)) = take_bit (8 + 8 * n) word"
    by (rule bit_word_eqI) (auto simp: bit_simps)
  with Suc show ?case by simp
qed simp

lemma from_to_le_bytes [simp]: "from_le_bytes (to_le_bytes word) = word"
  by (simp add: to_le_bytes_def from_le_bytes_le_bytes take_bit_word_eq_self)

lemma to_le_bytes_length [simp]: "length (to_le_bytes word) = 8"
  by (simp add: to_le_bytes_def)

section \<open>The producer's arena\<close>

definition rows_offset :: nat where
  "rows_offset = 64 * 1024 * 1024"

definition header_size :: nat where
  "header_size = 32"

definition arena_magic :: "u8 list" where
  "arena_magic = str_bytes ''STFARENA''"

record transition_arena =
  ar_path :: str
  ar_file :: arena_file
  ar_request_id :: u64
  ar_row_bytes :: u64
  ar_offset :: u64
  ar_length :: u64
  ar_committed :: bool

text \<open>\<^verbatim>\<open>open\<close> with the file that the system hands out; an empty path means no arena.\<close>

definition open_arena :: "str \<Rightarrow> (str \<Rightarrow> io_error + arena_file) \<Rightarrow> str + transition_arena option" where
  "open_arena path open_file =
     (if path = [] then Inr None
      else case open_file path of
        Inl e \<Rightarrow> Inl (''open transition arena: open '' @ path @ '': '' @ e)
      | Inr f \<Rightarrow> Inr (Some \<lparr>ar_path = path, ar_file = f, ar_request_id = 0, ar_row_bytes = 0, ar_offset = 0,
           ar_length = 0, ar_committed = False\<rparr>))"

definition arena_begin :: "u64 \<Rightarrow> transition_arena \<Rightarrow> (str + unit) \<times> transition_arena" where
  "arena_begin request_id arena =
     (let arena = arena\<lparr>ar_request_id := request_id, ar_row_bytes := 0, ar_offset := 0, ar_length := 0,
            ar_committed := False\<rparr>
      in case set_len rows_offset (ar_file arena) of
           (Inl e, f) \<Rightarrow> (Inl (''reset transition arena: '' @ e), arena\<lparr>ar_file := f\<rparr>)
         | (Inr _, f) \<Rightarrow>
             (case write_at (replicate header_size 0) 0 f of
                (Inl e, f) \<Rightarrow> (Inl (''clear transition arena header: '' @ e), arena\<lparr>ar_file := f\<rparr>)
              | (Inr _, f) \<Rightarrow> (Inr (), arena\<lparr>ar_file := f\<rparr>)))"

definition arena_descriptor :: "transition_arena \<Rightarrow> (str \<times> u64 list) option" where
  "arena_descriptor arena =
     (if ar_committed arena then Some (ar_path arena, [ar_request_id arena, ar_offset arena, ar_length arena]) else None)"

definition arena_append_rows :: "u8 list \<Rightarrow> transition_arena \<Rightarrow> (io_error + unit) \<times> transition_arena" where
  "arena_append_rows chunk arena =
     (case write_at chunk (unat (of_nat rows_offset + ar_row_bytes arena)) (ar_file arena) of
        (Inl e, f) \<Rightarrow> (Inl e, arena\<lparr>ar_file := f\<rparr>)
      | (Inr _, f) \<Rightarrow>
          (Inr (), arena\<lparr>ar_file := f, ar_row_bytes := ar_row_bytes arena + of_nat (length chunk)\<rparr>))"

definition arena_header :: "u64 \<Rightarrow> u64 \<Rightarrow> u64 \<Rightarrow> u8 list" where
  "arena_header request_id offset len =
     arena_magic @ to_le_bytes request_id @ to_le_bytes offset @ to_le_bytes len"

definition arena_finish :: "u8 list \<Rightarrow> transition_arena \<Rightarrow> (io_error + unit) \<times> transition_arena" where
  "arena_finish head arena =
     (if head = [] \<or> length head > rows_offset - header_size
      then (Inl ''transition prefix length is out of range'', arena)
      else
        let offset = rows_offset - length head in
        case write_at head offset (ar_file arena) of
          (Inl e, f) \<Rightarrow> (Inl (''write transition arena prefix: '' @ e), arena\<lparr>ar_file := f\<rparr>)
        | (Inr _, f) \<Rightarrow>
            let len = of_nat (length head) + ar_row_bytes arena in
            (case write_at (arena_header (ar_request_id arena) (of_nat offset) len) 0 f of
               (Inl e, f) \<Rightarrow> (Inl (''commit transition arena: '' @ e), arena\<lparr>ar_file := f\<rparr>)
             | (Inr _, f) \<Rightarrow>
                 (Inr (), arena\<lparr>ar_file := f, ar_offset := of_nat offset, ar_length := len, ar_committed := True\<rparr>)))"

definition arena_sink :: "transition_arena \<Rightarrow> transition_arena dyn_sink" where
  "arena_sink arena = \<lparr>ds_state = arena, ds_append_rows = arena_append_rows, ds_finish = arena_finish\<rparr>"

section \<open>The client's arena\<close>

record shared_transition_arena =
  sa_path :: str
  sa_file :: "arena_file option"

record arena_response = response +
  rs_source_arena :: str
  rs_source_lengths :: "u64 list"
  rs_client_response_bytes :: u64

definition max_message_bytes :: nat where
  "max_message_bytes = 64 * 1024 * 1024"

abbreviation invalid_arena :: "str \<Rightarrow> session_error + 'a" where
  "invalid_arena message \<equiv> Inl (InvalidResponse (OtherInvalid message))"

definition saturating_add_u64 :: "u64 \<Rightarrow> u64 \<Rightarrow> u64" where
  "saturating_add_u64 a b = (if unat a + unat b < 2 ^ 64 then a + b else - 1)"

text \<open>The committed header against the descriptor, and the bytes it names.\<close>

definition read_committed :: "arena_file \<Rightarrow> u64 \<Rightarrow> u64 \<Rightarrow> nat \<Rightarrow> session_error + u8 list" where
  "read_committed f request_id offset len =
     (case read_exact_at 0 header_size f of
        Inl e \<Rightarrow> Inl (ProcessFailed (''read transition arena header: '' @ e))
      | Inr header \<Rightarrow>
          if take 8 header \<noteq> arena_magic then invalid_arena ''shared transition arena magic mismatch''
          else if from_le_bytes (slice 8 16 header) \<noteq> request_id \<or> from_le_bytes (slice 16 24 header) \<noteq> offset
            \<or> from_le_bytes (slice 24 32 header) \<noteq> of_nat len
          then invalid_arena ''shared transition descriptor does not match its committed header''
          else if unat offset + len \<ge> 2 ^ 64 then invalid_arena ''shared transition range overflow''
          else if unat offset + len > fl_len f then invalid_arena ''shared transition range exceeds its arena''
          else
            (case read_exact_at (unat offset) len f of
               Inl e \<Rightarrow> Inl (ProcessFailed (''read shared transition: '' @ e))
             | Inr transition \<Rightarrow> Inr transition))"

definition attach :: "shared_transition_arena \<Rightarrow> arena_response \<Rightarrow> session_error + (bool \<times> arena_response)" where
  "attach arena response =
     (if rs_source_arena response \<noteq> sa_path arena then Inr (False, response)
      else if rs_table_transition response \<noteq> []
      then invalid_arena ''shared arena response also carries an inline transition''
      else case rs_source_lengths response of
        [request_id, offset, len] \<Rightarrow>
          if request_id \<noteq> rs_request_id response
          then invalid_arena ''shared transition arena request identity mismatch''
          else if unat len = 0 \<or> unat len > max_message_bytes
          then invalid_arena ''shared transition length is out of range''
          else
            (case sa_file arena of
               None \<Rightarrow> Inl (ProcessFailed ''shared transition arena is already closed'')
             | Some f \<Rightarrow>
                 rbind (read_committed f request_id offset (unat len)) (\<lambda>transition.
                 Inr (True, response\<lparr>rs_table_transition := transition, rs_source_arena := [], rs_source_lengths := [],
                   rs_client_response_bytes := saturating_add_u64 (rs_client_response_bytes response) len\<rparr>)))
      | _ \<Rightarrow> invalid_arena ''shared transition arena descriptor must contain request, offset, and length'')"

section \<open>Reading what was written\<close>

definition fl_range :: "arena_file \<Rightarrow> nat \<Rightarrow> nat \<Rightarrow> u8 list" where
  "fl_range f offset len = map (fl_byte f) [offset..<offset + len]"

lemma fl_range_length [simp]: "length (fl_range f offset len) = len"
  by (simp add: fl_range_def)

lemma read_exact_at_range: "read_exact_at offset len f = (if offset + len \<le> fl_len f then Inr (fl_range f offset len) else Inl ''failed to fill whole buffer'')"
  by (simp add: read_exact_at_def fl_range_def)

lemma fl_range_append: "fl_range f offset (a + b) = fl_range f offset a @ fl_range f (offset + a) b"
  by (simp add: fl_range_def upt_add_eq_append [of offset "offset + a" b, simplified] add.assoc [symmetric])

lemma fl_put_fields [simp]:
  "fl_range (fl_put bytes offset f) offset (length bytes) = bytes"
  "fl_len f \<le> fl_len (fl_put bytes offset f)" "bytes \<noteq> [] \<Longrightarrow> offset + length bytes \<le> fl_len (fl_put bytes offset f)"
  by (auto simp: fl_put_def fl_range_def intro: nth_equalityI)

lemma fl_put_other: "start + len \<le> offset \<or> offset + length bytes \<le> start \<Longrightarrow>
    fl_range (fl_put bytes offset f) start len = fl_range f start len"
  by (auto simp: fl_put_def fl_range_def)

text \<open>What a successful write does; the schedule of faults does not matter any more.\<close>

lemma write_at_ok:
  assumes "write_at bytes offset f = (Inr (), f')"
  shows "fl_range f' offset (length bytes) = bytes" "fl_len f \<le> fl_len f'"
    "bytes \<noteq> [] \<Longrightarrow> offset + length bytes \<le> fl_len f'" "bytes \<noteq> [] \<Longrightarrow> offset + length bytes \<le> max_file_offset"
    "start + len \<le> offset \<or> offset + length bytes \<le> start \<Longrightarrow> fl_range f' start len = fl_range f start len"
proof -
  have faults: "fl_range (f\<lparr>fl_faults := faults\<rparr>) start len = fl_range f start len" for f faults start len
    by (simp add: fl_range_def)
  show "fl_range f' offset (length bytes) = bytes" "fl_len f \<le> fl_len f'"
    "bytes \<noteq> [] \<Longrightarrow> offset + length bytes \<le> fl_len f'" "bytes \<noteq> [] \<Longrightarrow> offset + length bytes \<le> max_file_offset"
    "start + len \<le> offset \<or> offset + length bytes \<le> start \<Longrightarrow> fl_range f' start len = fl_range f start len"
    using assms by (auto simp: write_at_def faults fl_put_other fl_range_def [of _ _ 0] split: if_splits list.splits option.splits)
qed

section \<open>The arena is a sink\<close>

definition arena_inv :: "u64 \<Rightarrow> str \<Rightarrow> transition_arena \<Rightarrow> bool" where
  "arena_inv request_id path arena \<longleftrightarrow> ar_request_id arena = request_id \<and> ar_path arena = path
     \<and> rows_offset + unat (ar_row_bytes arena) \<le> max_file_offset
     \<and> rows_offset + unat (ar_row_bytes arena) \<le> fl_len (ar_file arena)"

definition arena_rows :: "transition_arena \<Rightarrow> u8 list" where
  "arena_rows arena = fl_range (ar_file arena) rows_offset (unat (ar_row_bytes arena))"

text \<open>What the client reads for the descriptor of the arena.\<close>

definition arena_frame :: "u64 \<Rightarrow> str \<Rightarrow> transition_arena \<Rightarrow> u8 list option" where
  "arena_frame request_id path arena =
     (if ar_request_id arena = request_id \<and> ar_path arena = path \<and> ar_committed arena \<and> unat (ar_length arena) \<noteq> 0
      then (case read_committed (ar_file arena) request_id (ar_offset arena) (unat (ar_length arena)) of
              Inr transition \<Rightarrow> Some transition | Inl _ \<Rightarrow> None)
      else None)"

lemma rows_offset_word: "unat (of_nat rows_offset + w :: u64) = rows_offset + unat w" if "rows_offset + unat w \<le> max_file_offset"
  using that by (simp add: rows_offset_def max_file_offset_def unat_word_ariths unat_of_nat)

lemma arena_append_ok:
  assumes "arena_append_rows chunk arena = (Inr (), arena')" "arena_inv request_id path arena"
  shows "arena_inv request_id path arena' \<and> arena_rows arena' = arena_rows arena @ chunk"
proof -
  let ?start = "rows_offset + unat (ar_row_bytes arena)"
  have bound: "?start \<le> max_file_offset" "?start \<le> fl_len (ar_file arena)"
    and id: "ar_request_id arena = request_id" "ar_path arena = path" using assms(2) by (simp_all add: arena_inv_def)
  obtain f where f: "write_at chunk ?start (ar_file arena) = (Inr (), f)"
    "arena' = arena\<lparr>ar_file := f, ar_row_bytes := ar_row_bytes arena + of_nat (length chunk)\<rparr>"
    using assms(1) rows_offset_word [OF bound(1)]
    by (auto simp: arena_append_rows_def split: prod.splits sum.splits)
  note ok = write_at_ok [OF f(1)]
  have limit: "?start + length chunk \<le> max_file_offset" using ok(4) bound(1) by (cases chunk) simp_all
  then have count: "unat (ar_row_bytes arena + of_nat (length chunk)) = unat (ar_row_bytes arena) + length chunk"
    by (simp add: max_file_offset_def unat_word_ariths unat_of_nat)
  have "?start + length chunk \<le> fl_len f" using ok(2,3) bound(2) by (cases chunk) auto
  then have "arena_inv request_id path arena'" using limit id by (simp add: f(2) arena_inv_def count)
  moreover have "arena_rows arena' = arena_rows arena @ chunk"
    using ok(1) ok(5) [of rows_offset "unat (ar_row_bytes arena)"] by (simp add: arena_rows_def f(2) count fl_range_append)
  ultimately show ?thesis by blast
qed

lemma str_bytes_magic_length [simp]: "length arena_magic = 8"
  by (simp add: arena_magic_def str_bytes_def)

lemma arena_header_length [simp]: "length (arena_header request_id offset len) = header_size"
  by (simp add: arena_header_def header_size_def)

lemma arena_header_fields:
  "take 8 (arena_header request_id offset len) = arena_magic"
  "from_le_bytes (slice 8 16 (arena_header request_id offset len)) = request_id"
  "from_le_bytes (slice 16 24 (arena_header request_id offset len)) = offset"
  "from_le_bytes (slice 24 32 (arena_header request_id offset len)) = len"
  by (simp_all add: arena_header_def slice_def)

lemma read_committed_ok:
  assumes "header_size \<le> fl_len f" "fl_range f 0 header_size = arena_header request_id offset (of_nat len)"
    "unat offset + len < 2 ^ 64" "unat offset + len \<le> fl_len f"
  shows "read_committed f request_id offset len = Inr (fl_range f (unat offset) len)"
  using assms by (simp add: read_committed_def read_exact_at_range arena_header_fields)

lemma arena_finish_ok:
  assumes "arena_finish head arena = (Inr (), arena')" "arena_inv request_id path arena"
  shows "arena_frame request_id path arena' = Some (head @ arena_rows arena)"
proof -
  let ?offset = "rows_offset - length head" and ?n = "unat (ar_row_bytes arena)"
  let ?len = "of_nat (length head) + ar_row_bytes arena :: u64"
  let ?header = "arena_header (ar_request_id arena) (of_nat ?offset) ?len"
  have head: "head \<noteq> []" "length head \<le> rows_offset - header_size"
    using assms(1) by (auto simp: arena_finish_def split: if_splits)
  obtain f g where f: "write_at head ?offset (ar_file arena) = (Inr (), f)" and g: "write_at ?header 0 f = (Inr (), g)"
    and arena': "arena' = arena\<lparr>ar_file := g, ar_offset := of_nat ?offset, ar_length := ?len, ar_committed := True\<rparr>"
    using assms(1) head by (auto simp: arena_finish_def Let_def split: prod.splits sum.splits)
  note w1 = write_at_ok [OF f] and w2 = write_at_ok [OF g]
  have inv: "rows_offset + ?n \<le> max_file_offset" "rows_offset + ?n \<le> fl_len (ar_file arena)"
    "ar_request_id arena = request_id" "ar_path arena = path" using assms(2) by (simp_all add: arena_inv_def)
  have sizes: "header_size \<le> ?offset" "?offset + length head = rows_offset" "header_size \<le> fl_len g"
    using head w1(2) w2(2) inv(2) by (auto simp: rows_offset_def header_size_def)
  have len: "unat ?len = length head + ?n"
    using head inv(1) by (simp add: rows_offset_def max_file_offset_def unat_word_ariths unat_of_nat)
  have "?offset < 2 ^ LENGTH(64)" by (simp add: rows_offset_def)
  then have offset: "unat (of_nat ?offset :: u64) = ?offset" unfolding unat_of_nat by (rule mod_less)
  have "fl_range g ?offset (length head + ?n) = fl_range f ?offset (length head + ?n)"
    using sizes by (intro w2(5)) simp
  also have "\<dots> = head @ arena_rows arena"
    using w1(1) w1(5) [of rows_offset ?n] sizes(2) by (simp add: fl_range_append arena_rows_def)
  finally have body: "fl_range g ?offset (length head + ?n) = head @ arena_rows arena" .
  have "fl_range g 0 header_size = arena_header request_id (of_nat ?offset) (of_nat (unat ?len))"
    using w2(1) inv(3) by simp
  moreover have "?offset + (length head + ?n) \<le> fl_len g" "?offset + (length head + ?n) < 2 ^ 64"
    using sizes(2) inv(1,2) w1(2) w2(2) by (auto simp: max_file_offset_def)
  ultimately have "read_committed g request_id (of_nat ?offset) (unat ?len) = Inr (head @ arena_rows arena)"
    using sizes(3) len offset body read_committed_ok [of g request_id "of_nat ?offset" "unat ?len"] by simp
  then show "arena_frame request_id path arena' = Some (head @ arena_rows arena)"
    using inv(3,4) len head(1) by (simp add: arena' arena_frame_def)
qed

interpretation arena: transition_sink arena_append_rows arena_finish "arena_inv request_id path" arena_rows "arena_frame request_id path"
  for request_id path
  by unfold_locales (use arena_append_ok arena_finish_ok in blast)+

lemma arena_begin_ok:
  assumes "arena_begin request_id arena0 = (Inr (), arena)"
  shows "arena_inv request_id (ar_path arena0) arena" "arena_rows arena = []" "\<not> ar_committed arena"
    "fl_range (ar_file arena) 0 header_size = replicate header_size 0"
proof -
  obtain f g where f: "set_len rows_offset (ar_file arena0) = (Inr (), f)" and g: "write_at (replicate header_size 0) 0 f = (Inr (), g)"
    and arena: "arena = arena0\<lparr>ar_request_id := request_id, ar_row_bytes := 0, ar_offset := 0, ar_length := 0,
      ar_committed := False, ar_file := g\<rparr>"
    using assms by (auto simp: arena_begin_def Let_def split: prod.splits sum.splits)
  have len: "fl_len f = rows_offset" using f by (auto simp: set_len_def split: list.splits option.splits)
  note ok = write_at_ok [OF g]
  show "arena_inv request_id (ar_path arena0) arena"
    using ok(2) len by (simp add: arena arena_inv_def rows_offset_def max_file_offset_def)
  show "arena_rows arena = []" "\<not> ar_committed arena" "fl_range (ar_file arena) 0 header_size = replicate header_size 0"
    using ok(1) by (simp_all add: arena arena_rows_def fl_range_def)
qed

text \<open>A write behind the header, whole or partial, leaves the header alone.\<close>

lemma write_at_any:
  assumes "write_at bytes offset f = (result, f')"
  shows "start + len \<le> offset \<Longrightarrow> fl_range f' start len = fl_range f start len" "fl_len f \<le> fl_len f'"
proof -
  have faults: "fl_range (f\<lparr>fl_faults := faults\<rparr>) start len = fl_range f start len" for f faults start len
    by (simp add: fl_range_def)
  show "start + len \<le> offset \<Longrightarrow> fl_range f' start len = fl_range f start len" "fl_len f \<le> fl_len f'"
    using assms by (auto simp: write_at_def faults fl_put_other split: if_splits list.splits option.splits)
qed

lemma arena_append_any:
  assumes "arena_append_rows chunk arena = (result, arena')" "arena_inv request_id path arena"
  shows "arena_inv request_id path arena'" "fl_range (ar_file arena') 0 header_size = fl_range (ar_file arena) 0 header_size"
    "ar_committed arena' = ar_committed arena"
proof -
  let ?start = "rows_offset + unat (ar_row_bytes arena)"
  obtain r f where f: "write_at chunk ?start (ar_file arena) = (r, f)" by fastforce
  have start: "unat (of_nat rows_offset + ar_row_bytes arena) = ?start"
    using assms(2) by (intro rows_offset_word) (simp add: arena_inv_def)
  have fields: "ar_file arena' = f" "ar_committed arena' = ar_committed arena"
    using assms(1) f start by (auto simp: arena_append_rows_def split: prod.splits sum.splits)
  note any = write_at_any [OF f]
  show "fl_range (ar_file arena') 0 header_size = fl_range (ar_file arena) 0 header_size" "ar_committed arena' = ar_committed arena"
    using any(1) [of 0 header_size] fields by (simp_all add: rows_offset_def header_size_def)
  show "arena_inv request_id path arena'"
  proof (cases r)
    case (Inl e)
    then have "arena' = arena\<lparr>ar_file := f\<rparr>" using assms(1) f start by (simp add: arena_append_rows_def)
    with assms(2) any(2) show ?thesis by (simp add: arena_inv_def)
  next
    case (Inr u)
    then have "arena_append_rows chunk arena = (Inr (), arena')" using assms(1) f start by (auto simp: arena_append_rows_def)
    with arena_append_ok assms(2) show ?thesis by blast
  qed
qed

lemma appends_any:
  assumes "arena_inv request_id path arena"
  shows "arena_inv request_id path (fold (\<lambda>chunk arena. snd (arena_append_rows chunk arena)) chunks arena)
    \<and> fl_range (ar_file (fold (\<lambda>chunk arena. snd (arena_append_rows chunk arena)) chunks arena)) 0 header_size
      = fl_range (ar_file arena) 0 header_size
    \<and> ar_committed (fold (\<lambda>chunk arena. snd (arena_append_rows chunk arena)) chunks arena) = ar_committed arena"
  using assms
proof (induction chunks arbitrary: arena)
  case (Cons chunk chunks)
  obtain r arena' where r: "arena_append_rows chunk arena = (r, arena')" by fastforce
  from arena_append_any [OF r Cons.prems] Cons.IH [of arena'] show ?case by (simp add: r)
qed simp

lemma magic_not_zero: "replicate 8 0 \<noteq> arena_magic"
  by code_simp

lemma zero_header_refused:
  assumes "fl_range f 0 header_size = replicate header_size 0"
  shows "\<exists>e. read_committed f request_id offset len = Inl e"
  using assms magic_not_zero by (simp add: read_committed_def read_exact_at_range header_size_def split: sum.split)

section \<open>Properties\<close>

text \<open>C36. A transition streamed through the arena is the transition the encoder would have returned: after a
  successful \<^verbatim>\<open>begin\<close> and \<^verbatim>\<open>encode_into\<close>, a response that carries the arena's descriptor makes the
  client, which has the same file, attach exactly the bytes of \<^verbatim>\<open>encode\<close>, whatever the file held before.\<close>

theorem arena_round_trip:
  assumes "arena_begin request_id arena0 = (Inr (), arena)"
    and "encode_into encoder input (arena_sink arena) = Inr (encoded, Some sink)"
    and "arena_descriptor (ds_state sink) = Some (path, lengths)"
    and "sa_path client = path" "sa_file client = Some (ar_file (ds_state sink))"
    and "rs_source_arena response = path" "rs_source_lengths response = lengths" "rs_table_transition response = []"
      "rs_request_id response = request_id"
    and "unat (ar_length (ds_state sink)) \<le> max_message_bytes"
  shows "\<exists>buffered response'. encode encoder input = Inr buffered
    \<and> attach client response = Inr (True, response') \<and> rs_table_transition response' = et_bytes buffered
    \<and> et_bytes encoded = [] \<and> et_path_operations encoded = et_path_operations buffered"
proof -
  note begun = arena_begin_ok [OF assms(1)]
  obtain plan where plan: "encoder_plan encoder input = Inr plan"
    using assms(2) by (auto simp: encode_into_def encode_with_def rbind_Inr_iff)
  have fresh: "\<not> plan_reuses plan"
  proof
    assume "plan_reuses plan"
    then have "sink = arena_sink arena" using assms(2) plan by (simp add: encode_into_def encode_with_def)
    then show False using assms(3) begun(3) by (simp add: arena_sink_def arena_descriptor_def)
  qed
  obtain bytes where run: "write_transition plan (Some (arena_sink arena)) = Inr (bytes, Some sink)"
    and counts: "et_bytes encoded = bytes" "et_path_operations encoded = length (wp_paths plan)"
    using assms(2) plan fresh by (auto simp: encode_into_def encode_with_def rbind_Inr_iff)
  obtain state out where out: "bytes = []" "sink = arena_sink state" "transition_frame plan = Inr out"
    and framed: "arena_frame request_id (ar_path arena0) state = Some out"
    using arena.streamed_frame [OF run [unfolded arena_sink_def] begun(1,2)] by (auto simp: arena_sink_def)
  have state: "ds_state sink = state" using out(2) by (simp add: arena_sink_def)
  have committed: "ar_committed state" "ar_request_id state = request_id" "unat (ar_length state) \<noteq> 0"
    and read: "read_committed (ar_file state) request_id (ar_offset state) (unat (ar_length state)) = Inr out"
    using framed by (auto simp: arena_frame_def split: if_splits sum.splits)
  have "lengths = [request_id, ar_offset state, ar_length state]"
    using assms(3) committed by (simp add: state arena_descriptor_def)
  then have "\<exists>response'. attach client response = Inr (True, response') \<and> rs_table_transition response' = out"
    using assms(4-10) read committed(3) by (simp add: attach_def state)
  moreover have "encode encoder input = Inr \<lparr>et_bytes = out, et_mode = wp_mode plan, et_path_operations = length (wp_paths plan),
      et_symbol_operations = length (wp_symbols plan)\<rparr>"
    using out(3) plan fresh by (auto simp: encode_def encode_with_def transition_frame_def rbind_Inr_iff)
  ultimately show ?thesis using counts out(1) by auto
qed

definition ex_arena0 :: transition_arena where
  "ex_arena0 = \<lparr>ar_path = ''/tmp/a'', ar_file = \<lparr>fl_len = 0, fl_byte = (\<lambda>_. 0), fl_faults = []\<rparr>, ar_request_id = 0,
     ar_row_bytes = 0, ar_offset = 0, ar_length = 0, ar_committed = False\<rparr>"

lemma ex_begin: "fst (arena_begin 5 ex_arena0) = Inr ()"
  by (simp add: arena_begin_def ex_arena0_def set_len_def write_at_def header_size_def max_file_offset_def rows_offset_def)

definition ex_arena :: transition_arena where
  "ex_arena = snd (arena_begin 5 ex_arena0)"

lemma ex_arena_fields:
  "ar_row_bytes ex_arena = 0" "ar_request_id ex_arena = 5" "fl_faults (ar_file ex_arena) = []" "ar_path ex_arena = ''/tmp/a''"
  by (simp_all add: ex_arena_def ex_arena0_def arena_begin_def set_len_def write_at_def header_size_def max_file_offset_def rows_offset_def fl_put_def)

lemma fl_put_faults [simp]: "fl_faults (fl_put bytes offset f) = fl_faults f"
  by (simp add: fl_put_def)

lemma arena_header_not_Nil [simp]: "arena_header request_id offset len \<noteq> []"
  by (simp add: arena_header_def to_le_bytes_def numeral_eq_Suc)

lemma ex_streamed:
  "\<exists>sink. write_transition ex_plan (Some (arena_sink ex_arena)) = Inr ([], Some sink)
    \<and> arena_descriptor (ds_state sink) = Some (''/tmp/a'', [5, 67108836, 45])"
  by (simp add: frame_eval push_uvarint_eval push_uvarint_num ex_plan_def ex_entity_def ex_location_def streamed_chunk_def
      arena_sink_def rw_flush_def arena_append_rows_def arena_finish_def write_at_def ex_arena_fields max_file_offset_def
      rows_offset_def header_size_def arena_descriptor_def split del: if_split cong: rbind_weak_cong)

definition ex_named :: "u64 \<Rightarrow> u64 \<Rightarrow> u64 \<Rightarrow> arena_response" where
  "ex_named request_id offset len =
     response.extend (ex_response\<lparr>rs_table_transition := [], rs_request_id := request_id\<rparr>)
       \<lparr>rs_source_arena = ''/tmp/a'', rs_source_lengths = [request_id, offset, len], rs_client_response_bytes = 0\<rparr>"

lemma ex_encoded:
  "\<exists>encoded sink. encode_into (encoder_new 0) ex_input (arena_sink ex_arena) = Inr (encoded, Some sink)
    \<and> arena_descriptor (ds_state sink) = Some (''/tmp/a'', [5, 67108836, 45])"
proof -
  have "\<not> plan_reuses ex_plan" by (simp add: plan_reuses_def ex_plan_def)
  with ex_streamed show ?thesis by (auto simp: encode_into_def encode_with_def ex_encoder_plan)
qed

theorem arena_round_trip_witness:
  "\<exists>buffered sink response'. encode (encoder_new 0) ex_input = Inr buffered
    \<and> arena_descriptor sink = Some (''/tmp/a'', [5, 67108836, 45])
    \<and> attach \<lparr>sa_path = ''/tmp/a'', sa_file = Some (ar_file sink)\<rparr> (ex_named 5 67108836 45) = Inr (True, response')
    \<and> rs_table_transition response' = et_bytes buffered"
proof -
  obtain encoded sink where sink: "encode_into (encoder_new 0) ex_input (arena_sink ex_arena) = Inr (encoded, Some sink)"
    "arena_descriptor (ds_state sink) = Some (''/tmp/a'', [5, 67108836, 45])"
    using ex_encoded by blast
  have begun: "arena_begin 5 ex_arena0 = (Inr (), ex_arena)"
    using ex_begin by (simp add: ex_arena_def prod_eq_iff)
  let ?client = "\<lparr>sa_path = ''/tmp/a'', sa_file = Some (ar_file (ds_state sink))\<rparr>"
  have "unat (ar_length (ds_state sink)) \<le> max_message_bytes"
    using sink(2) by (auto simp: arena_descriptor_def max_message_bytes_def split: if_splits)
  with arena_round_trip [OF begun sink, of ?client "ex_named 5 67108836 45"] sink(2) show ?thesis
    by (auto simp: ex_named_def response.defs)
qed



end
