(* ===== verification/TF_Manifest.thy ===== *)
theory TF_Manifest
  imports TF_Encoder
begin

text \<open>
  The transport manifest (\<^verbatim>\<open>producer/manifest.rs\<close>): path cleaning, the symbols a path names, their
  closure under aliases, and the manifests that name the rows which may differ between two tables.
  The lemmas show that the closure loop ends with exactly the symbols reachable through aliases, and
  that the manifest covers what changed, which is what the planner relies on.

  A \<^verbatim>\<open>HashSet\<close> iterates in an unspecified order; the argument \<^verbatim>\<open>order\<close> is that order, and the properties
  hold for every one.
\<close>

section \<open>Paths\<close>

text \<open>\<^verbatim>\<open>split('/')\<close> and \<^verbatim>\<open>join("/")\<close>.\<close>

fun split_slash :: "str \<Rightarrow> str list" where
  "split_slash [] = [[]]"
| "split_slash (c # cs) =
     (if c = CHR ''/'' then [] # split_slash cs
      else case split_slash cs of part # parts \<Rightarrow> (c # part) # parts | [] \<Rightarrow> [[c]])"

fun join_slash :: "str list \<Rightarrow> str" where
  "join_slash [] = []"
| "join_slash [part] = part"
| "join_slash (part # parts) = part @ ''/'' @ join_slash parts"

definition clean_element :: "bool \<Rightarrow> str \<Rightarrow> str list \<Rightarrow> str list" where
  "clean_element rooted element parts =
     (if element = [] \<or> element = ''.'' then parts
      else if element = ''..'' then
        (if parts \<noteq> [] \<and> last parts \<noteq> ''..'' then butlast parts
         else if \<not> rooted then parts @ [''..''] else parts)
      else parts @ [element])"

definition clean_path :: "str \<Rightarrow> str" where
  "clean_path path =
     (if path = [] then ''.''
      else
        let rooted = (hd path = CHR ''/'');
            parts = fold (clean_element rooted) (split_slash path) [];
            joined = join_slash parts
        in if rooted then ''/'' @ joined else if joined = [] then ''.'' else joined)"

section \<open>Symbols of changed paths\<close>

record changed_closure =
  cc_reference_changes_exact :: bool
  cc_changed_symbols :: "str list"

text \<open>The non-empty ones of some ids.\<close>

definition named :: "str list \<Rightarrow> str set" where
  "named ids = set (filter (\<lambda>ident. ident \<noteq> []) ids)"

definition collect_path_symbols :: "producer_table \<Rightarrow> str \<Rightarrow> str set \<Rightarrow> str set" where
  "collect_path_symbols table path symbols =
     (case pt_path_symbols table of
        Some path_symbols \<Rightarrow>
          (case path_symbols path of Some ids \<Rightarrow> symbols \<union> set ids | None \<Rightarrow> symbols)
      | None \<Rightarrow>
          let entities = pt_entities_in table path in
          symbols \<union> named (map ef_symbol entities)
          \<union> named (map rc_target (List.map_filter ef_resolved_call entities))
          \<union> (case pt_file table path of
               Some file \<Rightarrow> named (map aff_symbol (ff_async_functions file)) \<union> named (map aff_target (ff_async_functions file))
             | None \<Rightarrow> {}))"

text \<open>
  The body of the worklist loop: the alias targets of \<open>ident\<close> in each table that are new, which are
  inserted and pushed on the queue.
\<close>

fun expand_alias :: "producer_table list \<Rightarrow> str \<Rightarrow> str set \<Rightarrow> str set \<times> str list" where
  "expand_alias [] ident candidates = (candidates, [])"
| "expand_alias (table # tables) ident candidates =
     (case pt_symbol table ident of
        Some row \<Rightarrow>
          let target = sf_alias_target row in
          if target \<noteq> [] \<and> target \<notin> candidates
          then let (candidates', pushed) = expand_alias tables ident (insert target candidates)
               in (candidates', target # pushed)
          else expand_alias tables ident candidates
      | None \<Rightarrow> expand_alias tables ident candidates)"

text \<open>What the closure can still add.\<close>

definition alias_targets :: "producer_table list \<Rightarrow> str set" where
  "alias_targets tables = (\<Union>table\<in>set tables. sf_alias_target ` set (pt_symbols table))"

lemma pt_symbol_member:
  assumes "pt_symbol table ident = Some row"
  shows "row \<in> set (pt_symbols table)"
proof -
  obtain index where "get_at (pt_symbols table) index = Some row"
    using assms by (auto simp: pt_symbol_def sorted_get_def split: option.splits if_splits)
  then show ?thesis by (metis get_at_Some_iff nth_mem)
qed

definition next_aliases :: "producer_table list \<Rightarrow> str \<Rightarrow> str set" where
  "next_aliases tables ident = {target. target \<noteq> [] \<and> (\<exists>table\<in>set tables. \<exists>row. pt_symbol table ident = Some row
     \<and> sf_alias_target row = target)}"

lemma next_aliases_Cons: "next_aliases (table # tables) ident = (case pt_symbol table ident of
    Some row \<Rightarrow> (if sf_alias_target row \<noteq> [] then insert (sf_alias_target row) (next_aliases tables ident) else next_aliases tables ident)
  | None \<Rightarrow> next_aliases tables ident)"
  by (auto simp: next_aliases_def split: option.split)

lemma expand_alias_spec:
  assumes "expand_alias tables ident candidates = (candidates', pushed)"
  shows "candidates' = candidates \<union> next_aliases tables ident" "set pushed = candidates' - candidates" "distinct pushed"
proof -
  have "candidates' = candidates \<union> next_aliases tables ident \<and> set pushed = candidates' - candidates \<and> distinct pushed"
    using assms
  proof (induction tables arbitrary: candidates candidates' pushed)
    case Nil
    then show ?case by (simp add: next_aliases_def)
  next
    case (Cons table tables)
    show ?case
    proof (cases "\<exists>row. pt_symbol table ident = Some row \<and> sf_alias_target row \<noteq> [] \<and> sf_alias_target row \<notin> candidates")
      case True
      then obtain row where row: "pt_symbol table ident = Some row" "sf_alias_target row \<noteq> []" "sf_alias_target row \<notin> candidates" by blast
      obtain c p where c: "expand_alias tables ident (insert (sf_alias_target row) candidates) = (c, p)" by fastforce
      with Cons.prems row have "candidates' = c" "pushed = sf_alias_target row # p" by (auto simp: Let_def)
      with Cons.IH [OF c] row show ?thesis by (auto simp: next_aliases_Cons)
    next
      case False
      then have "expand_alias tables ident candidates = (candidates', pushed)"
        using Cons.prems by (auto simp: Let_def split: option.splits)
      from Cons.IH [OF this] False show ?thesis by (auto simp: next_aliases_Cons split: option.split)
    qed
  qed
  then show "candidates' = candidates \<union> next_aliases tables ident" "set pushed = candidates' - candidates" "distinct pushed"
    by blast+
qed

lemma next_aliases_targets: "next_aliases tables ident \<subseteq> alias_targets tables"
  using pt_symbol_member by (fastforce simp: next_aliases_def alias_targets_def)

lemma alias_targets_finite: "finite (alias_targets tables)"
  by (simp add: alias_targets_def)

function close_aliases :: "producer_table list \<Rightarrow> str list \<Rightarrow> str set \<Rightarrow> str set" where
  "close_aliases tables [] candidates = candidates"
| "close_aliases tables (ident # queue) candidates =
     (let (candidates', pushed) = expand_alias tables ident candidates
      in close_aliases tables (queue @ pushed) candidates')"
  by pat_completeness auto
termination
proof (relation "measure (\<lambda>(tables, queue, candidates). card (alias_targets tables - candidates) + length queue)", simp)
  fix tables ident queue candidates x candidates' pushed
  assume x: "x = expand_alias tables ident candidates" "(candidates', pushed) = x"
  note spec = expand_alias_spec [OF x(2) [unfolded x(1), symmetric]]
  have new: "set pushed \<subseteq> alias_targets tables - candidates"
    using spec(1,2) next_aliases_targets by blast
  have "alias_targets tables - candidates' = (alias_targets tables - candidates) - set pushed"
    using spec(2) by (auto simp: spec(1))
  then have "card (alias_targets tables - candidates') + length pushed = card (alias_targets tables - candidates)"
    using new spec(3) alias_targets_finite [of tables] card_mono [OF _ new]
    by (simp add: card_Diff_subset distinct_card)
  then show "((tables, queue @ pushed, candidates'), tables, ident # queue, candidates)
      \<in> measure (\<lambda>(tables, queue, candidates). card (alias_targets tables - candidates) + length queue)"
    by simp
qed

definition retained_symbol_candidates ::
    "(str set \<Rightarrow> str list) \<Rightarrow> producer_table option \<Rightarrow> str set \<Rightarrow> str set" where
  "retained_symbol_candidates order table changed_paths =
     (case table of
        None \<Rightarrow> {}
      | Some table \<Rightarrow>
          let candidates = fold (\<lambda>path. collect_path_symbols table (clean_path path)) (order changed_paths) {}
          in close_aliases [table] (order candidates) candidates)"

definition transport_changes_new :: "producer_table \<Rightarrow> transport_changes" where
  "transport_changes_new previous =
     \<lparr>tm_base_generation = pt_generation previous, tm_base_state_id = pt_state_id previous, tm_source_paths = {},
      tm_entity_paths = {}, tm_file_paths = {}, tm_symbol_ids = {}, tm_exact = True\<rparr>"

text \<open>The three insertions of a changed path.\<close>

definition insert_path :: "str \<Rightarrow> transport_changes \<Rightarrow> transport_changes" where
  "insert_path path manifest = manifest\<lparr>tm_source_paths := insert path (tm_source_paths manifest),
     tm_entity_paths := insert path (tm_entity_paths manifest), tm_file_paths := insert path (tm_file_paths manifest)\<rparr>"

definition transport_manifest ::
    "(str set \<Rightarrow> str list) \<Rightarrow> producer_table option \<Rightarrow> producer_table \<Rightarrow> changed_closure option \<Rightarrow> str set
       \<Rightarrow> transport_changes option" where
  "transport_manifest order previous next builder changed_paths =
     (case (previous, builder) of
        (Some previous, Some builder) \<Rightarrow>
          if \<not> cc_reference_changes_exact builder then None
          else
            let manifest = fold (\<lambda>path manifest.
                  let path = clean_path path;
                      ids = collect_path_symbols next path (collect_path_symbols previous path (tm_symbol_ids manifest))
                  in insert_path path (manifest\<lparr>tm_symbol_ids := ids\<rparr>)) (order changed_paths) (transport_changes_new previous);
                ids = tm_symbol_ids manifest \<union> set (cc_changed_symbols builder)
            in Some (manifest\<lparr>tm_symbol_ids := close_aliases [previous, next] (order ids) ids\<rparr>)
      | _ \<Rightarrow> None)"

definition rust_owned_transport_manifest ::
    "(str set \<Rightarrow> str list) \<Rightarrow> producer_table option \<Rightarrow> str set option \<Rightarrow> transport_changes option" where
  "rust_owned_transport_manifest order previous changed_paths =
     (case (previous, changed_paths) of
        (Some previous, Some changed_paths) \<Rightarrow>
          Some (fold (\<lambda>path. insert_path (clean_path path)) (order changed_paths) (transport_changes_new previous))
      | _ \<Rightarrow> None)"

section \<open>The closure is reachability\<close>

definition alias_edges :: "producer_table list \<Rightarrow> (str \<times> str) set" where
  "alias_edges tables = {(ident, target). target \<in> next_aliases tables ident}"

definition alias_reach :: "producer_table list \<Rightarrow> str set \<Rightarrow> str set" where
  "alias_reach tables seeds = (alias_edges tables)\<^sup>* `` seeds"

lemma close_aliases_reach:
  assumes "set queue \<subseteq> candidates" "\<forall>ident\<in>candidates - set queue. next_aliases tables ident \<subseteq> candidates"
  shows "close_aliases tables queue candidates = alias_reach tables candidates"
  using assms
proof (induction tables queue candidates rule: close_aliases.induct)
  case (1 tables candidates)
  have "b \<in> candidates" if "(a, b) \<in> (alias_edges tables)\<^sup>*" "a \<in> candidates" for a b
    using that by (induction rule: rtrancl_induct) (use 1(2) in \<open>auto simp: alias_edges_def\<close>)
  then show ?case by (auto simp: alias_reach_def)
next
  case (2 tables ident queue candidates)
  obtain c p where c: "expand_alias tables ident candidates = (c, p)" by fastforce
  note spec = expand_alias_spec [OF c]
  have "set (queue @ p) \<subseteq> c" using 2(2) spec by auto
  moreover have "\<forall>i\<in>c - set (queue @ p). next_aliases tables i \<subseteq> c"
    using 2(3) spec by auto
  ultimately have "close_aliases tables (queue @ p) c = alias_reach tables c"
    by (rule 2(1) [OF c [symmetric] refl])
  moreover have "alias_reach tables c = alias_reach tables candidates"
  proof -
    have "(ident, target) \<in> alias_edges tables" if "target \<in> next_aliases tables ident" for target
      using that by (simp add: alias_edges_def)
    then have "c \<subseteq> alias_reach tables candidates" using 2(2) spec(1) by (auto simp: alias_reach_def)
    then have "alias_reach tables c \<subseteq> alias_reach tables candidates"
      unfolding alias_reach_def by (blast intro: rtrancl_trans)
    moreover have "candidates \<subseteq> c" using spec(1) by blast
    ultimately show ?thesis unfolding alias_reach_def by blast
  qed
  ultimately show ?case by (simp add: c)
qed

lemma alias_reach_finite: "finite seeds \<Longrightarrow> finite (alias_reach tables seeds)"
proof (rule finite_subset)
  show "alias_reach tables seeds \<subseteq> seeds \<union> alias_targets tables"
  proof
    fix b assume "b \<in> alias_reach tables seeds"
    then obtain a where "a \<in> seeds" "(a, b) \<in> (alias_edges tables)\<^sup>*" by (auto simp: alias_reach_def)
    from this(2,1) show "b \<in> seeds \<union> alias_targets tables"
      by (cases rule: rtranclE) (use next_aliases_targets in \<open>auto simp: alias_edges_def\<close>)
  qed
qed (simp add: alias_targets_finite)

text \<open>What a table names on a path.\<close>

definition path_symbols :: "producer_table \<Rightarrow> str \<Rightarrow> str set" where
  "path_symbols table path = collect_path_symbols table path {}"

lemma collect_path_symbols_union: "collect_path_symbols table path symbols = symbols \<union> path_symbols table path"
  by (auto simp: path_symbols_def collect_path_symbols_def Let_def split: option.split)

lemma path_symbols_finite: "finite (path_symbols table path)"
  by (auto simp: path_symbols_def collect_path_symbols_def named_def Let_def split: option.split)

text \<open>An order visits exactly the elements of a finite set.\<close>

definition is_order :: "(str set \<Rightarrow> str list) \<Rightarrow> bool" where
  "is_order order \<longleftrightarrow> (\<forall>elements. finite elements \<longrightarrow> set (order elements) = elements)"

lemma retained_candidates_reach:
  assumes "is_order order" "finite changed"
  shows "retained_symbol_candidates order (Some table) changed
    = alias_reach [table] (\<Union>path\<in>changed. path_symbols table (clean_path path))"
proof -
  have "fold (\<lambda>path. collect_path_symbols table (clean_path path)) paths seeds
      = seeds \<union> (\<Union>path\<in>set paths. path_symbols table (clean_path path))" for paths seeds
    by (induction paths arbitrary: seeds) (auto simp: collect_path_symbols_union)
  moreover have "set (order changed) = changed" using assms by (simp add: is_order_def)
  moreover have "close_aliases [table] (order seeds) seeds = alias_reach [table] seeds" if "finite seeds" for seeds
    using assms(1) that by (intro close_aliases_reach) (auto simp: is_order_def)
  ultimately show ?thesis using assms(2) path_symbols_finite by (simp add: retained_symbol_candidates_def)
qed

lemma manifest_fold:
  "fold (\<lambda>path manifest. let path = clean_path path;
       ids = collect_path_symbols next path (collect_path_symbols previous path (tm_symbol_ids manifest))
     in insert_path path (manifest\<lparr>tm_symbol_ids := ids\<rparr>)) paths manifest
   = manifest\<lparr>tm_source_paths := tm_source_paths manifest \<union> clean_path ` set paths,
       tm_entity_paths := tm_entity_paths manifest \<union> clean_path ` set paths,
       tm_file_paths := tm_file_paths manifest \<union> clean_path ` set paths,
       tm_symbol_ids := tm_symbol_ids manifest
         \<union> (\<Union>path\<in>clean_path ` set paths. path_symbols previous path \<union> path_symbols next path)\<rparr>"
proof (induction paths arbitrary: manifest)
  case (Cons path paths)
  have sets: "insert x A \<union> B = A \<union> insert x B" "A \<union> p \<union> n \<union> B = A \<union> (p \<union> n \<union> B)" for x :: str and A B p n :: "str set" by auto
  show ?case
    unfolding fold.simps o_apply Cons.IH
    by (simp add: Let_def insert_path_def collect_path_symbols_union sets)
qed simp

lemma insert_fold:
  "fold (\<lambda>path. insert_path (clean_path path)) paths manifest
   = manifest\<lparr>tm_source_paths := tm_source_paths manifest \<union> clean_path ` set paths,
       tm_entity_paths := tm_entity_paths manifest \<union> clean_path ` set paths,
       tm_file_paths := tm_file_paths manifest \<union> clean_path ` set paths\<rparr>"
  by (induction paths arbitrary: manifest) (simp_all add: insert_path_def)

section \<open>Cleaning a path is idempotent\<close>

text \<open>The parts a cleaned path has: no separators, no empty or dot part, and \<^verbatim>\<open>..\<close> only in front of a relative path.\<close>

definition clean_parts :: "bool \<Rightarrow> str list \<Rightarrow> bool" where
  "clean_parts rooted parts \<longleftrightarrow> (\<forall>part\<in>set parts. part \<noteq> [] \<and> part \<noteq> ''.'' \<and> CHR ''/'' \<notin> set part)
     \<and> (\<exists>n rest. parts = replicate n ''..'' @ rest \<and> ''..'' \<notin> set rest \<and> (rooted \<longrightarrow> n = 0))"

lemma clean_partsI:
  assumes "\<forall>part\<in>set parts. part \<noteq> [] \<and> part \<noteq> ''.'' \<and> CHR ''/'' \<notin> set part"
    "parts = replicate n ''..'' @ rest" "''..'' \<notin> set rest" "rooted \<longrightarrow> n = 0"
  shows "clean_parts rooted parts"
  unfolding clean_parts_def by (intro conjI exI [of _ n] exI [of _ rest]) (rule assms)+

lemma clean_element_parts:
  assumes "clean_parts rooted parts" "CHR ''/'' \<notin> set element"
  shows "clean_parts rooted (clean_element rooted element parts)"
proof -
  obtain n rest where split: "parts = replicate n ''..'' @ rest" "''..'' \<notin> set rest" "rooted \<longrightarrow> n = 0"
    and parts: "\<forall>part\<in>set parts. part \<noteq> [] \<and> part \<noteq> ''.'' \<and> CHR ''/'' \<notin> set part"
    using assms(1) by (auto simp: clean_parts_def)
  consider "element = [] \<or> element = ''.''" | "element = ''..''" "parts \<noteq> []" "last parts \<noteq> ''..''"
    | "element = ''..''" "parts = [] \<or> last parts = ''..''" | "element \<noteq> []" "element \<noteq> ''.''" "element \<noteq> ''..''" by blast
  then show ?thesis
  proof cases
    case 1
    then show ?thesis using assms(1) by (auto simp: clean_element_def)
  next
    case 2
    then have "rest \<noteq> []" using split(1) by (cases "n = 0") auto
    then have "butlast parts = replicate n ''..'' @ butlast rest" using split(1) by (simp add: butlast_append)
    moreover have "clean_element rooted element parts = butlast parts" using 2 by (simp add: clean_element_def)
    moreover have "''..'' \<notin> set (butlast rest)" using split(2) by (auto dest: in_set_butlastD)
    moreover have "\<forall>part\<in>set (butlast parts). part \<noteq> [] \<and> part \<noteq> ''.'' \<and> CHR ''/'' \<notin> set part"
      using parts in_set_butlastD [of _ parts] by blast
    ultimately show ?thesis using split(3) clean_partsI [of "butlast parts" n "butlast rest" rooted] by simp
  next
    case 3
    have "rest = []" using 3(2) split by (cases rest rule: rev_cases) auto
    then have more: "parts @ [''..''] = replicate (Suc n) ''..'' @ []" using split(1) by (simp add: replicate_append_same)
    have same: "clean_element rooted element parts = (if rooted then parts else parts @ [''..''])" using 3 by (auto simp: clean_element_def)
    show ?thesis
    proof (cases rooted)
      case True
      then show ?thesis using assms(1) unfolding same by simp
    next
      case False
      have "clean_parts rooted (parts @ [''..''])" by (rule clean_partsI [OF _ more]) (use False parts in auto)
      then show ?thesis using False unfolding same by simp
    qed
  next
    case 4
    then have more: "parts @ [element] = replicate n ''..'' @ (rest @ [element])" "''..'' \<notin> set (rest @ [element])"
      using split(1,2) by simp_all
    have same: "clean_element rooted element parts = parts @ [element]" using 4 by (simp add: clean_element_def)
    show ?thesis unfolding same by (rule clean_partsI [OF _ more split(3)]) (use 4 parts assms(2) in auto)
  qed
qed

lemma split_slash_parts: "part \<in> set (split_slash path) \<Longrightarrow> CHR ''/'' \<notin> set part"
proof (induction path arbitrary: part)
  case (Cons c path)
  then show ?case by (cases "split_slash path") (auto split: if_splits)
qed simp

lemma fold_clean_parts:
  "(\<forall>element\<in>set elements. CHR ''/'' \<notin> set element) \<Longrightarrow> clean_parts rooted parts \<Longrightarrow> clean_parts rooted (fold (clean_element rooted) elements parts)"
  by (induction elements arbitrary: parts) (auto intro: clean_element_parts)

lemma fold_clean_id:
  assumes "clean_parts rooted (before @ parts)"
  shows "fold (clean_element rooted) parts before = before @ parts"
  using assms
proof (induction parts arbitrary: before)
  case (Cons part parts)
  obtain n rest where split: "before @ part # parts = replicate n ''..'' @ rest" "''..'' \<notin> set rest" "rooted \<longrightarrow> n = 0"
    and ok: "part \<noteq> []" "part \<noteq> ''.''" using Cons.prems by (auto simp: clean_parts_def)
  have "clean_element rooted part before = before @ [part]"
  proof (cases "part = ''..''")
    case True
    have "length before < n"
    proof (rule ccontr)
      assume "\<not> length before < n"
      moreover have "length before + Suc (length parts) = n + length rest" using arg_cong [OF split(1), of length] by simp
      ultimately have "length before - n < length rest" "(before @ part # parts) ! length before = rest ! (length before - n)"
        by (simp_all add: split(1) nth_append)
      then show False using True split(2) nth_mem [of "length before - n" rest] by simp
    qed
    then have "before = replicate (length before) ''..''"
      using arg_cong [OF split(1), of "take (length before)"] by simp
    then have "before = [] \<or> last before = ''..''" by (metis last_replicate replicate_0)
    then show ?thesis using True split(3) \<open>length before < n\<close> by (auto simp: clean_element_def)
  qed (use ok in \<open>simp add: clean_element_def\<close>)
  with Cons.IH [of "before @ [part]"] Cons.prems show ?case by simp
qed simp

lemma split_join: "parts \<noteq> [] \<Longrightarrow> \<forall>part\<in>set parts. CHR ''/'' \<notin> set part \<Longrightarrow> split_slash (join_slash parts) = parts"
proof (induction parts rule: join_slash.induct)
  case (2 part)
  then show ?case by (induction part) auto
next
  case (3 part p parts)
  have "split_slash (part @ CHR ''/'' # rest) = part # split_slash rest" if "CHR ''/'' \<notin> set part" for part rest
    using that by (induction part) auto
  with 3 show ?case by simp
qed simp

lemma join_slash_head:
  assumes "clean_parts rooted parts" "parts \<noteq> []"
  shows "join_slash parts \<noteq> []" "hd (join_slash parts) \<noteq> CHR ''/''"
proof -
  obtain part rest where parts: "parts = part # rest" using assms(2) by (cases parts) auto
  have "part \<noteq> [] \<and> CHR ''/'' \<notin> set part" using assms(1) [unfolded clean_parts_def, THEN conjunct1] parts by simp
  then have part: "part \<noteq> []" "hd part \<noteq> CHR ''/''" using hd_in_set [of part] by metis+
  have "\<exists>suffix. join_slash parts = part @ suffix" unfolding parts by (cases rest) auto
  with part show "join_slash parts \<noteq> []" "hd (join_slash parts) \<noteq> CHR ''/''" by auto
qed

lemma clean_path_idempotent: "clean_path (clean_path path) = clean_path path"
proof (cases "path = []")
  case True
  show ?thesis unfolding True by code_simp
next
  case False
  define rooted where "rooted = (hd path = CHR ''/'')"
  define parts where "parts = fold (clean_element rooted) (split_slash path) []"
  have ok: "clean_parts rooted parts"
    unfolding parts_def by (rule fold_clean_parts) (auto simp: split_slash_parts clean_parts_def)
  have path: "clean_path path = (if rooted then ''/'' @ join_slash parts else if join_slash parts = [] then ''.'' else join_slash parts)"
    using False by (simp add: clean_path_def Let_def parts_def rooted_def)
  have again: "fold (clean_element rooted) (split_slash (join_slash parts)) [] = parts"
  proof (cases "parts = []")
    case True
    then show ?thesis by (simp add: clean_element_def)
  next
    case False
    then show ?thesis using split_join [OF False] ok fold_clean_id [of rooted "[]" parts] by (auto simp: clean_parts_def)
  qed
  show ?thesis
  proof (cases rooted)
    case True
    then show ?thesis using again path by (simp add: clean_path_def Let_def clean_element_def)
  next
    case unrooted: False
    show ?thesis
    proof (cases "parts = []")
      case True
      then show ?thesis using unrooted path by (simp add: clean_path_def clean_element_def Let_def)
    next
      case False
      then show ?thesis using unrooted path again join_slash_head [OF ok False] by (simp add: clean_path_def Let_def)
    qed
  qed
qed

text \<open>
  The contract of the inputs: the rows of a path that is not among the changed ones are the same in
  both tables, and a symbol whose row differs is reached by aliases from a symbol named on a changed
  path or from one that the closure reports as changed.
\<close>

definition changes_within :: "producer_table \<Rightarrow> producer_table \<Rightarrow> changed_closure \<Rightarrow> str set \<Rightarrow> bool" where
  "changes_within previous next builder changed \<longleftrightarrow> finite changed
     \<and> (\<forall>path. path \<notin> clean_path ` changed \<longrightarrow> pr_at previous path = pr_at next path)
     \<and> (\<forall>ident. pt_symbol previous ident \<noteq> pt_symbol next ident \<longrightarrow>
          ident \<in> alias_reach [previous, next] (set (cc_changed_symbols builder)
            \<union> (\<Union>path\<in>clean_path ` changed. path_symbols previous path \<union> path_symbols next path)))"

lemma transport_manifest_fields:
  assumes "is_order order" "finite changed" "transport_manifest order (Some previous) next (Some builder) changed = Some manifest"
  shows "manifest = \<lparr>tm_base_generation = pt_generation previous, tm_base_state_id = pt_state_id previous,
      tm_source_paths = clean_path ` changed, tm_entity_paths = clean_path ` changed, tm_file_paths = clean_path ` changed,
      tm_symbol_ids = alias_reach [previous, next] (set (cc_changed_symbols builder)
        \<union> (\<Union>path\<in>clean_path ` changed. path_symbols previous path \<union> path_symbols next path)), tm_exact = True\<rparr>"
proof -
  let ?seeds = "set (cc_changed_symbols builder) \<union> (\<Union>path\<in>clean_path ` changed. path_symbols previous path \<union> path_symbols next path)"
  have order: "set (order changed) = changed" using assms(1,2) by (simp add: is_order_def)
  have "finite ?seeds" using assms(2) path_symbols_finite by auto
  then have close: "close_aliases [previous, next] (order ?seeds) ?seeds = alias_reach [previous, next] ?seeds"
    using assms(1) by (intro close_aliases_reach) (auto simp: is_order_def)
  have comm: "(\<Union>path\<in>clean_path ` changed. path_symbols previous path \<union> path_symbols next path) \<union> set (cc_changed_symbols builder) = ?seeds"
    by (rule Un_commute)
  have "cc_reference_changes_exact builder" using assms(3) by (simp add: transport_manifest_def split: if_splits)
  then show ?thesis
    using assms(3) close unfolding transport_manifest_def manifest_fold order transport_changes_new_def
    by (simp only: prod.case option.case if_False not_True_eq_False Let_def transport_changes.simps comm Un_empty_left option.inject)
qed

section \<open>Manifests to evaluate\<close>

definition ex_builder :: changed_closure where
  "ex_builder = \<lparr>cc_reference_changes_exact = True, cc_changed_symbols = [''s'']\<rparr>"

lemma ex_order: "is_order sorted_list_of_set"
  by (simp add: is_order_def)

lemma ex_clean: "clean_path ` {''./a.ts''} = {''a.ts''}" "clean_path ''./a.ts'' = ''a.ts''"
  by code_simp+

lemma ex_changes_within: "changes_within ex_previous ex_next ex_builder {''./a.ts''}"
proof -
  have "pr_at ex_previous path = pr_at ex_next path" if "path \<noteq> ''a.ts''" for path
    using that by (simp add: pr_at_def pt_source_def pt_file_def sorted_get_def ex_previous_def ex_next_def pt_new_def ex_entity_def
        ex_location_def partition_point_def get_at_def)
  moreover have "ident = ''s''" if "pt_symbol ex_previous ident \<noteq> pt_symbol ex_next ident" for ident
    using that by (simp add: pt_symbol_def sorted_get_def ex_previous_def ex_next_def pt_new_def partition_point_def get_at_def
        ex_symbol_def split: if_splits)
  moreover have "''s'' \<in> alias_reach tables (set (cc_changed_symbols ex_builder) \<union> others)" for tables others
    by (auto simp: alias_reach_def ex_builder_def)
  ultimately show ?thesis unfolding changes_within_def ex_clean by auto
qed

section \<open>Properties\<close>



text \<open>C39. Symbol candidates are exactly what aliases reach: the worklist of \<^verbatim>\<open>retained_symbol_candidates\<close> ends, and
  its result is the set of symbols reachable, through alias targets of the table, from the symbols
  that the table names on the changed paths.\<close>

theorem retained_candidates_exact:
  assumes "is_order order" "finite changed"
  shows "retained_symbol_candidates order (Some table) changed
    = alias_reach [table] (\<Union>path\<in>changed. path_symbols table (clean_path path))"
  using assms by (rule retained_candidates_reach)

theorem retained_candidates_exact_witness:
  "retained_symbol_candidates sorted_list_of_set (Some ex_next) {''./a.ts''} = alias_reach [ex_next] (path_symbols ex_next ''a.ts'')
   \<and> ''s'' \<in> path_symbols ex_next ''a.ts''"
proof -
  have "''s'' \<in> path_symbols ex_next ''a.ts''" by code_simp
  with retained_candidates_exact [OF ex_order, of "{''./a.ts''}" ex_next] ex_clean(2) show ?thesis by simp
qed

text \<open>C40. A sparse transition does not need the producer's old rows: planned from the path manifest of the active
  protocol, it is the same whatever rows the base holds, carries no symbol operation, and on every
  table it sets the changed paths to the target's rows and leaves every other path and all symbols
  alone.\<close>

theorem sparse_needs_no_base:
  assumes "is_order order" "finite changed"
    and "rust_owned_transport_manifest order (Some previous) (Some changed) = Some manifest"
    and "pt_transport (ti_target input) = Some manifest" "ti_sparse input" "ti_base input = Some base"
  shows "plan_operations input ModeDelta = Inr (plan_sparse_paths (ti_target input) manifest, [])
    \<and> (\<forall>path. let after = apply_planned schema generation (plan_sparse_paths (ti_target input) manifest) [] t;
            view = (if path \<in> clean_path ` changed then pt_view schema project (ti_target input) else t)
        in at_sources after path = at_sources view path \<and> at_entities after path = at_entities view path
           \<and> at_files after path = at_files view path)
    \<and> at_symbols (apply_planned schema generation (plan_sparse_paths (ti_target input) manifest) [] t) = at_symbols t"
proof -
  let ?target = "ti_target input"
  have order: "set (order changed) = changed" using assms(1,2) by (simp add: is_order_def)
  have fields: "tm_source_paths manifest = clean_path ` changed" "tm_entity_paths manifest = clean_path ` changed"
    "tm_file_paths manifest = clean_path ` changed" "tm_symbol_ids manifest = {}" "tm_exact manifest"
    using assms(3) by (auto simp: rust_owned_transport_manifest_def insert_fold order transport_changes_new_def)
  have paths: "manifest_paths manifest = clean_path ` changed" by (simp add: manifest_paths_def fields)
  then have "finite (manifest_paths manifest)" using assms(2) by simp
  note finds = finds_sparse [OF this, of ?target]
  have "let after = apply_planned schema generation (plan_sparse_paths ?target manifest) [] t;
      view = (if path \<in> clean_path ` changed then pt_view schema project ?target else t)
    in at_sources after path = at_sources view path \<and> at_entities after path = at_entities view path
       \<and> at_files after path = at_files view path" for path
    using fold_spec_path [OF finds_wire(1) [OF finds], of schema t path, unfolded finds_wire(2) [OF finds]]
    by (auto simp: apply_planned_def paths wire_path_op_def sparse_operation_def fields pt_view_def pr_at_def some_run_def Let_def
        split: option.splits if_splits)
  moreover have "plan_operations input ModeDelta = Inr (plan_sparse_paths ?target manifest, [])"
    using assms(4-6) fields by (simp add: plan_operations_def plan_exact_symbol_delta_def)
  ultimately show ?thesis by (simp add: apply_planned_def)
qed

theorem sparse_needs_no_base_witness:
  "\<exists>manifest. rust_owned_transport_manifest sorted_list_of_set (Some ex_previous) (Some {''./a.ts''}) = Some manifest
     \<and> plan_operations (ex_input\<lparr>ti_target := ex_next\<lparr>pt_transport := Some manifest\<rparr>\<rparr>) ModeDelta
        = Inr (plan_sparse_paths (ex_next\<lparr>pt_transport := Some manifest\<rparr>) manifest, [])
     \<and> at_sources (apply_planned 24 2 (plan_sparse_paths (ex_next\<lparr>pt_transport := Some manifest\<rparr>) manifest) [] (pt_view 24 ''p'' ex_previous)) ''a.ts'' = None"
proof -
  obtain manifest where manifest: "rust_owned_transport_manifest sorted_list_of_set (Some ex_previous) (Some {''./a.ts''}) = Some manifest"
    by (simp add: rust_owned_transport_manifest_def)
  let ?target = "ex_next\<lparr>pt_transport := Some manifest\<rparr>"
  have "at_sources (pt_view 24 ''p'' ?target) ''a.ts'' = None"
    by (simp add: pt_view_def pt_source_def ex_next_def pt_new_def sorted_get_def partition_point_def get_at_def)
  with sparse_needs_no_base [OF ex_order _ manifest, of "ex_input\<lparr>ti_target := ?target\<rparr>" ex_previous 24 2 "pt_view 24 ''p'' ex_previous" "''p''"] manifest
  show ?thesis by (auto simp: ex_input_def ex_clean Let_def)
qed

end
