(* ===== verification/Spec2Isabelle.thy ===== *)
theory Spec2Isabelle
  imports TF_Updates TF_Arena TF_Manifest
begin

text \<open>
  The Type Facts transport of solid-checker (\<^verbatim>\<open>src/rust/crates/typefacts\<close>).
\<close>

end
